(* ===== verification/Prelude.thy ===== *)
theory Prelude
  imports Complex_Main "HOL-Library.AList" "HOL-Library.Multiset"
begin

text \<open>
  What the components share: the error values, the result type of code that may
  raise, Python's insertion-ordered dictionaries as association lists, grouping,
  \<open>max(.., key=..)\<close>, \<open>round\<close>, and the generic lemmas on them.

  Conventions of the whole development. A Python \<open>float\<close> is a rational number
  (\<open>rat\<close>): every finite float is one, and the rounding of the floating-point
  operations is not modelled. A Python \<open>int\<close> is an \<open>int\<close> (or a \<open>nat\<close> where it
  counts). A \<open>str\<close> is a list of characters, one per code point up to 255. A
  \<open>dict\<close> is an association list in insertion order: \<open>map_of\<close> reads it and
  \<open>AList.update\<close> stores, which overwrites in place or appends, as Python does.
\<close>

named_theorems dict_simps "lookups in dictionaries after an operation"
named_theorems result_simps "case analysis of results"

section \<open>Errors and results\<close>

text \<open>
  One constructor per exception class of the code that the models raise; the string
  names the check that failed, not the text of the message.
\<close>

datatype py_error =
    ValueError string
  | KeyError string
  | TypeError string
  | SavingsError string
  | IntegrityError string
  | AttributeError string
  | OverflowError string

type_synonym 'a result = "py_error + 'a"

definition rbind :: "'e + 'a \<Rightarrow> ('a \<Rightarrow> 'e + 'b) \<Rightarrow> 'e + 'b" where
  "rbind r f = (case r of Inl e \<Rightarrow> Inl e | Inr x \<Rightarrow> f x)"

lemma rbind_Inl [simp]: "rbind (Inl e) f = Inl e"
  by (simp add: rbind_def)

lemma rbind_Inr [simp]: "rbind (Inr x) f = f x"
  by (simp add: rbind_def)

lemma rbind_eq_Inr [result_simps]:
  "rbind r f = Inr y \<longleftrightarrow> (\<exists>x. r = Inr x \<and> f x = Inr y)"
  by (cases r) auto

lemma case_sum_Inr [result_simps]:
  "(case r of Inl _ \<Rightarrow> False | Inr x \<Rightarrow> P x) \<longleftrightarrow> (\<exists>x. r = Inr x \<and> P x)"
  by (cases r) auto

fun rmapM :: "('a \<Rightarrow> 'e + 'b) \<Rightarrow> 'a list \<Rightarrow> 'e + 'b list" where
  "rmapM f [] = Inr []"
| "rmapM f (x # xs) = rbind (f x) (\<lambda>y. rbind (rmapM f xs) (\<lambda>ys. Inr (y # ys)))"

lemma rmapM_eq_Inr:
  "rmapM f xs = Inr ys \<Longrightarrow> list_all2 (\<lambda>x y. f x = Inr y) xs ys"
  by (induction xs arbitrary: ys) (auto simp: result_simps)

lemma rmapM_each:
  "rmapM f xs = Inr ys \<Longrightarrow> x \<in> set xs \<Longrightarrow> \<exists>y \<in> set ys. f x = Inr y"
  by (induction xs arbitrary: ys) (auto simp: result_simps)

lemma rmapM_from:
  "rmapM f xs = Inr ys \<Longrightarrow> y \<in> set ys \<Longrightarrow> \<exists>x \<in> set xs. f x = Inr y"
  by (induction xs arbitrary: ys) (auto simp: result_simps)

lemma rmapM_all_Inr:
  "(\<And>x. x \<in> set xs \<Longrightarrow> f x = Inr (g x)) \<Longrightarrow> rmapM f xs = Inr (map g xs)"
  by (induction xs) auto

fun rsum :: "('a \<Rightarrow> 'e + 'b::comm_monoid_add) \<Rightarrow> 'a list \<Rightarrow> 'e + 'b" where
  "rsum f [] = Inr 0"
| "rsum f (x # xs) = rbind (f x) (\<lambda>y. rbind (rsum f xs) (\<lambda>s. Inr (y + s)))"

section \<open>Floats that may not be finite\<close>

text \<open>A Python float where the infinities and the non-number matter, and its comparisons.\<close>

datatype pyfloat = Fin rat | PosInf | NegInf | NaN

fun float_le :: "pyfloat \<Rightarrow> pyfloat \<Rightarrow> bool" where
  "float_le NaN _ = False"
| "float_le _ NaN = False"
| "float_le NegInf _ = True"
| "float_le _ PosInf = True"
| "float_le (Fin x) (Fin y) = (x \<le> y)"
| "float_le _ _ = False"

definition float_eq :: "pyfloat \<Rightarrow> pyfloat \<Rightarrow> bool" where
  "float_eq x y = (x = y \<and> x \<noteq> NaN)"

definition float_lt :: "pyfloat \<Rightarrow> pyfloat \<Rightarrow> bool" where
  "float_lt x y = (float_le x y \<and> \<not> float_eq x y)"

section \<open>Dictionaries\<close>

text \<open>\<open>d.get(k, default)\<close>.\<close>

definition dict_get :: "('k \<times> 'v) list \<Rightarrow> 'k \<Rightarrow> 'v \<Rightarrow> 'v" where
  "dict_get d k v = (case map_of d k of None \<Rightarrow> v | Some x \<Rightarrow> x)"

lemma map_of_dict_update [dict_simps]:
  "map_of (AList.update k v d) = (map_of d)(k \<mapsto> v)"
  by (simp add: update_conv')

lemma map_of_dict_delete [dict_simps]:
  "map_of (AList.delete k d) = (map_of d)(k := None)"
  by (simp add: delete_conv')

lemma distinct_dict_update [simp, intro]:
  "distinct (map fst d) \<Longrightarrow> distinct (map fst (AList.update k v d))"
  by (rule distinct_update)

lemma set_dict_update_subset:
  "set (AList.update k v d) \<subseteq> insert (k, v) (set d)"
  by (induction d) auto

lemma dict_update_same_keys:
  "map_of d k = Some w \<Longrightarrow> map fst (AList.update k v d) = map fst d"
  by (induction d) (auto split: if_splits)

lemma dict_update_new:
  "map_of d k = None \<Longrightarrow> AList.update k v d = d @ [(k, v)]"
  by (induction d) (auto split: if_splits)

lemma snd_in_dict_update:
  "p \<in> set (map snd (AList.update k v d)) \<Longrightarrow> p = v \<or> p \<in> set (map snd d)"
  using set_dict_update_subset [of k v d] by auto

text \<open>
  The sum of a measure over the values of a dictionary changes by the difference
  of the new and the replaced value.
\<close>

lemma sum_dict_update:
  fixes f :: "'v \<Rightarrow> 'b::ab_group_add"
  assumes "distinct (map fst d)"
  shows "sum_list (map (f \<circ> snd) (AList.update k v d)) =
         sum_list (map (f \<circ> snd) d) + f v -
           (case map_of d k of None \<Rightarrow> 0 | Some w \<Rightarrow> f w)"
  using assms
proof (induction d)
  case Nil
  then show ?case by simp
next
  case (Cons p d)
  obtain k' w where p: "p = (k', w)" by (cases p)
  show ?case
  proof (cases "k' = k")
    case True
    then show ?thesis by (simp add: p algebra_simps)
  next
    case False
    then show ?thesis using Cons by (simp add: p algebra_simps)
  qed
qed

text \<open>\<open>d.setdefault(k, []).append(v)\<close>, and grouping a list with it.\<close>

definition dict_append :: "'k \<Rightarrow> 'v \<Rightarrow> ('k \<times> 'v list) list \<Rightarrow> ('k \<times> 'v list) list" where
  "dict_append k v d = AList.update k (dict_get d k [] @ [v]) d"

definition group_by :: "('a \<Rightarrow> 'k) \<Rightarrow> 'a list \<Rightarrow> ('k \<times> 'a list) list" where
  "group_by key xs = foldl (\<lambda>d x. dict_append (key x) x d) [] xs"

lemma group_by_snoc [simp]:
  "group_by key (xs @ [x]) = dict_append (key x) x (group_by key xs)"
  by (simp add: group_by_def)

lemma group_by_Nil [simp]: "group_by key [] = []"
  by (simp add: group_by_def)

lemma distinct_group_by [intro]: "distinct (map fst (group_by key xs))"
  by (induction xs rule: rev_induct) (simp_all add: dict_append_def)

lemma map_of_group_by [dict_simps]:
  "map_of (group_by key xs) k =
     (let g = filter (\<lambda>x. key x = k) xs in if g = [] then None else Some g)"
proof (induction xs rule: rev_induct)
  case Nil
  then show ?case by simp
next
  case (snoc x xs)
  then show ?case
    by (cases "k = key x")
       (simp_all add: dict_append_def dict_get_def dict_simps Let_def)
qed

lemma group_by_entry:
  assumes "(k, g) \<in> set (group_by key xs)"
  shows "g = filter (\<lambda>x. key x = k) xs" and "g \<noteq> []"
proof -
  from assms have "map_of (group_by key xs) k = Some g"
    by (intro map_of_is_SomeI distinct_group_by)
  then show "g = filter (\<lambda>x. key x = k) xs" and "g \<noteq> []"
    by (auto simp: dict_simps Let_def split: if_splits)
qed

lemma group_by_member:
  assumes "x \<in> set xs"
  obtains g where "(key x, g) \<in> set (group_by key xs)" and "x \<in> set g"
proof -
  from assms have "map_of (group_by key xs) (key x) = Some (filter (\<lambda>y. key y = key x) xs)"
    by (auto simp: dict_simps Let_def filter_empty_conv)
  then show ?thesis using assms that [of "filter (\<lambda>y. key y = key x) xs"]
    by (auto dest: map_of_SomeD)
qed

section \<open>Python's \<open>max\<close> with a key, and \<open>round\<close>\<close>

text \<open>\<open>max(xs, key=f, default=None)\<close>: the first of the elements with the greatest key.\<close>

fun py_max_by :: "('a \<Rightarrow> 'b::linorder) \<Rightarrow> 'a list \<Rightarrow> 'a option" where
  "py_max_by f [] = None"
| "py_max_by f (x # xs) = Some (foldl (\<lambda>m y. if f y > f m then y else m) x xs)"

lemma foldl_max_by:
  "foldl (\<lambda>m y. if f y > f m then y else m) x xs \<in> set (x # xs) \<and>
   (\<forall>y \<in> set (x # xs). f y \<le> (f :: 'a \<Rightarrow> 'b::linorder) (foldl (\<lambda>m y. if f y > f m then y else m) x xs))"
proof (induction xs arbitrary: x)
  case Nil
  then show ?case by simp
next
  case (Cons a xs)
  show ?case
  proof (cases "f x < f a")
    case True
    then show ?thesis using Cons [of a] by fastforce
  next
    case False
    then show ?thesis using Cons [of x] by fastforce
  qed
qed

lemma py_max_by_SomeD:
  assumes "py_max_by f xs = Some m"
  shows "m \<in> set xs" and "\<And>y. y \<in> set xs \<Longrightarrow> f y \<le> f m"
proof -
  from assms obtain x xs' where xs: "xs = x # xs'" by (cases xs) auto
  with assms have m: "m = foldl (\<lambda>m y. if f y > f m then y else m) x xs'" by simp
  show "m \<in> set xs" and "\<And>y. y \<in> set xs \<Longrightarrow> f y \<le> f m"
    using foldl_max_by [of f x xs'] by (auto simp: xs m)
qed

lemma py_max_by_None [simp]: "py_max_by f xs = None \<longleftrightarrow> xs = []"
  by (cases xs) auto

text \<open>\<open>round(x)\<close>: to the nearest integer, halves to the even one.\<close>

definition py_round :: "rat \<Rightarrow> int" where
  "py_round x =
     (let f = \<lfloor>x\<rfloor>; d = x - of_int f
      in if d < 1 / 2 then f
         else if d > 1 / 2 then f + 1
         else if even f then f else f + 1)"

lemma py_round_error: "\<bar>x - of_int (py_round x)\<bar> \<le> 1 / 2"
proof -
  have lo: "of_int \<lfloor>x\<rfloor> \<le> x" and hi: "x < of_int \<lfloor>x\<rfloor> + 1" by linarith+
  have "py_round x = \<lfloor>x\<rfloor> \<and> x - of_int \<lfloor>x\<rfloor> \<le> 1 / 2 \<or>
        py_round x = \<lfloor>x\<rfloor> + 1 \<and> 1 / 2 \<le> x - of_int \<lfloor>x\<rfloor>"
    by (simp add: py_round_def Let_def)
  then show ?thesis using lo hi by (elim disjE conjE) (auto simp: abs_le_iff)
qed

lemma py_round_int [simp]: "py_round (of_int i) = i"
  by (simp add: py_round_def)

lemma py_round_mono:
  assumes "x \<le> y"
  shows "py_round x \<le> py_round y"
proof (rule ccontr)
  assume "\<not> ?thesis"
  then have less: "py_round y + 1 \<le> py_round x" by linarith
  have ex: "\<bar>x - of_int (py_round x)\<bar> \<le> 1 / 2" and ey: "\<bar>y - of_int (py_round y)\<bar> \<le> 1 / 2"
    by (rule py_round_error)+
  from less have "of_int (py_round y) + 1 \<le> (of_int (py_round x) :: rat)"
    by (metis of_int_1 of_int_add of_int_le_iff)
  with ex ey assms have "x = y" by linarith
  with less show False by simp
qed

section \<open>Sums and sorted lists\<close>

lemma sum_list_map_le:
  fixes f g :: "'a \<Rightarrow> 'b::ordered_comm_monoid_add"
  assumes "\<And>x. x \<in> set xs \<Longrightarrow> f x \<le> g x"
  shows "sum_list (map f xs) \<le> sum_list (map g xs)"
  using assms by (induction xs) (auto intro: add_mono)

lemma list_all2_flip:
  "list_all2 P xs ys \<Longrightarrow> (\<And>x y. P x y \<Longrightarrow> Q y x) \<Longrightarrow> list_all2 Q ys xs"
  by (induction rule: list_all2_induct) auto

lemma sum_list_map_const: "sum_list (map (\<lambda>_. c) xs) = of_nat (length xs) * (c :: 'a::semiring_1)"
  by (induction xs) (auto simp: algebra_simps)

lemma sum_list_map_nonneg:
  fixes f :: "'a \<Rightarrow> rat"
  shows "(\<And>x. x \<in> set xs \<Longrightarrow> 0 \<le> f x) \<Longrightarrow> 0 \<le> sum_list (map f xs)"
  by (induction xs) (auto simp: add_nonneg_nonneg)

lemma of_int_sum_list_map: "of_int (sum_list (map f xs)) = sum_list (map (\<lambda>x. of_int (f x)) xs)"
  by (induction xs) auto

end
