(* ===== verification/Models.thy ===== *)
theory Models
  imports Prelude
begin

text \<open>
  The domain entities of \<open>src/gemp/domain/models.py\<close>: buildings, catalog
  interventions, candidates and allocations, with the checks their constructors make.
  A Pydantic model is a record and a function that validates it, returning the error
  the constructor raises. A \<open>Literal\<close> field is a string checked against its list.
\<close>

section \<open>Buildings\<close>

definition END_USES :: "string list" where
  "END_USES = [''hvac'', ''lighting'', ''plug'', ''other'', ''generation'']"

definition COST_TYPES :: "string list" where
  "COST_TYPES = [''fixed'', ''per_m2_floor'', ''per_m2_roof'', ''per_m2_glazing'', ''solar'']"

definition EMBODIED_TYPES :: "string list" where
  "EMBODIED_TYPES =
     [''fixed'', ''per_m2_floor'', ''per_m2_roof'', ''per_m2_glazing'', ''per_kwp'']"

definition INSULATION_QUALITIES :: "string list" where
  "INSULATION_QUALITIES = [''poor'', ''fair'', ''good'']"

definition OCCUPANCIES :: "string list" where
  "OCCUPANCIES = [''office'', ''school'', ''clinic'', ''admin_24x7'']"

definition ORIENTATIONS :: "string list" where
  "ORIENTATIONS =
     [''N'', ''NE'', ''E'', ''SE'', ''S'', ''SW'', ''W'', ''NW'', ''FLAT'']"

definition HOURS_PER_DAY :: nat where
  "HOURS_PER_DAY = 24"

definition FLAT_SHAPE :: "rat list" where
  "FLAT_SHAPE = replicate HOURS_PER_DAY 1"

record building =
  bld_id :: string
  bld_code :: string
  bld_name :: string
  bld_district :: string
  bld_lat :: rat
  bld_lon :: rat
  bld_floor_area_m2 :: rat
  bld_roof_area_m2 :: rat
  bld_glazing_area_m2 :: rat
  bld_roof_orientation :: string
  bld_hvac_type :: string
  bld_hvac_age_yr :: int
  bld_insulation_quality :: string
  bld_occupancy_pattern :: string
  bld_annual_kwh :: rat
  bld_hourly_shape :: "rat list"

definition shape_is_a_normalised_day :: "rat list \<Rightarrow> rat list result" where
  "shape_is_a_normalised_day value =
     (if length value \<noteq> HOURS_PER_DAY then Inl (ValueError ''hourly_shape length'')
      else if list_ex (\<lambda>v. v \<le> 0) value then Inl (ValueError ''hourly_shape entries'')
      else let mean = sum_list value / of_nat HOURS_PER_DAY
           in Inr (map (\<lambda>v. v / mean) value))"

definition validate_building :: "building \<Rightarrow> building result" where
  "validate_building b =
     (if bld_floor_area_m2 b \<le> 0 then Inl (ValueError ''floor_area_m2'')
      else if bld_roof_area_m2 b \<le> 0 then Inl (ValueError ''roof_area_m2'')
      else if bld_glazing_area_m2 b < 0 then Inl (ValueError ''glazing_area_m2'')
      else if bld_roof_orientation b \<notin> set ORIENTATIONS then Inl (ValueError ''roof_orientation'')
      else if bld_hvac_age_yr b < 0 then Inl (ValueError ''hvac_age_yr'')
      else if bld_insulation_quality b \<notin> set INSULATION_QUALITIES
        then Inl (ValueError ''insulation_quality'')
      else if bld_occupancy_pattern b \<notin> set OCCUPANCIES
        then Inl (ValueError ''occupancy_pattern'')
      else if bld_annual_kwh b \<le> 0 then Inl (ValueError ''annual_kwh'')
      else rbind (shape_is_a_normalised_day (bld_hourly_shape b))
             (\<lambda>shape. Inr (b\<lparr>bld_hourly_shape := shape\<rparr>)))"

definition has_measured_shape :: "building \<Rightarrow> bool" where
  "has_measured_shape b = list_ex (\<lambda>v. \<bar>v - 1\<bar> > 1 / 1000000000) (bld_hourly_shape b)"

definition glazing_ratio :: "building \<Rightarrow> rat" where
  "glazing_ratio b = bld_glazing_area_m2 b / bld_floor_area_m2 b"

definition kwh_per_m2 :: "building \<Rightarrow> rat" where
  "kwh_per_m2 b = bld_annual_kwh b / bld_floor_area_m2 b"

section \<open>Interventions\<close>

record intervention =
  iv_id :: string
  iv_label :: string
  iv_end_use :: string
  iv_exclusive_group :: string
  iv_adj_key :: string
  iv_cost_type :: string
  iv_cost_value :: rat
  iv_saving_frac :: rat
  iv_service_life_yr :: int
  iv_embodied_type :: string
  iv_embodied_value :: rat
  iv_applies_if :: string
  iv_source_ref :: string

definition is_generation :: "intervention \<Rightarrow> bool" where
  "is_generation iv = (iv_end_use iv = ''generation'')"

definition check_generation_consistency :: "intervention \<Rightarrow> intervention result" where
  "check_generation_consistency iv =
     (if is_generation iv \<and> iv_cost_type iv \<noteq> ''solar''
        then Inl (ValueError ''generation requires solar'')
      else if iv_cost_type iv = ''solar'' \<and> \<not> is_generation iv
        then Inl (ValueError ''solar requires generation'')
      else if \<not> is_generation iv \<and> iv_saving_frac iv = 0
        then Inl (ValueError ''saving_frac=0'')
      else Inr iv)"

definition validate_intervention :: "intervention \<Rightarrow> intervention result" where
  "validate_intervention iv =
     (if iv_end_use iv \<notin> set END_USES then Inl (ValueError ''end_use'')
      else if iv_cost_type iv \<notin> set COST_TYPES then Inl (ValueError ''cost_type'')
      else if iv_cost_value iv < 0 then Inl (ValueError ''cost_value'')
      else if iv_saving_frac iv < 0 \<or> iv_saving_frac iv > 1 then Inl (ValueError ''saving_frac'')
      else if iv_service_life_yr iv \<le> 0 then Inl (ValueError ''service_life_yr'')
      else if iv_embodied_type iv \<notin> set EMBODIED_TYPES then Inl (ValueError ''embodied_type'')
      else if iv_embodied_value iv < 0 then Inl (ValueError ''embodied_value'')
      else if iv_source_ref iv = [] then Inl (ValueError ''source_ref'')
      else check_generation_consistency iv)"

section \<open>Candidates\<close>

text \<open>
  \<open>cand_lifetime_tou_benefit\<close> is the value after \<open>_tou_defaults_to_flat\<close>: the
  constructor replaces a missing one by the flat benefit.
\<close>

record candidate =
  cand_key :: string
  cand_building_id :: string
  cand_district :: string
  cand_intervention_ids :: "string list"
  cand_label :: string
  cand_cost_egp :: rat
  cand_annual_kwh_saving :: rat
  cand_lifetime_benefit :: rat
  cand_lifetime_tou_benefit :: rat
  cand_annual_egp_saving :: rat

definition mk_candidate ::
  "string \<Rightarrow> string \<Rightarrow> string \<Rightarrow> string list \<Rightarrow> string \<Rightarrow> rat \<Rightarrow> rat \<Rightarrow> rat \<Rightarrow> rat option \<Rightarrow> rat
     \<Rightarrow> candidate result" where
  "mk_candidate key bid district ids label cost kwh benefit tou egp =
     (if cost < 0 then Inl (ValueError ''cost_egp'')
      else if kwh < 0 then Inl (ValueError ''annual_kwh_saving'')
      else if egp < 0 then Inl (ValueError ''annual_egp_saving'')
      else Inr \<lparr>cand_key = key, cand_building_id = bid, cand_district = district,
                cand_intervention_ids = ids, cand_label = label, cand_cost_egp = cost,
                cand_annual_kwh_saving = kwh, cand_lifetime_benefit = benefit,
                cand_lifetime_tou_benefit = (case tou of None \<Rightarrow> benefit | Some t \<Rightarrow> t),
                cand_annual_egp_saving = egp\<rparr>)"

definition score_per_kegp :: "candidate \<Rightarrow> rat" where
  "score_per_kegp c =
     (if cand_cost_egp c \<le> 0 then 0 else cand_lifetime_benefit c / (cand_cost_egp c / 1000))"

definition is_bundle :: "candidate \<Rightarrow> bool" where
  "is_bundle c = (length (cand_intervention_ids c) > 1)"

section \<open>Allocations\<close>

record allocation_item =
  item_building_id :: string
  item_building_code :: string
  item_district :: string
  item_candidate_key :: string
  item_intervention_ids :: "string list"
  item_label :: string
  item_cost_egp :: rat
  item_annual_kwh_saving :: rat
  item_lifetime_benefit :: rat
  item_annual_egp_saving :: rat

text \<open>\<open>solve_ms\<close>, a wall-clock measurement, is left out.\<close>

record allocation =
  alloc_solver :: string
  alloc_objective :: string
  alloc_status :: string
  alloc_budget_egp :: rat
  alloc_items :: "allocation_item list"

definition one_option_per_building :: "allocation_item list \<Rightarrow> allocation_item list result" where
  "one_option_per_building items =
     (let seen = map item_building_id items
      in if length seen \<noteq> length (remdups seen)
         then Inl (ValueError ''more than one option for the same building'')
         else Inr items)"

definition mk_allocation ::
  "string \<Rightarrow> string \<Rightarrow> string \<Rightarrow> rat \<Rightarrow> allocation_item list \<Rightarrow> allocation result" where
  "mk_allocation solver objective status budget items =
     rbind (one_option_per_building items)
       (\<lambda>items. Inr \<lparr>alloc_solver = solver, alloc_objective = objective, alloc_status = status,
                     alloc_budget_egp = budget, alloc_items = items\<rparr>)"

definition total_cost_egp :: "allocation \<Rightarrow> rat" where
  "total_cost_egp a = sum_list (map item_cost_egp (alloc_items a))"

definition total_kwh_saving :: "allocation \<Rightarrow> rat" where
  "total_kwh_saving a = sum_list (map item_annual_kwh_saving (alloc_items a))"

definition total_benefit_kgco2e :: "allocation \<Rightarrow> rat" where
  "total_benefit_kgco2e a = sum_list (map item_lifetime_benefit (alloc_items a))"

definition total_egp_saving :: "allocation \<Rightarrow> rat" where
  "total_egp_saving a = sum_list (map item_annual_egp_saving (alloc_items a))"

definition buildings_funded :: "allocation \<Rightarrow> nat" where
  "buildings_funded a = length (remdups (map item_building_id (alloc_items a)))"

definition budget_used_frac :: "allocation \<Rightarrow> rat" where
  "budget_used_frac a =
     (if alloc_budget_egp a = 0 then 0 else total_cost_egp a / alloc_budget_egp a)"

definition benefit_per_egp :: "allocation \<Rightarrow> rat" where
  "benefit_per_egp a =
     (if alloc_budget_egp a = 0 then 0 else total_benefit_kgco2e a / alloc_budget_egp a)"

section \<open>Lemmas\<close>

lemma sum_list_divide: "sum_list (map (\<lambda>v. v / c) xs) = sum_list xs / (c :: rat)"
  by (induction xs) (auto simp: add_divide_distrib)

lemma sum_list_pos:
  "(\<And>v. v \<in> set xs \<Longrightarrow> 0 < (v :: rat)) \<Longrightarrow> xs \<noteq> [] \<Longrightarrow> 0 < sum_list xs"
proof (induction xs)
  case Nil
  then show ?case by simp
next
  case (Cons x xs)
  then show ?case by (cases "xs = []") (auto intro: add_pos_pos)
qed

lemma shape_ok:
  assumes "shape_is_a_normalised_day xs = Inr ys"
  shows "length ys = HOURS_PER_DAY" and "\<forall>v \<in> set ys. 0 < v"
    and "sum_list ys = of_nat HOURS_PER_DAY"
proof -
  from assms have len: "length xs = HOURS_PER_DAY" and pos: "\<forall>v \<in> set xs. 0 < v"
    and ys: "ys = map (\<lambda>v. v / (sum_list xs / of_nat HOURS_PER_DAY)) xs"
    by (auto simp: shape_is_a_normalised_day_def list_ex_iff Let_def not_le split: if_splits)
  have "xs \<noteq> []" using len by (auto simp: HOURS_PER_DAY_def)
  with pos have s: "0 < sum_list xs" by (auto intro: sum_list_pos)
  show "length ys = HOURS_PER_DAY" using len by (simp add: ys)
  show "\<forall>v \<in> set ys. 0 < v" using pos s by (auto simp: ys HOURS_PER_DAY_def)
  have "sum_list ys = sum_list xs / (sum_list xs / of_nat HOURS_PER_DAY)"
    unfolding ys by (rule sum_list_divide)
  also have "\<dots> = of_nat HOURS_PER_DAY" using s by (simp add: HOURS_PER_DAY_def)
  finally show "sum_list ys = of_nat HOURS_PER_DAY" .
qed

lemma mk_allocation_Inr:
  "mk_allocation s ob st b items = Inr a \<Longrightarrow>
     alloc_items a = items \<and> alloc_budget_egp a = b \<and> alloc_solver a = s \<and>
     alloc_objective a = ob \<and> alloc_status a = st \<and> distinct (map item_building_id items)"
  by (auto simp: mk_allocation_def one_option_per_building_def Let_def result_simps
        simp del: length_map split: if_splits intro: card_distinct)
     (metis length_remdups_card_conv card_distinct)+

lemma mk_allocation_distinct:
  "distinct (map item_building_id items) \<Longrightarrow>
     \<exists>a. mk_allocation s ob st b items = Inr a"
  by (simp add: mk_allocation_def one_option_per_building_def Let_def
      distinct_remdups_id)

end
