(* ===== verification/Objective.thy ===== *)
theory Objective
  imports Models
begin

text \<open>
  \<open>src/gemp/optimize/objective.py\<close> and \<open>common.py\<close>: what the solvers maximise,
  the density they rank on, and the conversion of picked candidates to items.
\<close>

definition OBJECTIVES :: "(string \<times> (candidate \<Rightarrow> rat)) list" where
  "OBJECTIVES =
     [(''lca_carbon'', cand_lifetime_benefit),
      (''tou_carbon'', cand_lifetime_tou_benefit),
      (''raw_kwh'', cand_annual_kwh_saving),
      (''egp_saved'', cand_annual_egp_saving)]"

definition OBJECTIVE_UNITS :: "(string \<times> string) list" where
  "OBJECTIVE_UNITS =
     [(''lca_carbon'', ''kgCO2e''), (''tou_carbon'', ''kgCO2e''),
      (''raw_kwh'', ''kWh/yr''), (''egp_saved'', ''EGP/yr'')]"

definition objective_fn :: "string \<Rightarrow> (candidate \<Rightarrow> rat) result" where
  "objective_fn name =
     (case map_of OBJECTIVES name of
        None \<Rightarrow> Inl (ValueError ''unknown objective'')
      | Some f \<Rightarrow> Inr f)"

text \<open>
  \<open>density(candidate, name)\<close> looks the objective up for every candidate of positive
  cost; the callers have resolved the name before, so the model takes the function.
\<close>

definition density :: "candidate \<Rightarrow> (candidate \<Rightarrow> rat) \<Rightarrow> rat" where
  "density c value_of = (if cand_cost_egp c \<le> 0 then 0 else value_of c / cand_cost_egp c)"

definition to_item :: "building list \<Rightarrow> candidate \<Rightarrow> allocation_item result" where
  "to_item buildings c =
     (case map_of (rev (map (\<lambda>b. (bld_id b, b)) buildings)) (cand_building_id c) of
        None \<Rightarrow> Inl (KeyError ''building_id'')
      | Some b \<Rightarrow> Inr
          \<lparr>item_building_id = cand_building_id c, item_building_code = bld_code b,
           item_district = cand_district c, item_candidate_key = cand_key c,
           item_intervention_ids = cand_intervention_ids c, item_label = cand_label c,
           item_cost_egp = cand_cost_egp c, item_annual_kwh_saving = cand_annual_kwh_saving c,
           item_lifetime_benefit = cand_lifetime_benefit c,
           item_annual_egp_saving = cand_annual_egp_saving c\<rparr>)"

definition to_items :: "candidate list \<Rightarrow> building list \<Rightarrow> allocation_item list result" where
  "to_items picks buildings = rmapM (to_item buildings) picks"

section \<open>Lemmas\<close>

lemma objective_fn_cases:
  "objective_fn name = Inr f \<Longrightarrow>
     f \<in> {cand_lifetime_benefit, cand_lifetime_tou_benefit,
          cand_annual_kwh_saving, cand_annual_egp_saving}"
  by (auto simp: objective_fn_def OBJECTIVES_def split: option.splits if_splits)

definition known_buildings :: "building list \<Rightarrow> candidate list \<Rightarrow> bool" where
  "known_buildings buildings cs =
     list_all (\<lambda>c. cand_building_id c \<in> set (map bld_id buildings)) cs"

lemma to_item_Inr:
  assumes "to_item buildings c = Inr i"
  shows "item_building_id i = cand_building_id c" and "item_cost_egp i = cand_cost_egp c"
    and "item_district i = cand_district c" and "item_candidate_key i = cand_key c"
    and "item_lifetime_benefit i = cand_lifetime_benefit c"
    and "item_annual_kwh_saving i = cand_annual_kwh_saving c"
    and "item_annual_egp_saving i = cand_annual_egp_saving c"
    and "item_intervention_ids i = cand_intervention_ids c" and "item_label i = cand_label c"
  using assms by (auto simp: to_item_def split: option.splits)

lemma to_item_known:
  "cand_building_id c \<in> set (map bld_id buildings) \<Longrightarrow> \<exists>i. to_item buildings c = Inr i"
  by (auto simp: to_item_def map_of_eq_None_iff image_image split: option.splits)

lemma to_items_known:
  "known_buildings buildings cs \<Longrightarrow> \<exists>is. to_items cs buildings = Inr is"
proof (induction cs)
  case Nil
  then show ?case by (simp add: to_items_def)
next
  case (Cons c cs)
  then show ?case using to_item_known [of c buildings]
    by (fastforce simp: to_items_def known_buildings_def)
qed

lemma to_items_map:
  assumes "to_items cs buildings = Inr is"
  shows "map item_building_id is = map cand_building_id cs"
    and "map item_cost_egp is = map cand_cost_egp cs"
    and "map item_district is = map cand_district cs"
    and "map item_candidate_key is = map cand_key cs"
    and "map item_lifetime_benefit is = map cand_lifetime_benefit cs"
proof -
  have all: "list_all2 (\<lambda>c i. to_item buildings c = Inr i) cs is"
    using assms by (simp add: to_items_def rmapM_eq_Inr)
  show "map item_building_id is = map cand_building_id cs"
    and "map item_cost_egp is = map cand_cost_egp cs"
    and "map item_district is = map cand_district cs"
    and "map item_candidate_key is = map cand_key cs"
    and "map item_lifetime_benefit is = map cand_lifetime_benefit cs"
    using all by (induction) (auto dest: to_item_Inr)
qed

end
