(* ===== verification/Prune.thy ===== *)
theory Prune
  imports Objective "HOL-Library.Product_Lexorder" "HOL-Library.Sublist"
begin

text \<open>
  \<open>src/gemp/optimize/prune.py\<close>: keeping the cost/benefit frontier of each building,
  and what the solvers call a feasible selection. The lemmas show that every option
  has a kept one at its building that costs no more and is worth no less.
\<close>

section \<open>Pruning\<close>

text \<open>\<open>best_so_far\<close> starts at \<open>float("-inf")\<close>, which is \<open>None\<close> here.\<close>

fun frontier :: "(candidate \<Rightarrow> rat) \<Rightarrow> rat option \<Rightarrow> candidate list \<Rightarrow> candidate list" where
  "frontier value_of best_so_far [] = []"
| "frontier value_of best_so_far (c # cs) =
     (if (case best_so_far of None \<Rightarrow> True | Some b \<Rightarrow> value_of c > b)
      then c # frontier value_of (Some (value_of c)) cs
      else frontier value_of best_so_far cs)"

definition cheapest_first :: "(candidate \<Rightarrow> rat) \<Rightarrow> candidate list \<Rightarrow> candidate list" where
  "cheapest_first value_of = sort_key (\<lambda>c. (cand_cost_egp c, - value_of c))"

definition prune_with :: "(candidate \<Rightarrow> rat) \<Rightarrow> candidate list \<Rightarrow> candidate list" where
  "prune_with value_of candidates =
     concat (map (\<lambda>(_, options). frontier value_of None (cheapest_first value_of options))
                 (group_by cand_building_id candidates))"

definition prune_dominated :: "candidate list \<Rightarrow> string \<Rightarrow> candidate list result" where
  "prune_dominated candidates objective =
     rbind (objective_fn objective) (\<lambda>value_of. Inr (prune_with value_of candidates))"

section \<open>Selections\<close>

definition district_count :: "string \<Rightarrow> candidate list \<Rightarrow> nat" where
  "district_count d picks = length (filter (\<lambda>c. cand_district c = d) picks)"

definition within_cap :: "int option \<Rightarrow> candidate list \<Rightarrow> bool" where
  "within_cap cap picks =
     (case cap of None \<Rightarrow> True
      | Some m \<Rightarrow> list_all (\<lambda>c. int (district_count (cand_district c) picks) \<le> m) picks)"

definition selection_cost :: "candidate list \<Rightarrow> rat" where
  "selection_cost picks = sum_list (map cand_cost_egp picks)"

definition selection_value :: "(candidate \<Rightarrow> rat) \<Rightarrow> candidate list \<Rightarrow> rat" where
  "selection_value value_of picks = sum_list (map value_of picks)"

text \<open>One option per building, within budget, within the cap of every district.\<close>

definition feasible :: "rat \<Rightarrow> int option \<Rightarrow> candidate list \<Rightarrow> candidate list \<Rightarrow> bool" where
  "feasible budget cap candidates picks =
     (list_all (\<lambda>c. c \<in> set candidates) picks \<and>
      distinct (map cand_building_id picks) \<and>
      selection_cost picks \<le> budget \<and> within_cap cap picks)"

text \<open>All options of a building carry the building's district, as expansion makes them.\<close>

definition consistent_districts :: "candidate list \<Rightarrow> bool" where
  "consistent_districts cs =
     list_all (\<lambda>c. list_all (\<lambda>d. cand_building_id c = cand_building_id d \<longrightarrow>
                               cand_district c = cand_district d) cs) cs"

section \<open>Lemmas\<close>

lemma consistent_districtsD:
  "consistent_districts cs \<Longrightarrow> c \<in> set cs \<Longrightarrow> d \<in> set cs \<Longrightarrow>
     cand_building_id c = cand_building_id d \<Longrightarrow> cand_district c = cand_district d"
  unfolding consistent_districts_def list_all_iff by blast

lemma frontier_subset: "set (frontier v b cs) \<subseteq> set cs"
  by (induction v b cs rule: frontier.induct) auto

lemma cheapest_first_set [simp]: "set (cheapest_first v cs) = set cs"
  by (simp add: cheapest_first_def)

lemma cheapest_first_sorted:
  "sorted (map (\<lambda>c. (cand_cost_egp c, - v c)) (cheapest_first v cs))"
  by (simp add: cheapest_first_def)

lemma frontier_dominates:
  assumes "sorted (map (\<lambda>c. (cand_cost_egp c, - v c)) cs)" and "c \<in> set cs"
  shows "(\<exists>a \<in> set (frontier v b cs). cand_cost_egp a \<le> cand_cost_egp c \<and> v c \<le> v a) \<or>
         (\<exists>x. b = Some x \<and> v c \<le> x)"
  using assms
proof (induction v b cs rule: frontier.induct)
  case (1 v b)
  then show ?case by simp
next
  case (2 v b c' cs)
  let ?keep = "case b of None \<Rightarrow> True | Some x \<Rightarrow> v c' > x"
  show ?case
  proof (cases "c = c'")
    case True
    then show ?thesis by (auto split: option.splits)
  next
    case False
    with "2.prems" have c: "c \<in> set cs" and s: "sorted (map (\<lambda>c. (cand_cost_egp c, - v c)) cs)"
      and le: "cand_cost_egp c' \<le> cand_cost_egp c" by auto
    show ?thesis
    proof (cases ?keep)
      case True
      with "2.IH"(1) [OF True s c] le show ?thesis by auto
    next
      case False
      with "2.IH"(2) [OF False s c] show ?thesis by auto
    qed
  qed
qed

lemma frontier_strict:
  assumes "sorted (map (\<lambda>c. (cand_cost_egp c, - v c)) cs)"
  shows "sorted_wrt (\<lambda>a c. cand_cost_egp a < cand_cost_egp c \<and> v a < v c) (frontier v b cs) \<and>
         (\<forall>x. b = Some x \<longrightarrow> (\<forall>c \<in> set (frontier v b cs). x < v c))"
  using assms
proof (induction v b cs rule: frontier.induct)
  case (1 v b)
  then show ?case by simp
next
  case (2 v b c cs)
  let ?keep = "case b of None \<Rightarrow> True | Some x \<Rightarrow> v c > x"
  from "2.prems" have s: "sorted (map (\<lambda>c. (cand_cost_egp c, - v c)) cs)"
    and le: "\<forall>d \<in> set cs. (cand_cost_egp c, - v c) \<le> (cand_cost_egp d, - v d)" by auto
  show ?case
  proof (cases ?keep)
    case True
    have "\<forall>d \<in> set (frontier v (Some (v c)) cs). v c < v d \<and> cand_cost_egp c < cand_cost_egp d"
      using "2.IH"(1) [OF True s] le frontier_subset [of v "Some (v c)" cs] by fastforce
    with True "2.IH"(1) [OF True s] show ?thesis by (auto split: option.splits)
  next
    case False
    with "2.IH"(2) [OF False s] show ?thesis by auto
  qed
qed

lemma prune_with_mem:
  "c \<in> set (prune_with v cs) \<longleftrightarrow>
     (\<exists>k g. (k, g) \<in> set (group_by cand_building_id cs) \<and>
            c \<in> set (frontier v None (cheapest_first v g)))"
  by (auto simp: prune_with_def)

lemma prune_with_subset: "set (prune_with v cs) \<subseteq> set cs"
proof
  fix c assume "c \<in> set (prune_with v cs)"
  then obtain k g where g: "(k, g) \<in> set (group_by cand_building_id cs)"
    and c: "c \<in> set (frontier v None (cheapest_first v g))" by (auto simp: prune_with_mem)
  from c have "c \<in> set g" using frontier_subset [of v None "cheapest_first v g"] by auto
  with group_by_entry (1) [OF g] show "c \<in> set cs" by auto
qed

lemma prune_with_dominates:
  assumes "c \<in> set cs"
  shows "\<exists>a \<in> set (prune_with v cs). cand_building_id a = cand_building_id c \<and>
           cand_cost_egp a \<le> cand_cost_egp c \<and> v c \<le> v a"
proof -
  obtain g where g: "(cand_building_id c, g) \<in> set (group_by cand_building_id cs)"
    and c: "c \<in> set g" using assms by (rule group_by_member)
  from frontier_dominates [OF cheapest_first_sorted, of c v g None] c
  obtain a where a: "a \<in> set (frontier v None (cheapest_first v g))"
    and le: "cand_cost_egp a \<le> cand_cost_egp c" "v c \<le> v a" by auto
  have "a \<in> set g" using a frontier_subset [of v None "cheapest_first v g"] by auto
  then have "cand_building_id a = cand_building_id c" using group_by_entry (1) [OF g] by auto
  moreover have "a \<in> set (prune_with v cs)" using a g unfolding prune_with_mem by blast
  ultimately show ?thesis using le by blast
qed

text \<open>
  Replacing every option of a selection by a dominating kept one: the shape all
  optimality results rest on, for any cost and value that respect the order.
\<close>

lemma prune_replacement:
  assumes S: "list_all (\<lambda>c. c \<in> set cs) S" and cons: "consistent_districts cs"
  obtains S' where "list_all (\<lambda>c. c \<in> set (prune_with v cs)) S'"
    and "map cand_building_id S' = map cand_building_id S"
    and "map cand_district S' = map cand_district S"
    and "list_all2 (\<lambda>a c. cand_cost_egp a \<le> cand_cost_egp c \<and> v c \<le> v a) S' S"
proof -
  have "\<forall>c \<in> set cs. \<exists>a. a \<in> set (prune_with v cs) \<and> cand_building_id a = cand_building_id c \<and>
           cand_cost_egp a \<le> cand_cost_egp c \<and> v c \<le> v a"
    using prune_with_dominates by fast
  then obtain f where f: "\<And>c. c \<in> set cs \<Longrightarrow> f c \<in> set (prune_with v cs) \<and>
      cand_building_id (f c) = cand_building_id c \<and>
      cand_cost_egp (f c) \<le> cand_cost_egp c \<and> v c \<le> v (f c)"
    by (metis bchoice)
  have d: "cand_district (f c) = cand_district c" if "c \<in> set cs" for c
    using f [OF that] prune_with_subset [of v cs] that
    by (intro consistent_districtsD [OF cons]) auto
  show ?thesis
    using S f d
    by (intro that [of "map f S"]) (auto simp: list_all_iff list_all2_conv_all_nth)
qed

lemma district_count_cong:
  "map cand_district S' = map cand_district S \<Longrightarrow> district_count d S' = district_count d S"
proof -
  have c: "district_count d S = count_list (map cand_district S) d" for S
    by (induction S) (auto simp: district_count_def)
  show "map cand_district S' = map cand_district S \<Longrightarrow> district_count d S' = district_count d S"
    by (simp only: c)
qed

lemma within_cap_iff:
  "within_cap (Some m) S \<longleftrightarrow> (\<forall>d \<in> set (map cand_district S). int (district_count d S) \<le> m)"
  by (auto simp: within_cap_def list_all_iff)

lemma within_cap_cong:
  assumes "map cand_district S' = map cand_district S"
  shows "within_cap cap S' = within_cap cap S"
proof (cases cap)
  case None
  then show ?thesis by (simp add: within_cap_def)
next
  case (Some m)
  then show ?thesis using district_count_cong [OF assms] by (simp add: within_cap_iff assms del: set_map)
qed

lemma list_all2_sum_le:
  fixes f g :: "'a \<Rightarrow> 'b::ordered_comm_monoid_add"
  shows "list_all2 (\<lambda>a c. f a \<le> f c) xs ys \<Longrightarrow> sum_list (map f xs) \<le> sum_list (map f ys)"
  by (induction rule: list_all2_induct) (auto intro: add_mono)

lemma frontier_subseq: "subseq (frontier v b cs) cs"
  by (induction v b cs rule: frontier.induct) (auto intro: subseq_Cons')

lemma subseq_keeps_distinct: "subseq xs ys \<Longrightarrow> distinct ys \<Longrightarrow> distinct xs"
  by (auto simp: subseq_conv_nths intro: distinct_nthsI)

lemma distinct_frontier:
  "distinct (map f g) \<Longrightarrow> distinct (map f (frontier v b (cheapest_first v g)))"
proof -
  assume "distinct (map f g)"
  moreover have "mset (map f (cheapest_first v g)) = mset (map f g)"
    by (simp add: cheapest_first_def)
  ultimately have "distinct (map f (cheapest_first v g))" by (metis mset_eq_imp_distinct_iff)
  then show ?thesis
    by (rule subseq_keeps_distinct [OF subseq_map [OF frontier_subseq]])
qed

lemma distinct_groups:
  assumes "distinct (map fst gs)"
    and "\<And>k g. (k, g) \<in> set gs \<Longrightarrow> distinct (map f (h g)) \<and> (\<forall>c \<in> set (h g). c \<in> A \<and> key c = k)"
    and "inj_on f A"
  shows "distinct (map f (concat (map (\<lambda>(_, g). h g) gs)))"
  using assms(1,2)
proof (induction gs)
  case Nil
  then show ?case by simp
next
  case (Cons p gs)
  obtain k g where p: "p = (k, g)" by (cases p)
  let ?rest = "concat (map (\<lambda>(_, g). h g) gs)"
  have IH: "distinct (map f ?rest)" by (rule Cons.IH) (use Cons.prems in auto)
  have "c \<in> A \<and> key c \<noteq> k" if c: "c \<in> set ?rest" for c
  proof -
    from c obtain k' g' where g': "(k', g') \<in> set gs" "c \<in> set (h g')" by auto
    then have "k' \<noteq> k" using Cons.prems(1) by (force simp: p)
    then show ?thesis using Cons.prems(2) [of k' g'] g' by auto
  qed
  moreover have "distinct (map f (h g))" and "\<forall>c \<in> set (h g). c \<in> A \<and> key c = k"
    using Cons.prems(2) [of k g] by (auto simp: p)
  ultimately show ?case using IH inj_onD [OF assms(3)] by (fastforce simp: p)
qed

lemma prune_with_keys:
  assumes "distinct (map cand_key cs)"
  shows "distinct (map cand_key (prune_with v cs))"
  unfolding prune_with_def
proof (rule distinct_groups [OF distinct_group_by, where A = "set cs" and key = cand_building_id])
  show "inj_on cand_key (set cs)" using assms by (simp add: distinct_map)
  fix k g assume g: "(k, g) \<in> set (group_by cand_building_id cs)"
  note eq = group_by_entry(1) [OF g]
  have "distinct (map cand_key g)" unfolding eq using assms by (rule distinct_map_filter)
  then show "distinct (map cand_key (frontier v None (cheapest_first v g))) \<and>
      (\<forall>c \<in> set (frontier v None (cheapest_first v g)). c \<in> set cs \<and> cand_building_id c = k)"
    using distinct_frontier frontier_subset [of v None "cheapest_first v g"] eq by auto
qed

lemma prune_with_consistent:
  "consistent_districts cs \<Longrightarrow> consistent_districts (prune_with v cs)"
  using prune_with_subset [of v cs] unfolding consistent_districts_def list_all_iff by blast

lemma prune_with_known:
  "known_buildings bs cs \<Longrightarrow> known_buildings bs (prune_with v cs)"
  using prune_with_subset [of v cs] unfolding known_buildings_def list_all_iff by blast

section \<open>Pruning and the exact problem\<close>

text \<open>
  C2: pruning is safe for the exact programme. Whatever is feasible over all
  candidates (budget, one option per building, district cap) is matched by a feasible
  selection of the kept candidates that funds the same buildings, costs no more and
  is worth no less, for every objective. So the optimum is unchanged.
\<close>
theorem prune_preserves_optimum:
  assumes "consistent_districts cs" and "feasible budget cap cs S"
  shows "\<exists>S'. feasible budget cap (prune_with v cs) S' \<and>
           map cand_building_id S' = map cand_building_id S \<and>
           selection_cost S' \<le> selection_cost S \<and>
           selection_value v S \<le> selection_value v S'"
proof -
  from assms(2) have S: "list_all (\<lambda>c. c \<in> set cs) S" by (simp add: feasible_def)
  obtain S' where S': "list_all (\<lambda>c. c \<in> set (prune_with v cs)) S'"
    and b: "map cand_building_id S' = map cand_building_id S"
    and d: "map cand_district S' = map cand_district S"
    and le: "list_all2 (\<lambda>a c. cand_cost_egp a \<le> cand_cost_egp c \<and> v c \<le> v a) S' S"
    by (rule prune_replacement [OF S assms(1), of v])
  have cost: "selection_cost S' \<le> selection_cost S"
    unfolding selection_cost_def by (rule list_all2_sum_le) (rule list_all2_mono [OF le], simp)
  have "list_all2 (\<lambda>a c. v a \<le> v c) S S'"
    by (rule list_all2_flip [OF le]) simp
  then have "selection_value v S \<le> selection_value v S'"
    unfolding selection_value_def by (rule list_all2_sum_le)
  moreover have "feasible budget cap (prune_with v cs) S'"
    using S' b cost assms(2) within_cap_cong [OF d, of cap] by (simp add: feasible_def)
  ultimately show ?thesis using b cost by blast
qed

definition sample_option :: "string \<Rightarrow> string \<Rightarrow> string \<Rightarrow> rat \<Rightarrow> rat \<Rightarrow> candidate" where
  "sample_option k b d cost benefit =
     \<lparr>cand_key = k, cand_building_id = b, cand_district = d, cand_intervention_ids = [k],
      cand_label = k, cand_cost_egp = cost, cand_annual_kwh_saving = benefit,
      cand_lifetime_benefit = benefit, cand_lifetime_tou_benefit = benefit,
      cand_annual_egp_saving = benefit\<rparr>"

definition sample_candidates :: "candidate list" where
  "sample_candidates =
     [sample_option ''a1'' ''a'' ''Dokki'' 10 50, sample_option ''a2'' ''a'' ''Dokki'' (41/2) 60,
      sample_option ''b1'' ''b'' ''Dokki'' 20 30]"

theorem prune_preserves_optimum_witness:
  "\<exists>S'. feasible 31 (Some 2) (prune_with cand_lifetime_benefit sample_candidates) S' \<and>
     map cand_building_id S' = [''a'', ''b''] \<and> selection_cost S' \<le> 30 \<and>
     80 \<le> selection_value cand_lifetime_benefit S'"
proof -
  let ?S = "[sample_option ''a1'' ''a'' ''Dokki'' 10 50, sample_option ''b1'' ''b'' ''Dokki'' 20 30]"
  have "consistent_districts sample_candidates" by code_simp
  moreover have "feasible 31 (Some 2) sample_candidates ?S" by code_simp
  ultimately show ?thesis
    using prune_preserves_optimum [of sample_candidates 31 "Some 2" ?S cand_lifetime_benefit]
    by (simp add: selection_cost_def selection_value_def sample_option_def)
qed

end
