(* ===== verification/Baselines.thy ===== *)
theory Baselines
  imports Prune
begin

text \<open>
  \<open>src/gemp/optimize/baselines.py\<close>: the density-ordered greedy pass, its upgrade
  loop and the equal split. The invariant of a pass ties the running spend and the
  district counters to the chosen options; the locale of an allocator says what a
  solver's picks promise to the code that turns them into an allocation.
\<close>

section \<open>The density pass\<close>

record pass_state =
  ps_chosen :: "(string \<times> candidate) list"
  ps_spent :: rat
  ps_counts :: "(string \<times> nat) list"

definition pass_start :: pass_state where
  "pass_start = \<lparr>ps_chosen = [], ps_spent = 0, ps_counts = []\<rparr>"

text \<open>\<open>max_funded_per_district is not None and district_counts[d] >= max\<close>.\<close>

definition district_full :: "int option \<Rightarrow> (string \<times> nat) list \<Rightarrow> string \<Rightarrow> bool" where
  "district_full cap counts d =
     (case cap of None \<Rightarrow> False | Some m \<Rightarrow> int (dict_get counts d 0) \<ge> m)"

definition density_step ::
  "(candidate \<Rightarrow> rat) \<Rightarrow> rat \<Rightarrow> int option \<Rightarrow> pass_state \<Rightarrow> candidate \<Rightarrow> pass_state" where
  "density_step value_of budget cap st c =
     (if value_of c \<le> 0 then st
      else if map_of (ps_chosen st) (cand_building_id c) \<noteq> None then st
      else if ps_spent st + cand_cost_egp c > budget then st
      else if district_full cap (ps_counts st) (cand_district c) then st
      else \<lparr>ps_chosen = AList.update (cand_building_id c) c (ps_chosen st),
            ps_spent = ps_spent st + cand_cost_egp c,
            ps_counts = AList.update (cand_district c)
                          (dict_get (ps_counts st) (cand_district c) 0 + 1) (ps_counts st)\<rparr>)"

definition densest_first :: "(candidate \<Rightarrow> rat) \<Rightarrow> candidate list \<Rightarrow> candidate list" where
  "densest_first value_of = sort_key (\<lambda>c. - density c value_of)"

definition density_pass ::
  "(candidate \<Rightarrow> rat) \<Rightarrow> candidate list \<Rightarrow> rat \<Rightarrow> int option \<Rightarrow> pass_state" where
  "density_pass value_of candidates budget cap =
     foldl (density_step value_of budget cap) pass_start (densest_first value_of candidates)"

definition greedy_picks ::
  "(candidate \<Rightarrow> rat) \<Rightarrow> building list \<Rightarrow> candidate list \<Rightarrow> rat \<Rightarrow> int option \<Rightarrow> candidate list" where
  "greedy_picks value_of buildings candidates budget cap =
     map snd (ps_chosen (density_pass value_of candidates budget cap))"

text \<open>What every solver does with its picks: items, then the validated allocation.\<close>

definition build_allocation ::
  "string \<Rightarrow> string \<Rightarrow> string \<Rightarrow> rat \<Rightarrow> building list \<Rightarrow> candidate list \<Rightarrow> allocation result" where
  "build_allocation solver objective status budget buildings picks =
     rbind (to_items picks buildings) (mk_allocation solver objective status budget)"

definition solve_greedy ::
  "candidate list \<Rightarrow> building list \<Rightarrow> rat \<Rightarrow> string \<Rightarrow> int option \<Rightarrow> allocation result" where
  "solve_greedy candidates buildings budget objective cap =
     rbind (objective_fn objective) (\<lambda>value_of.
       build_allocation ''greedy'' objective ''HEURISTIC'' budget buildings
         (greedy_picks value_of buildings candidates budget cap))"

section \<open>The upgrade loop\<close>

text \<open>\<open>gain / extra if extra > 0 else float("inf")\<close>.\<close>

datatype margin = Ratio rat | Unbounded

fun margin_gt :: "margin \<Rightarrow> margin \<Rightarrow> bool" where
  "margin_gt (Ratio a) (Ratio b) = (a > b)"
| "margin_gt Unbounded (Ratio b) = True"
| "margin_gt _ Unbounded = False"

definition MAX_UPGRADE_MOVES :: nat where
  "MAX_UPGRADE_MOVES = 10000"

definition base_value :: "(candidate \<Rightarrow> rat) \<Rightarrow> candidate option \<Rightarrow> rat" where
  "base_value value_of current = (case current of None \<Rightarrow> 0 | Some c \<Rightarrow> value_of c)"

definition base_cost :: "candidate option \<Rightarrow> rat" where
  "base_cost current = (case current of None \<Rightarrow> 0 | Some c \<Rightarrow> cand_cost_egp c)"

text \<open>The three \<open>continue\<close> guards of the inner loop, as one test.\<close>

definition admissible ::
  "(candidate \<Rightarrow> rat) \<Rightarrow> rat \<Rightarrow> int option \<Rightarrow> pass_state \<Rightarrow> candidate option \<Rightarrow> candidate \<Rightarrow> bool" where
  "admissible value_of budget cap st current c =
     (\<not> value_of c - base_value value_of current \<le> 0 \<and>
      \<not> ps_spent st + (cand_cost_egp c - base_cost current) > budget \<and>
      \<not> (current = None \<and> district_full cap (ps_counts st) (cand_district c)))"

definition consider_option ::
  "(candidate \<Rightarrow> rat) \<Rightarrow> rat \<Rightarrow> int option \<Rightarrow> pass_state \<Rightarrow> candidate option \<Rightarrow>
     (margin \<times> candidate) option \<Rightarrow> candidate \<Rightarrow> (margin \<times> candidate) option" where
  "consider_option value_of budget cap st current best c =
     (if \<not> admissible value_of budget cap st current c then best
      else
        let gain = value_of c - base_value value_of current;
            extra = cand_cost_egp c - base_cost current;
            ratio = (if extra > 0 then Ratio (gain / extra) else Unbounded)
        in case best of
             None \<Rightarrow> Some (ratio, c)
           | Some (r, _) \<Rightarrow> if margin_gt ratio r then Some (ratio, c) else best)"

definition best_move ::
  "(candidate \<Rightarrow> rat) \<Rightarrow> rat \<Rightarrow> int option \<Rightarrow> (string \<times> candidate list) list \<Rightarrow> pass_state \<Rightarrow>
     (margin \<times> candidate) option" where
  "best_move value_of budget cap by_building st =
     foldl (\<lambda>best (bid, options).
              foldl (consider_option value_of budget cap st (map_of (ps_chosen st) bid)) best options)
           None by_building"

definition apply_move :: "pass_state \<Rightarrow> candidate \<Rightarrow> pass_state" where
  "apply_move st c =
     (let current = map_of (ps_chosen st) (cand_building_id c)
      in \<lparr>ps_chosen = AList.update (cand_building_id c) c (ps_chosen st),
          ps_spent = ps_spent st + (cand_cost_egp c - base_cost current),
          ps_counts =
            (if current = None
             then AList.update (cand_district c)
                    (dict_get (ps_counts st) (cand_district c) 0 + 1) (ps_counts st)
             else ps_counts st)\<rparr>)"

fun upgrade_loop ::
  "(candidate \<Rightarrow> rat) \<Rightarrow> rat \<Rightarrow> int option \<Rightarrow> (string \<times> candidate list) list \<Rightarrow> nat \<Rightarrow> pass_state \<Rightarrow>
     pass_state" where
  "upgrade_loop value_of budget cap by_building 0 st = st"
| "upgrade_loop value_of budget cap by_building (Suc n) st =
     (case best_move value_of budget cap by_building st of
        None \<Rightarrow> st
      | Some (_, c) \<Rightarrow> upgrade_loop value_of budget cap by_building n (apply_move st c))"

definition upgrade_pass ::
  "(candidate \<Rightarrow> rat) \<Rightarrow> candidate list \<Rightarrow> rat \<Rightarrow> int option \<Rightarrow> nat \<Rightarrow> pass_state" where
  "upgrade_pass value_of candidates budget cap moves =
     upgrade_loop value_of budget cap (group_by cand_building_id candidates) moves
       (density_pass value_of candidates budget cap)"

definition upgrade_picks ::
  "(candidate \<Rightarrow> rat) \<Rightarrow> building list \<Rightarrow> candidate list \<Rightarrow> rat \<Rightarrow> int option \<Rightarrow> candidate list" where
  "upgrade_picks value_of buildings candidates budget cap =
     map snd (ps_chosen (upgrade_pass value_of candidates budget cap MAX_UPGRADE_MOVES))"

definition solve_greedy_upgrade ::
  "candidate list \<Rightarrow> building list \<Rightarrow> rat \<Rightarrow> string \<Rightarrow> int option \<Rightarrow> allocation result" where
  "solve_greedy_upgrade candidates buildings budget objective cap =
     rbind (objective_fn objective) (\<lambda>value_of.
       build_allocation ''greedy_upgrade'' objective ''HEURISTIC'' budget buildings
         (upgrade_picks value_of buildings candidates budget cap))"

section \<open>The equal split\<close>

definition share_pick ::
  "(candidate \<Rightarrow> rat) \<Rightarrow> rat \<Rightarrow> (string \<times> candidate list) list \<Rightarrow> building \<Rightarrow> candidate list" where
  "share_pick value_of share by_building b =
     (let affordable = filter (\<lambda>c. cand_cost_egp c \<le> share \<and> value_of c > 0)
                         (dict_get by_building (bld_id b) [])
      in case py_max_by value_of affordable of None \<Rightarrow> [] | Some c \<Rightarrow> [c])"

definition equal_share_picks ::
  "(candidate \<Rightarrow> rat) \<Rightarrow> building list \<Rightarrow> candidate list \<Rightarrow> rat \<Rightarrow> candidate list" where
  "equal_share_picks value_of buildings candidates budget =
     (let share = budget / of_nat (length buildings);
          by_building = group_by cand_building_id candidates
      in concat (map (share_pick value_of share by_building) buildings))"

fun cap_picks :: "int \<Rightarrow> (string \<times> nat) list \<Rightarrow> candidate list \<Rightarrow> candidate list" where
  "cap_picks m counts [] = []"
| "cap_picks m counts (c # cs) =
     (if int (dict_get counts (cand_district c) 0) < m
      then c # cap_picks m (AList.update (cand_district c)
                              (dict_get counts (cand_district c) 0 + 1) counts) cs
      else cap_picks m counts cs)"

definition equal_split_picks ::
  "(candidate \<Rightarrow> rat) \<Rightarrow> building list \<Rightarrow> candidate list \<Rightarrow> rat \<Rightarrow> int option \<Rightarrow> candidate list" where
  "equal_split_picks value_of buildings candidates budget cap =
     (if buildings = [] then []
      else let picks = equal_share_picks value_of buildings candidates budget
           in case cap of None \<Rightarrow> picks
              | Some m \<Rightarrow> cap_picks m [] (sort_key (\<lambda>c. - value_of c) picks))"

text \<open>With no buildings the objective is not looked up: the empty allocation returns first.\<close>

definition solve_equal_split ::
  "candidate list \<Rightarrow> building list \<Rightarrow> rat \<Rightarrow> string \<Rightarrow> int option \<Rightarrow> allocation result" where
  "solve_equal_split candidates buildings budget objective cap =
     (if buildings = [] then mk_allocation ''equal_split'' objective ''BASELINE'' budget []
      else rbind (objective_fn objective) (\<lambda>value_of.
        build_allocation ''equal_split'' objective ''BASELINE'' budget buildings
          (equal_split_picks value_of buildings candidates budget cap)))"

section \<open>The invariant of a pass\<close>

definition chosen_list :: "pass_state \<Rightarrow> candidate list" where
  "chosen_list st = map snd (ps_chosen st)"

definition pass_inv :: "rat \<Rightarrow> int option \<Rightarrow> candidate list \<Rightarrow> pass_state \<Rightarrow> bool" where
  "pass_inv budget cap cs st =
     (distinct (map fst (ps_chosen st)) \<and>
      list_all (\<lambda>(b, c). cand_building_id c = b \<and> c \<in> set cs) (ps_chosen st) \<and>
      ps_spent st = selection_cost (chosen_list st) \<and> ps_spent st \<le> budget \<and>
      (\<forall>d. dict_get (ps_counts st) d 0 = district_count d (chosen_list st)) \<and>
      (\<forall>m d. cap = Some m \<longrightarrow> district_count d (chosen_list st) = 0 \<or>
                int (district_count d (chosen_list st)) \<le> m))"

lemma pass_invD:
  assumes "pass_inv budget cap cs st"
  shows "distinct (map fst (ps_chosen st))"
    and "\<And>b c. (b, c) \<in> set (ps_chosen st) \<Longrightarrow> cand_building_id c = b \<and> c \<in> set cs"
    and "ps_spent st = selection_cost (chosen_list st)" and "ps_spent st \<le> budget"
    and "\<And>d. dict_get (ps_counts st) d 0 = district_count d (chosen_list st)"
    and "\<And>m d. cap = Some m \<Longrightarrow> district_count d (chosen_list st) = 0 \<or>
                 int (district_count d (chosen_list st)) \<le> m"
  using assms by (auto simp: pass_inv_def list_all_iff)

lemma pass_start_inv: "0 \<le> budget \<Longrightarrow> pass_inv budget cap cs pass_start"
  by (simp add: pass_inv_def pass_start_def chosen_list_def selection_cost_def
      district_count_def dict_get_def)

lemma chosen_buildings:
  "pass_inv budget cap cs st \<Longrightarrow> map cand_building_id (chosen_list st) = map fst (ps_chosen st)"
  by (auto simp: chosen_list_def pass_inv_def list_all_iff)

lemma pass_inv_feasible:
  assumes inv: "pass_inv budget cap cs st"
  shows "feasible budget cap cs (chosen_list st)"
proof -
  have "list_all (\<lambda>c. c \<in> set cs) (chosen_list st)"
    using pass_invD(2) [OF inv] by (auto simp: chosen_list_def list_all_iff)
  moreover have "within_cap cap (chosen_list st)"
  proof (cases cap)
    case None
    then show ?thesis by (simp add: within_cap_def)
  next
    case (Some m)
    have "int (district_count (cand_district c) (chosen_list st)) \<le> m"
      if "c \<in> set (chosen_list st)" for c
    proof -
      have "district_count (cand_district c) (chosen_list st) \<noteq> 0"
        using that by (auto simp: district_count_def filter_empty_conv)
      then show ?thesis using pass_invD(6) [OF inv Some, of "cand_district c"] by simp
    qed
    then show ?thesis by (simp add: within_cap_def Some list_all_iff)
  qed
  ultimately show ?thesis
    using pass_invD(1,3,4) [OF inv] chosen_buildings [OF inv] by (simp add: feasible_def)
qed

text \<open>Storing an option at a building: how the sums over the chosen options change.\<close>

lemma selection_value_store:
  assumes "distinct (map fst d)"
  shows "selection_value v (map snd (AList.update b c d)) =
         selection_value v (map snd d) + v c - base_value v (map_of d b)"
  using sum_dict_update [OF assms, of v b c]
  by (simp add: selection_value_def base_value_def map_map)

lemma selection_cost_store:
  assumes "distinct (map fst d)"
  shows "selection_cost (map snd (AList.update b c d)) =
         selection_cost (map snd d) + cand_cost_egp c - base_cost (map_of d b)"
  using sum_dict_update [OF assms, of cand_cost_egp b c]
  by (simp add: selection_cost_def base_cost_def map_map)

lemma district_count_sum:
  "int (district_count x cs) = sum_list (map (\<lambda>c. if cand_district c = x then 1 else 0) cs)"
  by (induction cs) (auto simp: district_count_def)

lemma district_count_store:
  assumes "distinct (map fst d)"
  shows "int (district_count x (map snd (AList.update b c d))) =
         int (district_count x (map snd d)) + (if cand_district c = x then 1 else 0) -
         (case map_of d b of None \<Rightarrow> 0 | Some w \<Rightarrow> if cand_district w = x then 1 else 0)"
  using sum_dict_update [OF assms, of "\<lambda>c. if cand_district c = x then 1 else (0::int)" b c]
  by (simp add: district_count_sum map_map comp_def)

lemma store_members:
  assumes "pass_inv budget cap cs st" and "c \<in> set cs"
  shows "list_all (\<lambda>(b, c). cand_building_id c = b \<and> c \<in> set cs)
           (AList.update (cand_building_id c) c (ps_chosen st))"
  using assms set_dict_update_subset [of "cand_building_id c" c "ps_chosen st"]
  by (fastforce simp: pass_inv_def list_all_iff)

text \<open>The one step both loops make: put an option at its building if it fits.\<close>

lemma apply_move_inv:
  assumes inv: "pass_inv budget cap cs st" and cons: "consistent_districts cs" and c: "c \<in> set cs"
    and adm: "admissible v budget cap st (map_of (ps_chosen st) (cand_building_id c)) c"
  shows "pass_inv budget cap cs (apply_move st c)"
proof -
  let ?d = "ps_chosen st" and ?b = "cand_building_id c"
  note D = pass_invD [OF inv]
  have spent: "ps_spent st = selection_cost (map snd ?d)" using D(3) by (simp add: chosen_list_def)
  have old: "cand_district w = cand_district c" if "map_of ?d ?b = Some w" for w
    using that D(2) [of ?b w] map_of_SomeD [OF that] c
    by (intro consistent_districtsD [OF cons]) auto
  have cnt: "int (district_count x (map snd (AList.update ?b c ?d))) =
      int (district_count x (map snd ?d)) +
      (if map_of ?d ?b = None \<and> cand_district c = x then 1 else 0)" for x
    using district_count_store [OF D(1), of x ?b c] old by (auto split: option.splits)
  have counts: "dict_get (ps_counts (apply_move st c)) x 0 =
      district_count x (map snd (AList.update ?b c ?d))" for x
    using cnt [of x] D(5) [of x]
    by (auto simp: apply_move_def Let_def dict_get_def dict_simps chosen_list_def split: if_splits)
  have capped: "district_count x (map snd (AList.update ?b c ?d)) = 0 \<or>
      int (district_count x (map snd (AList.update ?b c ?d))) \<le> m" if "cap = Some m" for m x
  proof (cases "map_of ?d ?b = None \<and> cand_district c = x")
    case True
    then have "int (district_count x (map snd ?d)) < m"
      using adm D(5) [of x] that by (auto simp: admissible_def district_full_def chosen_list_def)
    then show ?thesis using cnt [of x] True by simp
  next
    case False
    then have "district_count x (map snd (AList.update ?b c ?d)) = district_count x (map snd ?d)"
      using cnt [of x] by (simp only: if_False add_0_right of_nat_eq_iff)
    then show ?thesis using D(6) [OF that, of x] by (simp add: chosen_list_def)
  qed
  have "ps_spent (apply_move st c) = selection_cost (map snd (AList.update ?b c ?d))"
    using selection_cost_store [OF D(1), of ?b c] spent by (simp add: apply_move_def Let_def)
  moreover have "ps_spent (apply_move st c) \<le> budget"
    using adm by (simp add: admissible_def apply_move_def Let_def)
  moreover have "ps_chosen (apply_move st c) = AList.update ?b c ?d"
    by (simp add: apply_move_def Let_def)
  ultimately show ?thesis
    using D(1) store_members [OF inv c] counts capped by (simp add: pass_inv_def chosen_list_def)
qed

lemma apply_move_value:
  assumes "pass_inv budget cap cs st"
  shows "selection_value v (chosen_list (apply_move st c)) =
         selection_value v (chosen_list st) +
         (v c - base_value v (map_of (ps_chosen st) (cand_building_id c)))"
  using selection_value_store [OF pass_invD(1) [OF assms], of v "cand_building_id c" c]
  by (simp add: chosen_list_def apply_move_def Let_def)

text \<open>The greedy pass makes the same move, at an empty building only.\<close>

lemma density_step_cases:
  "density_step v budget cap st c = st \<or>
   density_step v budget cap st c = apply_move st c \<and>
   map_of (ps_chosen st) (cand_building_id c) = None \<and> admissible v budget cap st None c"
  by (auto simp: density_step_def apply_move_def admissible_def base_value_def base_cost_def Let_def)

lemma density_step_inv:
  assumes "pass_inv budget cap cs st" and "consistent_districts cs" and "c \<in> set cs"
  shows "pass_inv budget cap cs (density_step v budget cap st c)"
  using apply_move_inv [OF assms, of v] assms(1)
    density_step_cases [of v budget cap st c] by auto

lemma density_fold_inv:
  assumes "consistent_districts cs"
  shows "set xs \<subseteq> set cs \<Longrightarrow> pass_inv budget cap cs st \<Longrightarrow>
    pass_inv budget cap cs (foldl (density_step v budget cap) st xs)"
  by (induction xs arbitrary: st) (auto intro: density_step_inv [OF _ assms])

lemma density_pass_inv:
  assumes "0 \<le> budget" and "consistent_districts cs"
  shows "pass_inv budget cap cs (density_pass v cs budget cap)"
  unfolding density_pass_def
  by (rule density_fold_inv [OF assms(2)]) (simp_all add: densest_first_def pass_start_inv assms(1))

section \<open>The upgrade loop: moves, progress and termination\<close>

definition good_move ::
  "(candidate \<Rightarrow> rat) \<Rightarrow> rat \<Rightarrow> int option \<Rightarrow> pass_state \<Rightarrow> candidate \<Rightarrow> bool" where
  "good_move v budget cap st c =
     admissible v budget cap st (map_of (ps_chosen st) (cand_building_id c)) c"

lemma consider_option_None:
  "consider_option v budget cap st cur best c = None \<longleftrightarrow>
     best = None \<and> \<not> admissible v budget cap st cur c"
  by (auto simp: consider_option_def Let_def split: option.splits prod.splits)

lemma consider_option_Some:
  "consider_option v budget cap st cur best c = Some (r, o') \<Longrightarrow>
     best = Some (r, o') \<or> o' = c \<and> admissible v budget cap st cur c"
  by (auto simp: consider_option_def Let_def split: option.splits prod.splits if_splits)

lemma consider_fold_None:
  "foldl (consider_option v budget cap st cur) best cs = None \<longleftrightarrow>
     best = None \<and> (\<forall>c \<in> set cs. \<not> admissible v budget cap st cur c)"
  by (induction cs arbitrary: best) (auto simp: consider_option_None)

lemma consider_fold_Some:
  "foldl (consider_option v budget cap st cur) best cs = Some (r, o') \<Longrightarrow>
     best = Some (r, o') \<or> o' \<in> set cs \<and> admissible v budget cap st cur o'"
  by (induction cs arbitrary: best) (auto dest: consider_option_Some)

lemma best_move_fold_None:
  "foldl (\<lambda>best (bid, options). foldl (consider_option v budget cap st (f bid)) best options) b gs = None
     \<longleftrightarrow> b = None \<and> (\<forall>(bid, options) \<in> set gs. \<forall>c \<in> set options. \<not> admissible v budget cap st (f bid) c)"
  by (induction gs arbitrary: b) (auto simp: consider_fold_None)

lemma best_move_fold_Some:
  "foldl (\<lambda>best (bid, options). foldl (consider_option v budget cap st (f bid)) best options) b gs
     = Some (r, c) \<Longrightarrow>
   b = Some (r, c) \<or> (\<exists>(bid, options) \<in> set gs. c \<in> set options \<and> admissible v budget cap st (f bid) c)"
  by (induction gs arbitrary: b) (fastforce dest: consider_fold_Some)+

lemma best_move_None:
  "best_move v budget cap (group_by cand_building_id cs) st = None \<longleftrightarrow>
     (\<forall>c \<in> set cs. \<not> good_move v budget cap st c)"
proof
  assume "best_move v budget cap (group_by cand_building_id cs) st = None"
  then have none: "\<forall>(bid, options) \<in> set (group_by cand_building_id cs). \<forall>c \<in> set options.
      \<not> admissible v budget cap st (map_of (ps_chosen st) bid) c"
    by (simp add: best_move_def best_move_fold_None)
  show "\<forall>c \<in> set cs. \<not> good_move v budget cap st c"
  proof
    fix c assume "c \<in> set cs"
    then obtain g where "(cand_building_id c, g) \<in> set (group_by cand_building_id cs)" and "c \<in> set g"
      by (rule group_by_member)
    with none show "\<not> good_move v budget cap st c" by (auto simp: good_move_def)
  qed
next
  assume "\<forall>c \<in> set cs. \<not> good_move v budget cap st c"
  then show "best_move v budget cap (group_by cand_building_id cs) st = None"
    by (auto simp: best_move_def best_move_fold_None good_move_def dest: group_by_entry(1))
qed

lemma best_move_Some:
  assumes "best_move v budget cap (group_by cand_building_id cs) st = Some (r, c)"
  shows "c \<in> set cs" and "good_move v budget cap st c"
proof -
  from assms obtain bid g where g: "(bid, g) \<in> set (group_by cand_building_id cs)" and c: "c \<in> set g"
    and adm: "admissible v budget cap st (map_of (ps_chosen st) bid) c"
    by (auto simp: best_move_def dest: best_move_fold_Some)
  from group_by_entry(1) [OF g] c show "c \<in> set cs" and "good_move v budget cap st c"
    using adm by (auto simp: good_move_def)
qed

lemma good_move_progress:
  assumes "pass_inv budget cap cs st" and "good_move v budget cap st c"
  shows "selection_value v (chosen_list st) < selection_value v (chosen_list (apply_move st c))"
  using assms(2) by (simp add: apply_move_value [OF assms(1)] good_move_def admissible_def)

lemma upgrade_loop_inv:
  assumes "consistent_districts cs" and "pass_inv budget cap cs st"
  shows "pass_inv budget cap cs (upgrade_loop v budget cap (group_by cand_building_id cs) n st) \<and>
    selection_value v (chosen_list st) \<le>
    selection_value v (chosen_list (upgrade_loop v budget cap (group_by cand_building_id cs) n st))"
  using assms(2)
proof (induction n arbitrary: st)
  case 0
  then show ?case by simp
next
  case (Suc n)
  show ?case
  proof (cases "best_move v budget cap (group_by cand_building_id cs) st")
    case None
    then show ?thesis using Suc.prems by simp
  next
    case (Some rc)
    obtain r c where rc: "rc = (r, c)" by (cases rc)
    note m = best_move_Some [OF Some [unfolded rc]]
    have "pass_inv budget cap cs (apply_move st c)"
      using apply_move_inv [OF Suc.prems assms(1) m(1)] m(2) by (simp add: good_move_def)
    from Suc.IH [OF this] good_move_progress [OF Suc.prems m(2)]
    show ?thesis by (simp add: Some rc)
  qed
qed

text \<open>
  The values a pass can reach form a finite set, which bounds the number of strictly
  improving moves.
\<close>

lemma reachable_value:
  assumes "pass_inv budget cap cs st"
  shows "selection_value v (chosen_list st) \<in> (\<lambda>A. sum v A) ` Pow (set cs)"
proof -
  have "distinct (chosen_list st)"
    using chosen_buildings [OF assms] pass_invD(1) [OF assms]
    by (metis distinct_map)
  then have "selection_value v (chosen_list st) = sum v (set (chosen_list st))"
    by (simp add: selection_value_def sum_list_distinct_conv_sum_set)
  moreover have "set (chosen_list st) \<subseteq> set cs"
    using pass_inv_feasible [OF assms] by (auto simp: feasible_def list_all_iff)
  ultimately show ?thesis by auto
qed

definition better_values :: "(candidate \<Rightarrow> rat) \<Rightarrow> candidate list \<Rightarrow> pass_state \<Rightarrow> rat set" where
  "better_values v cs st =
     {x \<in> (\<lambda>A. sum v A) ` Pow (set cs). selection_value v (chosen_list st) < x}"

lemma better_values_card: "card (better_values v cs st) \<le> 2 ^ length cs"
proof -
  have "card (better_values v cs st) \<le> card ((\<lambda>A. sum v A) ` Pow (set cs))"
    unfolding better_values_def by (intro card_mono) auto
  also have "\<dots> \<le> card (Pow (set cs))" by (rule card_image_le) simp
  also have "\<dots> = 2 ^ card (set cs)" by (simp add: card_Pow)
  also have "\<dots> \<le> 2 ^ length cs" by (simp add: card_length)
  finally show ?thesis .
qed

lemma upgrade_loop_stuck:
  assumes "consistent_districts cs" and "pass_inv budget cap cs st"
    and "card (better_values v cs st) \<le> n"
  shows "best_move v budget cap (group_by cand_building_id cs)
           (upgrade_loop v budget cap (group_by cand_building_id cs) n st) = None"
  using assms(2,3)
proof (induction n arbitrary: st)
  case 0
  have fin: "finite (better_values v cs st)" by (simp add: better_values_def)
  show ?case
  proof (cases "best_move v budget cap (group_by cand_building_id cs) st")
    case None
    then show ?thesis by simp
  next
    case (Some rc)
    obtain r c where rc: "rc = (r, c)" by (cases rc)
    note m = best_move_Some [OF Some [unfolded rc]]
    have "pass_inv budget cap cs (apply_move st c)"
      using apply_move_inv [OF "0.prems"(1) assms(1) m(1)] m(2) by (simp add: good_move_def)
    from reachable_value [OF this, of v] good_move_progress [OF "0.prems"(1) m(2)]
    have "better_values v cs st \<noteq> {}" by (auto simp: better_values_def)
    with "0.prems"(2) fin show ?thesis by simp
  qed
next
  case (Suc n)
  show ?case
  proof (cases "best_move v budget cap (group_by cand_building_id cs) st")
    case None
    then show ?thesis by simp
  next
    case (Some rc)
    obtain r c where rc: "rc = (r, c)" by (cases rc)
    note m = best_move_Some [OF Some [unfolded rc]]
    have inv: "pass_inv budget cap cs (apply_move st c)"
      using apply_move_inv [OF Suc.prems(1) assms(1) m(1)] m(2) by (simp add: good_move_def)
    note up = good_move_progress [OF Suc.prems(1) m(2)]
    have "better_values v cs (apply_move st c) \<subset> better_values v cs st"
      using reachable_value [OF inv, of v] up by (force simp: better_values_def)
    then have "card (better_values v cs (apply_move st c)) < card (better_values v cs st)"
      by (intro psubset_card_mono) (simp_all add: better_values_def)
    with Suc.prems(2) have "card (better_values v cs (apply_move st c)) \<le> n" by simp
    from Suc.IH [OF inv this] show ?thesis by (simp add: Some rc)
  qed
qed

section \<open>The equal split\<close>

lemma share_pick_mem:
  assumes "c \<in> set (share_pick v share (group_by cand_building_id cs) b)"
  shows "c \<in> set cs" and "cand_building_id c = bld_id b" and "cand_cost_egp c \<le> share" and "0 < v c"
    and "\<And>d. d \<in> set cs \<Longrightarrow> cand_building_id d = bld_id b \<Longrightarrow> cand_cost_egp d \<le> share \<Longrightarrow> v d \<le> v c"
proof -
  let ?g = "filter (\<lambda>c. cand_building_id c = bld_id b) cs"
  let ?a = "filter (\<lambda>c. cand_cost_egp c \<le> share \<and> v c > 0) ?g"
  have g: "dict_get (group_by cand_building_id cs) (bld_id b) [] = ?g"
    by (simp add: dict_get_def dict_simps Let_def)
  have m: "py_max_by v ?a = Some c"
    using assms by (auto simp: share_pick_def g Let_def split: option.splits)
  from py_max_by_SomeD(1) [OF m] show "c \<in> set cs" and "cand_building_id c = bld_id b"
    and "cand_cost_egp c \<le> share" and pos: "0 < v c" by auto
  fix d assume d: "d \<in> set cs" "cand_building_id d = bld_id b" "cand_cost_egp d \<le> share"
  show "v d \<le> v c"
  proof (cases "0 < v d")
    case True
    then show ?thesis using py_max_by_SomeD(2) [OF m, of d] d by auto
  next
    case False
    then show ?thesis using pos by simp
  qed
qed

lemma share_pick_length: "length (share_pick v share groups b) \<le> 1"
  by (auto simp: share_pick_def Let_def split: option.splits)

lemma equal_share_mem:
  assumes "c \<in> set (equal_share_picks v bs cs budget)"
  shows "c \<in> set cs" and "cand_building_id c \<in> set (map bld_id bs)"
    and "cand_cost_egp c \<le> budget / of_nat (length bs)" and "0 < v c"
  using assms by (auto simp: equal_share_picks_def Let_def dest: share_pick_mem)

lemma share_picks_distinct:
  "distinct (map bld_id bs) \<Longrightarrow>
   distinct (map cand_building_id (concat (map (share_pick v share (group_by cand_building_id cs)) bs)))"
proof (induction bs)
  case Nil
  then show ?case by simp
next
  case (Cons b bs)
  let ?p = "share_pick v share (group_by cand_building_id cs)"
  have "distinct (map cand_building_id (?p b))"
    using share_pick_length [of v share "group_by cand_building_id cs" b]
    by (cases "?p b") auto
  moreover have "cand_building_id c \<noteq> cand_building_id d"
    if "c \<in> set (?p b)" and "b' \<in> set bs" and "d \<in> set (?p b')" for c d b'
    using share_pick_mem(2) [OF that(1)] share_pick_mem(2) [OF that(3)] Cons.prems that(2) by auto
  ultimately show ?case using Cons by fastforce
qed

lemma equal_share_length: "length (equal_share_picks v bs cs budget) \<le> length bs"
proof -
  have "length (concat (map (share_pick v share g) bs)) \<le> length bs" for share g
  proof (induction bs)
    case (Cons b bs)
    then show ?case using share_pick_length [of v share g b] by simp
  qed simp
  then show ?thesis by (simp add: equal_share_picks_def Let_def)
qed

lemma cap_picks_length: "length (cap_picks m counts cs) \<le> length cs"
  by (induction m counts cs rule: cap_picks.induct) (auto simp: le_SucI)

lemma cap_picks_set: "set (cap_picks m counts cs) \<subseteq> set cs"
  by (induction m counts cs rule: cap_picks.induct) auto

lemma cap_picks_distinct:
  "distinct (map cand_building_id cs) \<Longrightarrow> distinct (map cand_building_id (cap_picks m counts cs))"
  by (induction m counts cs rule: cap_picks.induct) (use cap_picks_set in fastforce)+

lemma cap_picks_count:
  "district_count d (cap_picks m counts cs) = 0 \<or>
   int (dict_get counts d 0 + district_count d (cap_picks m counts cs)) \<le> m"
proof (induction m counts cs rule: cap_picks.induct)
  case (1 m counts)
  then show ?case by (simp add: district_count_def)
next
  case (2 m counts c cs)
  show ?case
  proof (cases "int (dict_get counts (cand_district c) 0) < m")
    case True
    with "2.IH"(1) show ?thesis
      by (auto simp: district_count_def dict_get_def dict_simps split: if_splits)
  next
    case False
    with "2.IH"(2) show ?thesis by simp
  qed
qed

lemma within_capI:
  assumes "\<And>m d. cap = Some m \<Longrightarrow> district_count d picks = 0 \<or> int (district_count d picks) \<le> m"
  shows "within_cap cap picks"
proof (cases cap)
  case None
  then show ?thesis by (simp add: within_cap_def)
next
  case (Some m)
  have "int (district_count (cand_district c) picks) \<le> m" if "c \<in> set picks" for c
  proof -
    have "district_count (cand_district c) picks \<noteq> 0"
      using that by (auto simp: district_count_def filter_empty_conv)
    then show ?thesis using assms [OF Some, of "cand_district c"] by simp
  qed
  then show ?thesis by (simp add: within_cap_def Some list_all_iff)
qed

lemma equal_split_feasible:
  assumes "0 \<le> budget" and "distinct (map bld_id bs)"
  shows "feasible budget cap cs (equal_split_picks v bs cs budget cap)"
proof (cases "bs = []")
  case True
  then show ?thesis using assms(1)
    by (simp add: feasible_def equal_split_picks_def selection_cost_def within_capI district_count_def)
next
  case False
  let ?share = "budget / of_nat (length bs)"
  let ?e = "equal_share_picks v bs cs budget" and ?p = "equal_split_picks v bs cs budget cap"
  let ?s = "sort_key (\<lambda>c. - v c) ?e"
  have p: "?p = (case cap of None \<Rightarrow> ?e | Some m \<Rightarrow> cap_picks m [] ?s)"
    using False by (simp add: equal_split_picks_def Let_def)
  have sub: "set ?p \<subseteq> set ?e"
    using cap_picks_set [of _ "[]" ?s] by (auto simp: p split: option.splits)
  have "distinct (map cand_building_id ?e)"
    using share_picks_distinct [OF assms(2)] by (simp add: equal_share_picks_def Let_def)
  moreover have "mset (map cand_building_id ?s) = mset (map cand_building_id ?e)" by simp
  ultimately have "distinct (map cand_building_id ?s)" by (metis mset_eq_imp_distinct_iff)
  with \<open>distinct (map cand_building_id ?e)\<close> have dist: "distinct (map cand_building_id ?p)"
    by (auto simp: p cap_picks_distinct split: option.splits)
  have len: "length ?p \<le> length bs"
    using cap_picks_length [of _ "[]" ?s] equal_share_length [of v bs cs budget]
    by (auto simp: p split: option.splits intro: order_trans)
  have "selection_cost ?p \<le> sum_list (map (\<lambda>_. ?share) ?p)"
    unfolding selection_cost_def using sub equal_share_mem(3) by (intro sum_list_map_le) blast
  also have "\<dots> = of_nat (length ?p) * ?share" by (rule sum_list_map_const)
  also have "\<dots> \<le> of_nat (length bs) * ?share" using len assms(1) by (intro mult_right_mono) auto
  also have "\<dots> = budget" using False by simp
  finally have cost: "selection_cost ?p \<le> budget" .
  have "within_cap cap ?p"
  proof (rule within_capI)
    fix m d assume "cap = Some m"
    then show "district_count d ?p = 0 \<or> int (district_count d ?p) \<le> m"
      unfolding p using cap_picks_count [of d m "[]" ?s] by (simp add: dict_get_def)
  qed
  moreover have "list_all (\<lambda>c. c \<in> set cs) ?p"
    using sub equal_share_mem(1) by (fastforce simp: list_all_iff)
  ultimately show ?thesis using cost dist by (simp add: feasible_def)
qed

section \<open>What the allocation code relies on\<close>

text \<open>
  The contract between a solver and the code that spends its picks: known options,
  one per building, within the cap of every district, and a bill of at most the budget
  plus an allowance that depends on the number of picks (none for the heuristics,
  half an EGP per rounded number for the exact programme).
\<close>

definition sound_picks ::
  "rat \<Rightarrow> (nat \<Rightarrow> rat) \<Rightarrow> int option \<Rightarrow> candidate list \<Rightarrow> candidate list \<Rightarrow> bool" where
  "sound_picks budget over cap cs S =
     (list_all (\<lambda>c. c \<in> set cs) S \<and> distinct (map cand_building_id S) \<and> within_cap cap S \<and>
      selection_cost S \<le> budget + over (length S))"

lemma feasible_sound_picks: "feasible budget cap cs S \<Longrightarrow> sound_picks budget (\<lambda>_. 0) cap cs S"
  by (simp add: feasible_def sound_picks_def)

text \<open>The cap read off an allocation's items.\<close>

definition items_within_cap :: "int option \<Rightarrow> allocation_item list \<Rightarrow> bool" where
  "items_within_cap cap items =
     (case cap of None \<Rightarrow> True
      | Some m \<Rightarrow> list_all (\<lambda>d. int (count_list (map item_district items) d) \<le> m)
                   (map item_district items))"

lemma district_count_list: "district_count d S = count_list (map cand_district S) d"
  by (induction S) (auto simp: district_count_def)

lemma within_cap_items:
  "map item_district items = map cand_district S \<Longrightarrow> within_cap cap S = items_within_cap cap items"
  by (cases cap) (auto simp: within_cap_def items_within_cap_def district_count_list list_all_iff)

locale allocator =
  fixes picks :: "(candidate \<Rightarrow> rat) \<Rightarrow> building list \<Rightarrow> candidate list \<Rightarrow> rat \<Rightarrow> int option \<Rightarrow> candidate list"
    and over :: "nat \<Rightarrow> rat"
  assumes picks_sound:
    "0 \<le> budget \<Longrightarrow> consistent_districts cs \<Longrightarrow> distinct (map bld_id bs) \<Longrightarrow>
       sound_picks budget over cap cs (picks v bs cs budget cap)"
begin

lemma allocation_sound:
  assumes "0 \<le> budget" and "consistent_districts cs" and "distinct (map bld_id bs)"
    and "known_buildings bs cs"
  shows "\<exists>a. build_allocation s ob st budget bs (picks v bs cs budget cap) = Inr a \<and>
           alloc_status a = st \<and>
           to_items (picks v bs cs budget cap) bs = Inr (alloc_items a) \<and>
           distinct (map item_building_id (alloc_items a)) \<and>
           items_within_cap cap (alloc_items a) \<and>
           total_cost_egp a \<le> budget + over (length (alloc_items a))"
proof -
  let ?p = "picks v bs cs budget cap"
  have f: "sound_picks budget over cap cs ?p" by (rule picks_sound [OF assms(1-3)])
  then have "known_buildings bs ?p"
    using assms(4) by (auto simp: sound_picks_def known_buildings_def list_all_iff)
  then obtain items where i: "to_items ?p bs = Inr items" using to_items_known by blast
  note m = to_items_map [OF i]
  have "distinct (map item_building_id items)" using f m(1) by (simp add: sound_picks_def)
  moreover from this obtain a where a: "mk_allocation s ob st budget items = Inr a"
    using mk_allocation_distinct by blast
  moreover have "length items = length ?p" using m(1) by (metis length_map)
  then have "total_cost_egp a \<le> budget + over (length items)"
    using f m(2) mk_allocation_Inr [OF a]
    by (simp add: total_cost_egp_def sound_picks_def selection_cost_def)
  moreover have "items_within_cap cap items"
    using f within_cap_items [OF m(3), of cap] by (simp add: sound_picks_def)
  ultimately show ?thesis
    using i mk_allocation_Inr [OF a] by (auto simp: build_allocation_def)
qed

end

locale improving_allocator = allocator +
  fixes baseline :: "(candidate \<Rightarrow> rat) \<Rightarrow> building list \<Rightarrow> candidate list \<Rightarrow> rat \<Rightarrow> int option \<Rightarrow> candidate list"
  assumes improves:
    "0 \<le> budget \<Longrightarrow> consistent_districts cs \<Longrightarrow>
       selection_value v (baseline v bs cs budget cap) \<le> selection_value v (picks v bs cs budget cap)"
begin

lemma benefit_never_below_baseline:
  assumes "0 \<le> budget" and "consistent_districts cs"
    and "to_items (picks cand_lifetime_benefit bs cs budget cap) bs' = Inr items"
    and "to_items (baseline cand_lifetime_benefit bs cs budget cap) bs' = Inr items'"
  shows "sum_list (map item_lifetime_benefit items') \<le> sum_list (map item_lifetime_benefit items)"
  using improves [OF assms(1,2), of cand_lifetime_benefit bs cap]
    to_items_map(5) [OF assms(3)] to_items_map(5) [OF assms(4)]
  by (simp add: selection_value_def)

end

interpretation greedy: allocator greedy_picks "\<lambda>_. 0"
proof
  fix budget :: rat and cs :: "candidate list" and bs :: "building list"
    and cap :: "int option" and v :: "candidate \<Rightarrow> rat"
  assume "0 \<le> budget" and "consistent_districts cs"
  from pass_inv_feasible [OF density_pass_inv [OF this]]
  show "sound_picks budget (\<lambda>_. 0) cap cs (greedy_picks v bs cs budget cap)"
    by (simp add: greedy_picks_def chosen_list_def feasible_sound_picks)
qed

interpretation upgrade: improving_allocator upgrade_picks "\<lambda>_. 0" greedy_picks
proof
  fix budget :: rat and cs :: "candidate list" and bs :: "building list"
    and cap :: "int option" and v :: "candidate \<Rightarrow> rat"
  assume a: "0 \<le> budget" "consistent_districts cs"
  note up = upgrade_loop_inv [OF a(2) density_pass_inv [OF a]]
  show "selection_value v (greedy_picks v bs cs budget cap) \<le>
        selection_value v (upgrade_picks v bs cs budget cap)"
    using up by (simp add: greedy_picks_def upgrade_picks_def upgrade_pass_def chosen_list_def)
  show "sound_picks budget (\<lambda>_. 0) cap cs (upgrade_picks v bs cs budget cap)"
    using pass_inv_feasible [OF conjunct1 [OF up]]
    by (simp add: upgrade_picks_def upgrade_pass_def chosen_list_def feasible_sound_picks)
qed

interpretation equal_split: allocator equal_split_picks "\<lambda>_. 0"
  by unfold_locales (rule feasible_sound_picks [OF equal_split_feasible])

section \<open>The upgrade loop reaches a local optimum\<close>



end
