(* ===== verification/Ilp.thy ===== *)
theory Ilp
  imports Baselines
begin

text \<open>
  \<open>src/gemp/optimize/ilp.py\<close>: the integer programme handed to CP-SAT and what is made
  of the answer. CP-SAT itself (\<open>ortools\<close>, not in the repository) is the parameter
  \<open>cpsat\<close>: from a model it returns a status and a value for every variable.
  \<open>cpsat_contract\<close> is its documented behaviour. The time limit and the number of
  workers are part of the parameter.
\<close>

section \<open>Linear models over 0/1 variables\<close>

datatype cp_status = OPTIMAL | FEASIBLE | INFEASIBLE | UNKNOWN | MODEL_INVALID

fun status_name :: "cp_status \<Rightarrow> string" where
  "status_name OPTIMAL = ''OPTIMAL''"
| "status_name FEASIBLE = ''FEASIBLE''"
| "status_name INFEASIBLE = ''INFEASIBLE''"
| "status_name UNKNOWN = ''UNKNOWN''"
| "status_name MODEL_INVALID = ''MODEL_INVALID''"

type_synonym lin_terms = "(string \<times> int) list"

record cp_model =
  cpm_vars :: "string list"
  cpm_constraints :: "(lin_terms \<times> int) list"
  cpm_objective :: lin_terms

type_synonym cp_solver = "cp_model \<Rightarrow> cp_status \<times> (string \<Rightarrow> bool)"

definition lin_sum :: "lin_terms \<Rightarrow> (string \<Rightarrow> bool) \<Rightarrow> int" where
  "lin_sum terms x = sum_list (map (\<lambda>(k, a). if x k then a else 0) terms)"

definition satisfies :: "cp_model \<Rightarrow> (string \<Rightarrow> bool) \<Rightarrow> bool" where
  "satisfies m x = list_all (\<lambda>(terms, bound). lin_sum terms x \<le> bound) (cpm_constraints m)"

definition cpsat_contract :: "cp_solver \<Rightarrow> bool" where
  "cpsat_contract cpsat \<longleftrightarrow>
     (\<forall>m. (fst (cpsat m) \<in> {OPTIMAL, FEASIBLE} \<longrightarrow> satisfies m (snd (cpsat m))) \<and>
          (fst (cpsat m) = OPTIMAL \<longrightarrow>
             (\<forall>y. satisfies m y \<longrightarrow> lin_sum (cpm_objective m) y \<le> lin_sum (cpm_objective m) (snd (cpsat m)))))"

section \<open>The programme\<close>

definition budget_row :: "candidate list \<Rightarrow> rat \<Rightarrow> lin_terms \<times> int" where
  "budget_row candidates budget =
     (map (\<lambda>c. (cand_key c, py_round (cand_cost_egp c))) candidates, py_round budget)"

definition choice_row :: "candidate list \<Rightarrow> int \<Rightarrow> lin_terms \<times> int" where
  "choice_row options bound = (map (\<lambda>c. (cand_key c, 1)) options, bound)"

definition ilp_model :: "(candidate \<Rightarrow> rat) \<Rightarrow> candidate list \<Rightarrow> rat \<Rightarrow> int option \<Rightarrow> cp_model" where
  "ilp_model value_of candidates budget cap =
     \<lparr>cpm_vars = map cand_key candidates,
      cpm_constraints =
        budget_row candidates budget #
        map (\<lambda>(_, options). choice_row options 1) (group_by cand_building_id candidates) @
        (case cap of None \<Rightarrow> []
         | Some m \<Rightarrow> map (\<lambda>(_, options). choice_row options m) (group_by cand_district candidates)),
      cpm_objective = map (\<lambda>c. (cand_key c, py_round (value_of c))) candidates\<rparr>"

definition ilp_picks ::
  "cp_solver \<Rightarrow> (candidate \<Rightarrow> rat) \<Rightarrow> candidate list \<Rightarrow> rat \<Rightarrow> int option \<Rightarrow> candidate list" where
  "ilp_picks cpsat value_of candidates budget cap =
     (let (status, x) = cpsat (ilp_model value_of candidates budget cap)
      in if status = OPTIMAL \<or> status = FEASIBLE
         then filter (\<lambda>c. x (cand_key c)) candidates else [])"

definition solve_ilp ::
  "cp_solver \<Rightarrow> candidate list \<Rightarrow> building list \<Rightarrow> rat \<Rightarrow> string \<Rightarrow> int option \<Rightarrow> allocation result" where
  "solve_ilp cpsat candidates buildings budget objective cap =
     rbind (objective_fn objective) (\<lambda>value_of.
       build_allocation ''cpsat'' objective
         (status_name (fst (cpsat (ilp_model value_of candidates budget cap)))) budget buildings
         (ilp_picks cpsat value_of candidates budget cap))"

text \<open>
  A solver that meets the contract, by trying every subset of the variables; it stands
  in for CP-SAT where a theorem is applied to a concrete portfolio.
\<close>

definition model_keys :: "cp_model \<Rightarrow> string list" where
  "model_keys m =
     remdups (concat (map (\<lambda>(terms, _). map fst terms) (cpm_constraints m)) @
              map fst (cpm_objective m))"

definition exhaustive_search :: cp_solver where
  "exhaustive_search m =
     (case py_max_by (\<lambda>ks. lin_sum (cpm_objective m) (\<lambda>k. k \<in> set ks))
             (filter (\<lambda>ks. satisfies m (\<lambda>k. k \<in> set ks)) (subseqs (model_keys m))) of
        None \<Rightarrow> (INFEASIBLE, \<lambda>_. False)
      | Some ks \<Rightarrow> (OPTIMAL, \<lambda>k. k \<in> set ks))"

section \<open>Lemmas\<close>

lemma cpsat_contractD:
  assumes "cpsat_contract cpsat"
  shows "fst (cpsat m) \<in> {OPTIMAL, FEASIBLE} \<Longrightarrow> satisfies m (snd (cpsat m))"
    and "fst (cpsat m) = OPTIMAL \<Longrightarrow> satisfies m y \<Longrightarrow>
           lin_sum (cpm_objective m) y \<le> lin_sum (cpm_objective m) (snd (cpsat m))"
  using assms unfolding cpsat_contract_def by blast+

lemma lin_sum_map:
  "lin_sum (map (\<lambda>c. (cand_key c, f c)) cs) x = sum_list (map f (filter (\<lambda>c. x (cand_key c)) cs))"
  by (induction cs) (auto simp: lin_sum_def)

lemma lin_sum_one:
  "lin_sum (map (\<lambda>c. (cand_key c, 1)) cs) x = int (length (filter (\<lambda>c. x (cand_key c)) cs))"
  by (induction cs) (auto simp: lin_sum_def)

text \<open>A selection in whole EGP: the problem CP-SAT solves.\<close>

definition rounded_cost :: "candidate list \<Rightarrow> int" where
  "rounded_cost S = sum_list (map (\<lambda>c. py_round (cand_cost_egp c)) S)"

definition rounded_value :: "(candidate \<Rightarrow> rat) \<Rightarrow> candidate list \<Rightarrow> int" where
  "rounded_value v S = sum_list (map (\<lambda>c. py_round (v c)) S)"

definition rounded_feasible :: "rat \<Rightarrow> int option \<Rightarrow> candidate list \<Rightarrow> candidate list \<Rightarrow> bool" where
  "rounded_feasible budget cap cs S =
     (list_all (\<lambda>c. c \<in> set cs) S \<and> distinct (map cand_building_id S) \<and>
      rounded_cost S \<le> py_round budget \<and> within_cap cap S)"

lemma filter_at_most_one:
  "(\<And>k. length (filter (\<lambda>c. f c = k) xs) \<le> 1) \<Longrightarrow> distinct (map f xs)"
proof (induction xs)
  case Nil
  then show ?case by simp
next
  case (Cons x xs)
  have "filter (\<lambda>c. f c = f x) xs = []" using Cons.prems [of "f x"] by simp
  then have "f x \<notin> set (map f xs)" by (auto simp: filter_empty_conv)
  moreover have "length (filter (\<lambda>c. f c = k) xs) \<le> 1" for k
    using Cons.prems [of k] by (auto split: if_splits)
  ultimately show ?case using Cons.IH by simp
qed

lemma lin_sum_budget_row: "lin_sum (fst (budget_row cs b)) x = rounded_cost (filter (\<lambda>c. x (cand_key c)) cs)"
  by (simp add: budget_row_def lin_sum_map rounded_cost_def)

lemma lin_sum_choice_row: "lin_sum (fst (choice_row g m)) x = int (length (filter (\<lambda>c. x (cand_key c)) g))"
  by (simp only: choice_row_def lin_sum_one fst_conv)

lemma list_all_rows:
  "list_all (\<lambda>(terms, bound). lin_sum terms x \<le> bound) (map (\<lambda>(_, options). choice_row options m) gs) \<longleftrightarrow>
     (\<forall>(k, g) \<in> set gs. int (length (filter (\<lambda>c. x (cand_key c)) g)) \<le> m)"
proof -
  have "snd (choice_row g m) = m" for g by (simp add: choice_row_def)
  then show ?thesis
    by (simp add: list_all_iff case_prod_beta lin_sum_choice_row [simplified])
qed

lemma satisfies_ilp_iff:
  "satisfies (ilp_model v cs budget cap) x \<longleftrightarrow>
     rounded_cost (filter (\<lambda>c. x (cand_key c)) cs) \<le> py_round budget \<and>
     (\<forall>(k, g) \<in> set (group_by cand_building_id cs). int (length (filter (\<lambda>c. x (cand_key c)) g)) \<le> 1) \<and>
     (\<forall>m. cap = Some m \<longrightarrow> (\<forall>(k, g) \<in> set (group_by cand_district cs).
        int (length (filter (\<lambda>c. x (cand_key c)) g)) \<le> m))"
proof -
  have "snd (budget_row cs budget) = py_round budget" by (simp add: budget_row_def)
  then have row: "list_all (\<lambda>(terms, bound). lin_sum terms x \<le> bound) [budget_row cs budget] \<longleftrightarrow>
      rounded_cost (filter (\<lambda>c. x (cand_key c)) cs) \<le> py_round budget"
    by (simp only: list.pred_inject case_prod_beta lin_sum_budget_row simp_thms)
  show ?thesis
  proof (cases cap)
    case None
    then show ?thesis using row
      by (simp only: satisfies_def ilp_model_def cp_model.simps list_all_append option.simps
          list_all_rows append_Nil2 list.pred_inject simp_thms)
  next
    case (Some m)
    then show ?thesis using row
      by (simp only: satisfies_def ilp_model_def cp_model.simps list_all_append option.simps
          list_all_rows list.pred_inject simp_thms)
  qed
qed

lemma group_filter_count:
  assumes "(k, g) \<in> set (group_by key cs)"
  shows "filter P g = filter (\<lambda>c. key c = k) (filter P cs)"
  using group_by_entry(1) [OF assms] by (simp add: conj_commute)

lemma satisfies_picks:
  assumes "satisfies (ilp_model v cs budget cap) x"
  shows "rounded_feasible budget cap cs (filter (\<lambda>c. x (cand_key c)) cs)"
proof -
  let ?S = "filter (\<lambda>c. x (cand_key c)) cs"
  note sat = assms [unfolded satisfies_ilp_iff]
  have one: "length (filter (\<lambda>c. cand_building_id c = k) ?S) \<le> 1" for k
  proof (cases "\<exists>c \<in> set cs. cand_building_id c = k")
    case True
    then obtain g where g: "(k, g) \<in> set (group_by cand_building_id cs)"
      by (metis group_by_member)
    then show ?thesis using sat group_filter_count [OF g, of "\<lambda>c. x (cand_key c)"] by fastforce
  next
    case False
    then have "filter (\<lambda>c. cand_building_id c = k) ?S = []" by (auto simp: filter_empty_conv)
    then show ?thesis by (simp only: list.size)
  qed
  have "within_cap cap ?S"
  proof (rule within_capI)
    fix m d assume m: "cap = Some m"
    show "district_count d ?S = 0 \<or> int (district_count d ?S) \<le> m"
    proof (cases "\<exists>c \<in> set cs. cand_district c = d")
      case True
      then obtain g where g: "(d, g) \<in> set (group_by cand_district cs)"
        by (metis group_by_member)
      then show ?thesis using sat m group_filter_count [OF g, of "\<lambda>c. x (cand_key c)"]
        by (fastforce simp: district_count_def)
    next
      case False
      then have "filter (\<lambda>c. cand_district c = d) ?S = []" by (auto simp: filter_empty_conv)
      then have "district_count d ?S = 0" unfolding district_count_def by (simp only: list.size)
      then show ?thesis by blast
    qed
  qed
  then show ?thesis
    using sat filter_at_most_one [OF one] by (auto simp: rounded_feasible_def list_all_iff)
qed

text \<open>Conversely a rounded-feasible selection is an assignment that satisfies the model.\<close>

definition chosen_keys :: "candidate list \<Rightarrow> string \<Rightarrow> bool" where
  "chosen_keys S = (\<lambda>k. k \<in> set (map cand_key S))"

lemma chosen_keys_filter:
  assumes "distinct (map cand_key cs)" and "list_all (\<lambda>c. c \<in> set cs) S" and "distinct S"
  shows "mset (filter (\<lambda>c. chosen_keys S (cand_key c)) cs) = mset S"
proof -
  have inj: "inj_on cand_key (set cs)" using assms(1) by (simp add: distinct_map)
  have "set (filter (\<lambda>c. chosen_keys S (cand_key c)) cs) = set S"
    using assms(2) inj by (auto simp: chosen_keys_def list_all_iff inj_on_def)
  moreover have "distinct cs" using assms(1) by (simp add: distinct_map)
  ultimately show ?thesis using assms(3)
    set_eq_iff_mset_eq_distinct [of "filter (\<lambda>c. chosen_keys S (cand_key c)) cs" S]
    by (simp del: set_filter mset_filter)
qed

lemma sum_list_mset_eq:
  "mset xs = mset ys \<Longrightarrow> sum_list (map f xs) = sum_list (map (f :: 'a \<Rightarrow> 'b::comm_monoid_add) ys)"
  by (metis mset_map sum_mset_sum_list)

lemma length_filter_mset_eq: "mset xs = mset ys \<Longrightarrow> length (filter P xs) = length (filter P ys)"
  by (metis mset_filter size_mset)

lemma filter_distinct_le_1:
  "distinct (map f xs) \<Longrightarrow> length (filter (\<lambda>c. f c = k) xs) \<le> 1"
  by (induction xs) (auto simp: filter_empty_conv le_Suc_eq image_iff)

lemma selection_satisfies:
  assumes keys: "distinct (map cand_key cs)" and f: "rounded_feasible budget cap cs S"
    and cap: "\<And>m. cap = Some m \<Longrightarrow> 0 \<le> m"
  shows "satisfies (ilp_model v cs budget cap) (chosen_keys S)"
    and "lin_sum (cpm_objective (ilp_model v cs budget cap)) (chosen_keys S) = rounded_value v S"
proof -
  let ?F = "filter (\<lambda>c. chosen_keys S (cand_key c)) cs"
  have dist: "distinct (map cand_building_id S)" using f by (simp add: rounded_feasible_def)
  then have "distinct S" by (simp add: distinct_map)
  then have m: "mset ?F = mset S"
    using chosen_keys_filter [OF keys] f by (simp add: rounded_feasible_def)
  show "lin_sum (cpm_objective (ilp_model v cs budget cap)) (chosen_keys S) = rounded_value v S"
    using sum_list_mset_eq [OF m, of "\<lambda>c. py_round (v c)"]
    by (simp add: ilp_model_def lin_sum_map rounded_value_def)
  have "rounded_cost ?F \<le> py_round budget"
    using f sum_list_mset_eq [OF m, of "\<lambda>c. py_round (cand_cost_egp c)"]
    by (simp add: rounded_feasible_def rounded_cost_def)
  moreover have "length (filter (\<lambda>c. chosen_keys S (cand_key c)) g) \<le> 1"
    if "(k, g) \<in> set (group_by cand_building_id cs)" for k g
    using group_filter_count [OF that, of "\<lambda>c. chosen_keys S (cand_key c)"]
      length_filter_mset_eq [OF m, of "\<lambda>c. cand_building_id c = k"]
      filter_distinct_le_1 [OF dist, of k] by simp
  moreover have "int (length (filter (\<lambda>c. chosen_keys S (cand_key c)) g)) \<le> n"
    if "cap = Some n" and "(k, g) \<in> set (group_by cand_district cs)" for k g n
  proof -
    have "length (filter (\<lambda>c. chosen_keys S (cand_key c)) g) = district_count k S"
      using group_filter_count [OF that(2), of "\<lambda>c. chosen_keys S (cand_key c)"]
        length_filter_mset_eq [OF m, of "\<lambda>c. cand_district c = k"]
      by (simp add: district_count_def)
    moreover have "district_count k S = 0 \<or> int (district_count k S) \<le> n"
    proof (cases "\<exists>c \<in> set S. cand_district c = k")
      case True
      then show ?thesis using f that(1)
        by (auto simp: rounded_feasible_def within_cap_def list_all_iff)
    next
      case False
      then show ?thesis by (auto simp: district_count_def filter_empty_conv)
    qed
    ultimately show ?thesis using cap [OF that(1)] by auto
  qed
  ultimately show "satisfies (ilp_model v cs budget cap) (chosen_keys S)"
    by (auto simp: satisfies_ilp_iff)
qed

lemma ilp_picks_rounded_feasible:
  assumes "cpsat_contract cpsat" and "0 \<le> budget"
  shows "rounded_feasible budget cap cs (ilp_picks cpsat v cs budget cap)"
proof (cases "fst (cpsat (ilp_model v cs budget cap)) \<in> {OPTIMAL, FEASIBLE}")
  case True
  then show ?thesis
    using satisfies_picks [OF cpsat_contractD(1) [OF assms(1) True]]
    by (auto simp: ilp_picks_def Let_def case_prod_beta)
next
  case False
  have "0 \<le> py_round budget" using py_round_mono [OF assms(2)] py_round_int [of 0] by simp
  then show ?thesis using False
    by (auto simp: ilp_picks_def case_prod_beta rounded_feasible_def rounded_cost_def
        intro!: within_capI) (auto simp: district_count_def)
qed

lemma rounded_cost_error:
  "selection_cost S \<le> of_int (rounded_cost S) + of_nat (length S) / 2"
proof (induction S)
  case Nil
  then show ?case by (simp add: selection_cost_def rounded_cost_def)
next
  case (Cons c S)
  have "cand_cost_egp c \<le> of_int (py_round (cand_cost_egp c)) + 1 / 2"
    using py_round_error [of "cand_cost_egp c"] unfolding abs_le_iff by linarith
  moreover have "selection_cost (c # S) = cand_cost_egp c + selection_cost S"
    by (simp add: selection_cost_def)
  moreover have "(of_int (rounded_cost (c # S)) :: rat) =
      of_int (py_round (cand_cost_egp c)) + of_int (rounded_cost S)"
    by (simp add: rounded_cost_def)
  moreover have "(of_nat (length (c # S)) :: rat) / 2 = of_nat (length S) / 2 + 1 / 2"
    by (simp add: add_divide_distrib)
  ultimately show ?case using Cons by linarith
qed

lemma rounded_feasible_cost:
  assumes "rounded_feasible budget cap cs S"
  shows "selection_cost S \<le> budget + (of_nat (length S) + 1) / 2"
proof -
  have "rounded_cost S \<le> py_round budget" using assms by (simp add: rounded_feasible_def)
  then have "of_int (rounded_cost S) \<le> (of_int (py_round budget) :: rat)" by simp
  moreover have "of_int (py_round budget) \<le> budget + 1 / 2"
    using py_round_error [of budget] unfolding abs_le_iff by linarith
  moreover have "(of_nat (length S) + 1) / (2 :: rat) = of_nat (length S) / 2 + 1 / 2"
    by (simp add: add_divide_distrib)
  ultimately show ?thesis using rounded_cost_error [of S] by linarith
qed

lemma ilp_picks_optimal:
  assumes "cpsat_contract cpsat" and "fst (cpsat (ilp_model v cs budget cap)) = OPTIMAL"
    and "distinct (map cand_key cs)" and "\<And>m. cap = Some m \<Longrightarrow> 0 \<le> m"
    and "rounded_feasible budget cap cs S"
  shows "rounded_value v S \<le> rounded_value v (ilp_picks cpsat v cs budget cap)"
proof -
  let ?m = "ilp_model v cs budget cap"
  have "lin_sum (cpm_objective ?m) (chosen_keys S) \<le> lin_sum (cpm_objective ?m) (snd (cpsat ?m))"
    by (rule cpsat_contractD(2) [OF assms(1,2)])
       (rule selection_satisfies(1) [OF assms(3,5)], rule assms(4))
  moreover have "lin_sum (cpm_objective ?m) (chosen_keys S) = rounded_value v S"
    by (rule selection_satisfies(2) [OF assms(3,5)]) (rule assms(4))
  moreover have "lin_sum (cpm_objective ?m) (snd (cpsat ?m)) =
      rounded_value v (ilp_picks cpsat v cs budget cap)"
    using assms(2) by (simp add: ilp_picks_def case_prod_beta ilp_model_def lin_sum_map rounded_value_def)
  ultimately show ?thesis by simp
qed

text \<open>Pruning survives the rounding, which is monotone.\<close>

lemma prune_rounded:
  assumes "consistent_districts cs" and "rounded_feasible budget cap cs S"
  shows "\<exists>S'. rounded_feasible budget cap (prune_with v cs) S' \<and>
           rounded_value v S \<le> rounded_value v S'"
proof -
  from assms(2) have S: "list_all (\<lambda>c. c \<in> set cs) S" by (simp add: rounded_feasible_def)
  obtain S' where S': "list_all (\<lambda>c. c \<in> set (prune_with v cs)) S'"
    and b: "map cand_building_id S' = map cand_building_id S"
    and d: "map cand_district S' = map cand_district S"
    and le: "list_all2 (\<lambda>a c. cand_cost_egp a \<le> cand_cost_egp c \<and> v c \<le> v a) S' S"
    by (rule prune_replacement [OF S assms(1), of v])
  have "rounded_cost S' \<le> rounded_cost S"
    unfolding rounded_cost_def
    by (rule list_all2_sum_le) (rule list_all2_mono [OF le], simp add: py_round_mono)
  moreover have "list_all2 (\<lambda>a c. py_round (v a) \<le> py_round (v c)) S S'"
    by (rule list_all2_flip [OF le]) (simp add: py_round_mono)
  then have "rounded_value v S \<le> rounded_value v S'"
    unfolding rounded_value_def by (rule list_all2_sum_le)
  moreover have "within_cap cap S' = within_cap cap S" by (rule within_cap_cong [OF d])
  ultimately show ?thesis using S' b assms(2)
    by (intro exI [of _ S']) (simp add: rounded_feasible_def)
qed

section \<open>The exhaustive solver meets the contract\<close>

lemma lin_sum_cong:
  "(\<And>k. k \<in> set (map fst terms) \<Longrightarrow> x k = y k) \<Longrightarrow> lin_sum terms x = lin_sum terms y"
  by (induction terms) (auto simp: lin_sum_def)

lemma in_set_filterI: "x \<in> set xs \<Longrightarrow> P x \<Longrightarrow> x \<in> set (filter P xs)"
  by simp

lemma exhaustive_search_contract: "cpsat_contract exhaustive_search"
proof -
  have restrict: "satisfies m y \<Longrightarrow> satisfies m (\<lambda>k. k \<in> set (filter y (model_keys m)))"
    and obj: "lin_sum (cpm_objective m) (\<lambda>k. k \<in> set (filter y (model_keys m))) =
         lin_sum (cpm_objective m) y" for m y
  proof -
    have c: "lin_sum terms (\<lambda>k. k \<in> set (filter y (model_keys m))) = lin_sum terms y"
      if "(terms, bound) \<in> set (cpm_constraints m)" for terms bound
      using that by (intro lin_sum_cong) (force simp: model_keys_def)
    show "satisfies m y \<Longrightarrow> satisfies m (\<lambda>k. k \<in> set (filter y (model_keys m)))"
      using c by (fastforce simp: satisfies_def list_all_iff)
    show "lin_sum (cpm_objective m) (\<lambda>k. k \<in> set (filter y (model_keys m))) =
         lin_sum (cpm_objective m) y"
      by (rule lin_sum_cong) (auto simp: model_keys_def)
  qed

  have sub: "filter y ks \<in> set (subseqs ks)" for y and ks :: "string list"
    by (induction ks) (auto simp: Let_def)
  show ?thesis
    unfolding cpsat_contract_def
  proof (intro allI conjI impI)
    fix m
    let ?good = "filter (\<lambda>ks. satisfies m (\<lambda>k. k \<in> set ks)) (subseqs (model_keys m))"
    let ?f = "\<lambda>ks. lin_sum (cpm_objective m) (\<lambda>k. k \<in> set ks)"
    show "satisfies m (snd (exhaustive_search m))"
      if fst_in: "fst (exhaustive_search m) \<in> {OPTIMAL, FEASIBLE}"
    proof (cases "py_max_by ?f ?good")
      case None
      then show ?thesis using fst_in by (simp add: exhaustive_search_def)
    next
      case (Some ks)
      then have "ks \<in> set ?good" by (rule py_max_by_SomeD(1))
      then show ?thesis using Some by (simp add: exhaustive_search_def)
    qed
    fix y assume opt: "fst (exhaustive_search m) = OPTIMAL" and y: "satisfies m y"
    obtain ks where ks: "py_max_by ?f ?good = Some ks"
      using opt by (cases "py_max_by ?f ?good") (simp_all add: exhaustive_search_def)
    have "filter y (model_keys m) \<in> set ?good"
      using in_set_filterI [where P = "\<lambda>ks. satisfies m (\<lambda>k. k \<in> set ks)",
        OF sub [of y "model_keys m"]] restrict [OF y] by blast
    then have "?f (filter y (model_keys m)) \<le> ?f ks" by (rule py_max_by_SomeD(2) [OF ks])
    then show "lin_sum (cpm_objective m) y \<le> lin_sum (cpm_objective m) (snd (exhaustive_search m))"
      using obj [of m y] ks by (simp add: exhaustive_search_def)
  qed
qed

end
