(* ===== verification/Runner.thy ===== *)
theory Runner
  imports Ilp
begin

text \<open>
  \<open>src/gemp/optimize/runner.py\<close>: the one entry point to the four solvers, the
  comparison of them and the improvement over a baseline. What a solver promises is
  stated about the allocation that leaves \<open>solve\<close>, pruning and fallback included.
\<close>

section \<open>The entry point\<close>

definition SOLVERS :: "string list" where
  "SOLVERS = [''cpsat'', ''greedy_upgrade'', ''greedy'', ''equal_split'']"

definition run_solver ::
  "cp_solver \<Rightarrow> string \<Rightarrow> candidate list \<Rightarrow> building list \<Rightarrow> rat \<Rightarrow> string \<Rightarrow> int option \<Rightarrow>
     allocation result" where
  "run_solver cpsat solver =
     (if solver = ''cpsat'' then solve_ilp cpsat
      else if solver = ''greedy_upgrade'' then solve_greedy_upgrade
      else if solver = ''greedy'' then solve_greedy
      else solve_equal_split)"

text \<open>CP-SAT that expired with nothing: the strong heuristic, and the status says so.\<close>

definition with_fallback ::
  "candidate list \<Rightarrow> building list \<Rightarrow> rat \<Rightarrow> string \<Rightarrow> string \<Rightarrow> int option \<Rightarrow> allocation \<Rightarrow>
     allocation result" where
  "with_fallback candidates buildings budget solver objective cap a =
     (if solver = ''cpsat'' \<and> alloc_items a = [] \<and> budget > 0
      then rbind (solve_greedy_upgrade candidates buildings budget objective cap) (\<lambda>fallback.
             if alloc_items fallback \<noteq> []
             then Inr (fallback\<lparr>alloc_status := ''FALLBACK_FROM_'' @ alloc_status a\<rparr>)
             else Inr a)
      else Inr a)"

definition solve ::
  "cp_solver \<Rightarrow> candidate list \<Rightarrow> building list \<Rightarrow> pyfloat \<Rightarrow> string \<Rightarrow> string \<Rightarrow> int option \<Rightarrow>
     bool \<Rightarrow> allocation result" where
  "solve cpsat candidates buildings budget_egp solver objective cap prune =
     (if solver \<notin> set SOLVERS then Inl (ValueError ''unknown solver'')
      else if objective \<notin> set (map fst OBJECTIVES) then Inl (ValueError ''unknown objective'')
      else case budget_egp of
        Fin budget \<Rightarrow>
          if budget < 0 then Inl (ValueError ''budget must not be negative'')
          else rbind (if prune then prune_dominated candidates objective else Inr candidates)
            (\<lambda>kept. rbind (run_solver cpsat solver kept buildings budget objective cap)
               (with_fallback kept buildings budget solver objective cap))
      | _ \<Rightarrow> Inl (ValueError ''budget must be a finite number''))"

definition compare ::
  "cp_solver \<Rightarrow> candidate list \<Rightarrow> building list \<Rightarrow> pyfloat \<Rightarrow> string \<Rightarrow> int option \<Rightarrow> bool \<Rightarrow>
     (string \<times> allocation) list result" where
  "compare cpsat candidates buildings budget objective cap prune =
     rmapM (\<lambda>name. rbind (solve cpsat candidates buildings budget name objective cap prune)
                      (\<lambda>a. Inr (name, a))) SOLVERS"

section \<open>Improvement over a baseline\<close>

definition as_candidate :: "allocation_item \<Rightarrow> candidate result" where
  "as_candidate i =
     mk_candidate (item_candidate_key i) (item_building_id i) (item_district i)
       (item_intervention_ids i) (item_label i) (item_cost_egp i) (item_annual_kwh_saving i)
       (item_lifetime_benefit i) None (item_annual_egp_saving i)"

definition items_value :: "(candidate \<Rightarrow> rat) \<Rightarrow> allocation_item list \<Rightarrow> rat result" where
  "items_value value_of = rsum (\<lambda>i. rbind (as_candidate i) (\<lambda>c. Inr (value_of c)))"

definition improvement_pct :: "allocation \<Rightarrow> allocation \<Rightarrow> string \<Rightarrow> pyfloat result" where
  "improvement_pct res baseline objective =
     rbind (objective_fn objective) (\<lambda>value_of.
     rbind (items_value value_of (alloc_items res)) (\<lambda>result_total.
     rbind (items_value value_of (alloc_items baseline)) (\<lambda>baseline_total.
       if baseline_total = 0 then Inr (if result_total > 0 then PosInf else Fin 0)
       else Inr (Fin ((result_total - baseline_total) / baseline_total * 100)))))"

section \<open>Lemmas\<close>

lemma objective_fn_known:
  "objective \<in> set (map fst OBJECTIVES) \<longleftrightarrow> (\<exists>f. objective_fn objective = Inr f)"
proof
  assume "objective \<in> set (map fst OBJECTIVES)"
  then have "map_of OBJECTIVES objective \<noteq> None" by (simp only: map_of_eq_None_iff set_map) simp
  then show "\<exists>f. objective_fn objective = Inr f" by (auto simp: objective_fn_def)
next
  assume "\<exists>f. objective_fn objective = Inr f"
  then have "map_of OBJECTIVES objective \<noteq> None"
    by (cases "map_of OBJECTIVES objective") (auto simp: objective_fn_def)
  then show "objective \<in> set (map fst OBJECTIVES)" by (simp only: map_of_eq_None_iff set_map) simp
qed

text \<open>The picks of each solver, and the allocation built from them.\<close>

definition solver_picks ::
  "cp_solver \<Rightarrow> string \<Rightarrow> (candidate \<Rightarrow> rat) \<Rightarrow> building list \<Rightarrow> candidate list \<Rightarrow> rat \<Rightarrow>
     int option \<Rightarrow> candidate list" where
  "solver_picks cpsat solver value_of buildings cs budget cap =
     (if solver = ''cpsat'' then ilp_picks cpsat value_of cs budget cap
      else if solver = ''greedy_upgrade'' then upgrade_picks value_of buildings cs budget cap
      else if solver = ''greedy'' then greedy_picks value_of buildings cs budget cap
      else equal_split_picks value_of buildings cs budget cap)"

lemma solve_equal_split_picks:
  assumes "objective_fn objective = Inr v"
  shows "solve_equal_split cs bs budget objective cap =
           build_allocation ''equal_split'' objective ''BASELINE'' budget bs
             (equal_split_picks v bs cs budget cap)"
  using assms
  by (cases "bs = []")
     (simp_all add: solve_equal_split_def equal_split_picks_def build_allocation_def to_items_def)

lemma run_solver_picks:
  assumes "objective_fn objective = Inr v"
  obtains s st where "run_solver cpsat solver cs bs budget objective cap =
    build_allocation s objective st budget bs (solver_picks cpsat solver v bs cs budget cap)"
proof (cases "solver = ''cpsat''")
  case True
  then show ?thesis using assms
    by (intro that [of "''cpsat''"]) (simp add: run_solver_def solver_picks_def solve_ilp_def)
next
  case F1: False
  show ?thesis
  proof (cases "solver = ''greedy_upgrade''")
    case True
    then show ?thesis using assms
      by (intro that [of "''greedy_upgrade''"])
         (simp add: run_solver_def solver_picks_def solve_greedy_upgrade_def)
  next
    case F2: False
    show ?thesis
    proof (cases "solver = ''greedy''")
      case True
      then show ?thesis using assms
        by (intro that [of "''greedy''"]) (simp add: run_solver_def solver_picks_def solve_greedy_def)
    next
      case False
      then show ?thesis using assms F1 F2
        by (intro that [of "''equal_split''"])
           (simp add: run_solver_def solver_picks_def solve_equal_split_picks)
    qed
  qed
qed

text \<open>The exact programme as an allocator: the rounding of costs and budget is its allowance.\<close>

definition rounding_slack :: "nat \<Rightarrow> rat" where
  "rounding_slack k = (of_nat k + 1) / 2"

lemma ilp_allocator:
  assumes "cpsat_contract cpsat"
  shows "allocator (\<lambda>v _ cs budget cap. ilp_picks cpsat v cs budget cap) rounding_slack"
proof
  fix budget :: rat and cs :: "candidate list" and bs :: "building list"
    and cap :: "int option" and v :: "candidate \<Rightarrow> rat"
  assume "0 \<le> budget"
  from ilp_picks_rounded_feasible [OF assms this]
  have f: "rounded_feasible budget cap cs (ilp_picks cpsat v cs budget cap)" .
  with rounded_feasible_cost [OF f]
  show "sound_picks budget rounding_slack cap cs (ilp_picks cpsat v cs budget cap)"
    by (simp add: rounded_feasible_def sound_picks_def rounding_slack_def)
qed

interpretation exact: allocator
  "\<lambda>v _ cs budget cap. ilp_picks exhaustive_search v cs budget cap" rounding_slack
  by (rule ilp_allocator [OF exhaustive_search_contract])

definition slack_of :: "string \<Rightarrow> nat \<Rightarrow> rat" where
  "slack_of solver k = (if solver = ''cpsat'' then rounding_slack k else 0)"

lemma run_solver_sound:
  assumes "cpsat_contract cpsat" and "objective_fn objective = Inr v"
    and "0 \<le> budget" and "consistent_districts cs" and "distinct (map bld_id bs)"
    and "known_buildings bs cs"
  shows "\<exists>a. run_solver cpsat solver cs bs budget objective cap = Inr a \<and>
           to_items (solver_picks cpsat solver v bs cs budget cap) bs = Inr (alloc_items a) \<and>
           distinct (map item_building_id (alloc_items a)) \<and>
           items_within_cap cap (alloc_items a) \<and>
           total_cost_egp a \<le> budget + slack_of solver (length (alloc_items a))"
proof -
  obtain s st where r: "run_solver cpsat solver cs bs budget objective cap =
      build_allocation s objective st budget bs (solver_picks cpsat solver v bs cs budget cap)"
    by (rule run_solver_picks [OF assms(2)])
  note args = assms(3-6)
  note ilp = allocator.allocation_sound [OF ilp_allocator [OF assms(1)] args,
      of s objective st v cap]
  note heuristics = upgrade.allocation_sound [OF args, of s objective st v cap]
    greedy.allocation_sound [OF args, of s objective st v cap]
    equal_split.allocation_sound [OF args, of s objective st v cap]
  show ?thesis
  proof (cases "solver = ''cpsat''")
    case True
    then show ?thesis using ilp unfolding r slack_of_def solver_picks_def by auto
  next
    case False
    then show ?thesis using heuristics unfolding r slack_of_def solver_picks_def by auto
  qed
qed

lemma solver_picks_subset:
  assumes "cpsat_contract cpsat" and "0 \<le> budget" and "consistent_districts cs"
    and "distinct (map bld_id bs)"
  shows "set (solver_picks cpsat solver v bs cs budget cap) \<subseteq> set cs"
proof -
  have sub: "set S \<subseteq> set cs" if "sound_picks budget over cap cs S" for over S
    using that by (auto simp: sound_picks_def list_all_iff)
  show ?thesis
    unfolding solver_picks_def
    using sub [OF allocator.picks_sound [OF ilp_allocator [OF assms(1)] assms(2-4)]]
      sub [OF upgrade.picks_sound [OF assms(2-4)]] sub [OF greedy.picks_sound [OF assms(2-4)]]
      sub [OF equal_split.picks_sound [OF assms(2-4)]]
    by simp
qed

text \<open>What reaches the solver, pruned or not.\<close>

definition kept_candidates :: "bool \<Rightarrow> (candidate \<Rightarrow> rat) \<Rightarrow> candidate list \<Rightarrow> candidate list" where
  "kept_candidates prune v cs = (if prune then prune_with v cs else cs)"

lemma kept_subset: "set (kept_candidates prune v cs) \<subseteq> set cs"
  by (simp add: kept_candidates_def prune_with_subset)

lemma kept_consistent:
  "consistent_districts cs \<Longrightarrow> consistent_districts (kept_candidates prune v cs)"
  by (simp add: kept_candidates_def prune_with_consistent)

lemma kept_known: "known_buildings bs cs \<Longrightarrow> known_buildings bs (kept_candidates prune v cs)"
  by (simp add: kept_candidates_def prune_with_known)

lemma kept_keys:
  "distinct (map cand_key cs) \<Longrightarrow> distinct (map cand_key (kept_candidates prune v cs))"
  by (simp add: kept_candidates_def prune_with_keys)

lemma kept_rounded:
  assumes "consistent_districts cs" and "rounded_feasible budget cap cs S"
  shows "\<exists>S'. rounded_feasible budget cap (kept_candidates prune v cs) S' \<and>
           rounded_value v S \<le> rounded_value v S'"
  using prune_rounded [OF assms, of v] assms(2) by (cases prune) (auto simp: kept_candidates_def)

lemma solve_known:
  assumes "solver \<in> set SOLVERS" and "objective_fn objective = Inr v" and "0 \<le> budget"
  shows "solve cpsat cs bs (Fin budget) solver objective cap prune =
    rbind (run_solver cpsat solver (kept_candidates prune v cs) bs budget objective cap)
      (with_fallback (kept_candidates prune v cs) bs budget solver objective cap)"
proof -
  have "objective \<in> set (map fst OBJECTIVES)" using assms(2) objective_fn_known by blast
  then show ?thesis
    using assms by (simp add: solve_def prune_dominated_def kept_candidates_def not_less del: set_map)
qed

text \<open>
  The fallback keeps what the run promised: either the run's own allocation comes back,
  or CP-SAT funded nothing and the heuristic's allocation does, marked.
\<close>

lemma with_fallback_cases:
  assumes "with_fallback cs bs budget solver objective cap a = Inr b"
  obtains (own) "b = a"
    | (fallback) g where "solver = ''cpsat''" and "alloc_items a = []" and "0 < budget"
        and "solve_greedy_upgrade cs bs budget objective cap = Inr g" and "alloc_items g \<noteq> []"
        and "b = g\<lparr>alloc_status := ''FALLBACK_FROM_'' @ alloc_status a\<rparr>"
proof (cases "solver = ''cpsat'' \<and> alloc_items a = [] \<and> 0 < budget")
  case False
  then have "b = a" using assms unfolding with_fallback_def by (simp only: if_False sum.inject)
  then show ?thesis by (rule own)
next
  case True
  then obtain g where g: "solve_greedy_upgrade cs bs budget objective cap = Inr g"
    and b: "(if alloc_items g \<noteq> [] then Inr (g\<lparr>alloc_status := ''FALLBACK_FROM_'' @ alloc_status a\<rparr>)
             else Inr a) = (Inr b :: allocation result)"
    using assms unfolding with_fallback_def by (simp only: simp_thms if_True rbind_eq_Inr) blast
  show ?thesis
  proof (cases "alloc_items g = []")
    case True
    then have "b = a" using b by (simp only: simp_thms if_False sum.inject)
    then show ?thesis by (rule own)
  next
    case False
    then have "b = g\<lparr>alloc_status := ''FALLBACK_FROM_'' @ alloc_status a\<rparr>"
      using b by (simp only: simp_thms if_True sum.inject)
    then show ?thesis using fallback [of g] True g False by blast
  qed
qed

lemma greedy_upgrade_run:
  "solve_greedy_upgrade = run_solver cpsat ''greedy_upgrade''"
  by (simp add: run_solver_def)

lemma total_cost_status [simp]: "total_cost_egp (a\<lparr>alloc_status := s\<rparr>) = total_cost_egp a"
  by (simp add: total_cost_egp_def)

lemma slack_nonneg: "0 \<le> slack_of solver k"
  by (simp add: slack_of_def rounding_slack_def)

lemma solve_total:
  assumes "cpsat_contract cpsat" and "solver \<in> set SOLVERS" and "objective_fn objective = Inr v"
    and "0 \<le> budget" and "consistent_districts cs" and "distinct (map bld_id bs)"
    and "known_buildings bs cs"
  shows "\<exists>a. solve cpsat cs bs (Fin budget) solver objective cap prune = Inr a"
proof -
  note kept = kept_consistent [OF assms(5), of prune v] assms(6) kept_known [OF assms(7), of prune v]
  note run = run_solver_sound [OF assms(1,3,4) kept]
  obtain a where a: "run_solver cpsat solver (kept_candidates prune v cs) bs budget objective cap = Inr a"
    using run [of solver cap] by blast
  obtain g where g: "solve_greedy_upgrade (kept_candidates prune v cs) bs budget objective cap = Inr g"
    using run [of "''greedy_upgrade''" cap] greedy_upgrade_run [of cpsat] by auto
  show ?thesis
    using a g by (simp add: solve_known [OF assms(2-4)] with_fallback_def)
qed

section \<open>A sample portfolio\<close>

definition sample_building :: "string \<Rightarrow> string \<Rightarrow> building" where
  "sample_building i d =
     \<lparr>bld_id = i, bld_code = i, bld_name = i, bld_district = d, bld_lat = 30, bld_lon = 31,
      bld_floor_area_m2 = 1000, bld_roof_area_m2 = 400, bld_glazing_area_m2 = 300,
      bld_roof_orientation = ''S'', bld_hvac_type = ''split'', bld_hvac_age_yr = 12,
      bld_insulation_quality = ''poor'', bld_occupancy_pattern = ''office'',
      bld_annual_kwh = 150000, bld_hourly_shape = FLAT_SHAPE\<rparr>"

definition sample_buildings :: "building list" where
  "sample_buildings = [sample_building ''a'' ''Dokki'', sample_building ''b'' ''Dokki'']"

lemma sample_ok:
  "consistent_districts sample_candidates" "distinct (map bld_id sample_buildings)"
  "known_buildings sample_buildings sample_candidates" "distinct (map cand_key sample_candidates)"
  by code_simp+

section \<open>The entry point keeps its promises\<close>

lemma solve_items_sound:
  assumes "cpsat_contract cpsat" and "solver \<in> set SOLVERS" and "objective \<in> set (map fst OBJECTIVES)"
    and "0 \<le> budget" and "consistent_districts cs" and "distinct (map bld_id bs)"
    and "known_buildings bs cs"
  shows "\<exists>a. solve cpsat cs bs (Fin budget) solver objective cap prune = Inr a \<and>
           (\<forall>i \<in> set (alloc_items a). \<exists>c \<in> set cs. to_item bs c = Inr i) \<and>
           distinct (map item_building_id (alloc_items a)) \<and>
           items_within_cap cap (alloc_items a) \<and>
           total_cost_egp a \<le> budget + slack_of solver (length (alloc_items a))"
proof -
  obtain v where v: "objective_fn objective = Inr v" using assms(3) objective_fn_known by blast
  let ?cs = "kept_candidates prune v cs"
  note kept = kept_consistent [OF assms(5), of prune v] assms(6) kept_known [OF assms(7), of prune v]
  have run: "\<exists>a. run_solver cpsat s ?cs bs budget objective cap = Inr a \<and>
      (\<forall>i \<in> set (alloc_items a). \<exists>c \<in> set cs. to_item bs c = Inr i) \<and>
      distinct (map item_building_id (alloc_items a)) \<and> items_within_cap cap (alloc_items a) \<and>
      total_cost_egp a \<le> budget + slack_of s (length (alloc_items a))" for s
  proof -
    obtain a where a: "run_solver cpsat s ?cs bs budget objective cap = Inr a"
      "to_items (solver_picks cpsat s v bs ?cs budget cap) bs = Inr (alloc_items a)"
      "distinct (map item_building_id (alloc_items a))" "items_within_cap cap (alloc_items a)"
      "total_cost_egp a \<le> budget + slack_of s (length (alloc_items a))"
      using run_solver_sound [OF assms(1) v assms(4) kept, of s cap] by blast
    have "set (solver_picks cpsat s v bs ?cs budget cap) \<subseteq> set cs"
      using solver_picks_subset [OF assms(1,4) kept(1,2)] kept_subset [of prune v cs] by blast
    then have "\<forall>i \<in> set (alloc_items a). \<exists>c \<in> set cs. to_item bs c = Inr i"
      using rmapM_from [OF a(2) [unfolded to_items_def]] by blast
    then show ?thesis using a by blast
  qed
  obtain a where a: "solve cpsat cs bs (Fin budget) solver objective cap prune = Inr a"
    using solve_total [OF assms(1,2) v assms(4-7)] by blast
  obtain r where r: "run_solver cpsat solver ?cs bs budget objective cap = Inr r"
    and w: "with_fallback ?cs bs budget solver objective cap r = Inr a"
    using a unfolding solve_known [OF assms(2) v assms(4)] rbind_eq_Inr by blast
  show ?thesis
    using w
  proof (cases rule: with_fallback_cases)
    case own
    then show ?thesis using a r run [of solver] by auto
  next
    case (fallback g)
    then have "run_solver cpsat ''greedy_upgrade'' ?cs bs budget objective cap = Inr g"
      using greedy_upgrade_run [of cpsat] by simp
    then have "(\<forall>i \<in> set (alloc_items g). \<exists>c \<in> set cs. to_item bs c = Inr i) \<and>
      distinct (map item_building_id (alloc_items g)) \<and> items_within_cap cap (alloc_items g) \<and>
      total_cost_egp g \<le> budget"
      using run [of "''greedy_upgrade''"] by (auto simp: slack_of_def)
    then show ?thesis using a fallback(6) slack_nonneg [of solver "length (alloc_items g)"]
      by (auto intro: order_trans)
  qed
qed





lemma status_name_optimal: "status_name st = ''OPTIMAL'' \<Longrightarrow> st = OPTIMAL"
  by (cases st) simp_all

lemma build_allocation_Inr:
  assumes "build_allocation s ob st budget bs picks = Inr a"
  shows "to_items picks bs = Inr (alloc_items a)" and "alloc_status a = st"
  using assms mk_allocation_Inr by (auto simp: build_allocation_def result_simps)

text \<open>
  C3: a proved optimum is one. When \<open>solve\<close> with \<open>cpsat\<close> returns the status
  \<open>OPTIMAL\<close>, no selection of the original, unpruned candidates that meets the whole-EGP
  budget, one option per building and the district cap has a higher rounded objective
  than the returned items, although pruning removed options before the solver ran and
  the fallback may have replaced its answer.
\<close>
theorem solve_cpsat_optimal:
  assumes "cpsat_contract cpsat" and "objective_fn objective = Inr v" and "0 \<le> budget"
    and "consistent_districts cs" and "distinct (map cand_key cs)"
    and "\<And>m. cap = Some m \<Longrightarrow> 0 \<le> m"
    and "solve cpsat cs bs (Fin budget) ''cpsat'' objective cap prune = Inr a"
    and "alloc_status a = ''OPTIMAL''"
  shows "\<exists>picks. to_items picks bs = Inr (alloc_items a) \<and>
           rounded_feasible budget cap cs picks \<and>
           (\<forall>S. rounded_feasible budget cap cs S \<longrightarrow> rounded_value v S \<le> rounded_value v picks)"
proof -
  let ?cs = "kept_candidates prune v cs"
  let ?m = "ilp_model v ?cs budget cap"
  have cp: "''cpsat'' \<in> set SOLVERS" by (simp add: SOLVERS_def)
  obtain r where r: "solve_ilp cpsat ?cs bs budget objective cap = Inr r"
    and w: "with_fallback ?cs bs budget ''cpsat'' objective cap r = Inr a"
    using assms(7) unfolding solve_known [OF cp assms(2,3)] rbind_eq_Inr run_solver_def
    by (simp only: simp_thms if_True) blast
  have "a = r" using w
  proof (cases rule: with_fallback_cases)
    case (fallback g)
    then show ?thesis using assms(8) by simp
  qed
  then have b: "build_allocation ''cpsat'' objective (status_name (fst (cpsat ?m))) budget bs
      (ilp_picks cpsat v ?cs budget cap) = Inr a"
    using r assms(2) by (simp add: solve_ilp_def)
  have opt: "fst (cpsat ?m) = OPTIMAL"
    by (rule status_name_optimal) (use build_allocation_Inr(2) [OF b] assms(8) in simp)
  have best: "rounded_value v S \<le> rounded_value v (ilp_picks cpsat v ?cs budget cap)"
    if f: "rounded_feasible budget cap cs S" for S
  proof -
    obtain S' where S': "rounded_feasible budget cap ?cs S'" and le: "rounded_value v S \<le> rounded_value v S'"
      using kept_rounded [OF assms(4) f, of prune v] by blast
    have "rounded_value v S' \<le> rounded_value v (ilp_picks cpsat v ?cs budget cap)"
      by (rule ilp_picks_optimal [OF assms(1) opt kept_keys [OF assms(5)] _ S']) (rule assms(6))
    then show ?thesis using le by simp
  qed
  have "rounded_feasible budget cap cs (ilp_picks cpsat v ?cs budget cap)"
    using ilp_picks_rounded_feasible [OF assms(1,3), of cap ?cs v] kept_subset [of prune v cs]
    by (auto simp: rounded_feasible_def list_all_iff)
  then show ?thesis using best build_allocation_Inr(1) [OF b] by blast
qed

definition sample_run :: allocation where
  "sample_run =
     \<lparr>alloc_solver = ''cpsat'', alloc_objective = ''lca_carbon'', alloc_status = ''OPTIMAL'',
      alloc_budget_egp = 40,
      alloc_items =
        [\<lparr>item_building_id = ''a'', item_building_code = ''a'', item_district = ''Dokki'',
          item_candidate_key = ''a2'', item_intervention_ids = [''a2''], item_label = ''a2'',
          item_cost_egp = 41/2, item_annual_kwh_saving = 60, item_lifetime_benefit = 60,
          item_annual_egp_saving = 60\<rparr>,
         \<lparr>item_building_id = ''b'', item_building_code = ''b'', item_district = ''Dokki'',
          item_candidate_key = ''b1'', item_intervention_ids = [''b1''], item_label = ''b1'',
          item_cost_egp = 20, item_annual_kwh_saving = 30, item_lifetime_benefit = 30,
          item_annual_egp_saving = 30\<rparr>]\<rparr>"

lemma sample_run:
  "solve exhaustive_search sample_candidates sample_buildings (Fin 40) ''cpsat'' ''lca_carbon'' None
     True = Inr sample_run"
  by code_simp

theorem solve_cpsat_optimal_witness:
  "\<exists>picks. to_items picks sample_buildings = Inr (alloc_items sample_run) \<and>
     rounded_feasible 40 None sample_candidates picks \<and>
     (\<forall>S. rounded_feasible 40 None sample_candidates S \<longrightarrow>
        rounded_value cand_lifetime_benefit S \<le> rounded_value cand_lifetime_benefit picks)"
  by (rule solve_cpsat_optimal [OF exhaustive_search_contract _ _ sample_ok(1,4) _ sample_run])
     (simp_all add: objective_fn_def OBJECTIVES_def sample_run_def)

text \<open>
  What the optimum is an optimum of. The programme rounds every cost and the budget
  to whole EGP, and the expansion does not produce whole costs, so a proved optimum can
  cost more than the budget: here 40.5 EGP are spent out of 40.
\<close>
theorem cpsat_overspends:
  "\<exists>a. solve exhaustive_search sample_candidates sample_buildings (Fin 40) ''cpsat'' ''lca_carbon''
          None True = Inr a \<and> alloc_status a = ''OPTIMAL'' \<and> total_cost_egp a > 40"
  by (rule exI [of _ sample_run]) (simp add: sample_run, simp add: sample_run_def total_cost_egp_def)

text \<open>
  CP-SAT's clock never leaves the money unspent. Whatever CP-SAT answered, if the
  allocation that \<open>solve\<close> returns for a positive budget funds nothing, then the upgrade
  heuristic funds nothing on the same kept candidates either; and an allocation that
  carries a fallback status is the heuristic's, within the budget exactly.
\<close>
theorem solve_fallback:
  assumes "objective_fn objective = Inr v" and "0 < budget"
    and "consistent_districts cs" and "distinct (map bld_id bs)" and "known_buildings bs cs"
    and "solve cpsat cs bs (Fin budget) ''cpsat'' objective cap prune = Inr a"
  shows "(alloc_items a = [] \<longrightarrow>
            upgrade_picks v bs (kept_candidates prune v cs) budget cap = []) \<and>
         (take 14 (alloc_status a) = ''FALLBACK_FROM_'' \<longrightarrow>
            to_items (upgrade_picks v bs (kept_candidates prune v cs) budget cap) bs = Inr (alloc_items a) \<and>
            total_cost_egp a \<le> budget)"
proof -
  let ?cs = "kept_candidates prune v cs"
  have pos: "0 \<le> budget" using assms(2) by simp
  have cp: "''cpsat'' \<in> set SOLVERS" by (simp add: SOLVERS_def)
  note kept = kept_consistent [OF assms(3), of prune v] assms(4) kept_known [OF assms(5), of prune v]
  obtain r where r: "solve_ilp cpsat ?cs bs budget objective cap = Inr r"
    and w: "with_fallback ?cs bs budget ''cpsat'' objective cap r = Inr a"
    using assms(6) unfolding solve_known [OF cp assms(1) pos] rbind_eq_Inr run_solver_def
    by (simp only: simp_thms if_True) blast
  obtain h where h: "solve_greedy_upgrade ?cs bs budget objective cap = Inr h"
    "to_items (upgrade_picks v bs ?cs budget cap) bs = Inr (alloc_items h)" "total_cost_egp h \<le> budget"
    using upgrade.allocation_sound [OF pos kept] assms(1) by (simp add: solve_greedy_upgrade_def) blast
  have empty: "upgrade_picks v bs ?cs budget cap = []" if "alloc_items h = []"
    using to_items_map(1) [OF h(2)] that by simp
  have status: "take 14 (alloc_status r) \<noteq> ''FALLBACK_FROM_''"
  proof -
    have "build_allocation ''cpsat'' objective (status_name (fst (cpsat (ilp_model v ?cs budget cap))))
        budget bs (ilp_picks cpsat v ?cs budget cap) = Inr r"
      using r assms(1) by (simp add: solve_ilp_def)
    from build_allocation_Inr(2) [OF this] show ?thesis
      by (cases "fst (cpsat (ilp_model v ?cs budget cap))") simp_all
  qed
  show ?thesis
    using w
  proof (cases rule: with_fallback_cases)
    case own
    have "alloc_items h = []" if "alloc_items a = []"
    proof (rule ccontr)
      assume "alloc_items h \<noteq> []"
      then have "Inr (h\<lparr>alloc_status := ''FALLBACK_FROM_'' @ alloc_status r\<rparr>) = (Inr a :: allocation result)"
        using w h(1) that own assms(2) by (simp add: with_fallback_def)
      then show False using that \<open>alloc_items h \<noteq> []\<close> by auto
    qed
    then show ?thesis using empty status own by blast
  next
    case (fallback g)
    then have "g = h" using h(1) by simp
    then show ?thesis using fallback(5,6) h(2,3) by simp
  qed
qed

definition expired_solver :: cp_solver where
  "expired_solver m = (UNKNOWN, \<lambda>_. False)"

lemma expired_run:
  "solve expired_solver sample_candidates sample_buildings (Fin 41) ''cpsat'' ''lca_carbon'' None True =
     Inr (sample_run\<lparr>alloc_solver := ''greedy_upgrade'', alloc_budget_egp := 41,
                      alloc_status := ''FALLBACK_FROM_UNKNOWN''\<rparr>)"
  by code_simp

theorem solve_fallback_witness:
  "to_items (upgrade_picks cand_lifetime_benefit sample_buildings
      (kept_candidates True cand_lifetime_benefit sample_candidates) 41 None) sample_buildings =
     Inr (alloc_items sample_run)"
  using solve_fallback [OF _ _ sample_ok(1-3) expired_run]
  by (simp add: objective_fn_def OBJECTIVES_def)

text \<open>
  The stronger heuristic never funds less. On the same portfolio, budget, cap and
  pruning, the life-cycle benefit of \<open>greedy_upgrade\<close>'s allocation is at least that
  of \<open>greedy\<close>'s.
\<close>
theorem greedy_upgrade_at_least_greedy:
  assumes "0 \<le> budget" and "consistent_districts cs"
    and "solve cpsat cs bs (Fin budget) ''greedy_upgrade'' ''lca_carbon'' cap prune = Inr u"
    and "solve cpsat cs bs (Fin budget) ''greedy'' ''lca_carbon'' cap prune = Inr g"
  shows "total_benefit_kgco2e g \<le> total_benefit_kgco2e u"
proof -
  let ?v = cand_lifetime_benefit
  let ?cs = "kept_candidates prune ?v cs"
  have ob: "objective_fn ''lca_carbon'' = Inr ?v" by (simp add: objective_fn_def OBJECTIVES_def)
  have u: "build_allocation ''greedy_upgrade'' ''lca_carbon'' ''HEURISTIC'' budget bs
      (upgrade_picks ?v bs ?cs budget cap) = Inr u"
    using assms(3) solve_known [of "''greedy_upgrade''", OF _ ob assms(1)] ob
    by (simp add: SOLVERS_def run_solver_def with_fallback_def solve_greedy_upgrade_def rbind_eq_Inr)
  have g: "build_allocation ''greedy'' ''lca_carbon'' ''HEURISTIC'' budget bs
      (greedy_picks ?v bs ?cs budget cap) = Inr g"
    using assms(4) solve_known [of "''greedy''", OF _ ob assms(1)] ob
    by (simp add: SOLVERS_def run_solver_def with_fallback_def solve_greedy_def rbind_eq_Inr)
  show ?thesis
    unfolding total_benefit_kgco2e_def
    by (rule upgrade.benefit_never_below_baseline [OF assms(1) kept_consistent [OF assms(2)]
          build_allocation_Inr(1) [OF u] build_allocation_Inr(1) [OF g]])
qed

lemma greedy_runs:
  "solve exhaustive_search sample_candidates sample_buildings (Fin 41) ''greedy_upgrade'' ''lca_carbon''
     None True = Inr (sample_run\<lparr>alloc_solver := ''greedy_upgrade'', alloc_budget_egp := 41,
                                 alloc_status := ''HEURISTIC''\<rparr>)"
  "\<exists>g. solve exhaustive_search sample_candidates sample_buildings (Fin 41) ''greedy'' ''lca_carbon''
     None True = Inr g \<and> total_benefit_kgco2e g = 80"
  by code_simp (rule exI, rule conjI, code_simp, simp add: total_benefit_kgco2e_def)

theorem greedy_upgrade_at_least_greedy_witness:
  "80 \<le> total_benefit_kgco2e (sample_run\<lparr>alloc_solver := ''greedy_upgrade'', alloc_budget_egp := 41,
                                 alloc_status := ''HEURISTIC''\<rparr>)"
  using greedy_upgrade_at_least_greedy [OF _ sample_ok(1) greedy_runs(1)] greedy_runs(2) by fastforce

lemma rmapM_tagged:
  assumes "\<And>n. n \<in> set ns \<Longrightarrow> \<exists>a. f n = Inr a"
  shows "\<exists>rs. rmapM (\<lambda>n. rbind (f n) (\<lambda>a. Inr (n, a))) ns = Inr rs \<and> map fst rs = ns \<and>
           list_all (\<lambda>(n, a). f n = Inr a) rs"
  using assms
proof (induction ns)
  case (Cons n ns)
  then obtain a where "f n = Inr a" by auto
  with Cons show ?case by fastforce
qed simp

text \<open>
  A comparison is complete and fair: it returns one allocation per registered
  solver, in the registry's order, and each is what \<open>solve\<close> returns for that solver on
  the same portfolio, budget, objective, cap and pruning.
\<close>
theorem compare_complete:
  assumes "cpsat_contract cpsat" and "objective \<in> set (map fst OBJECTIVES)" and "0 \<le> budget"
    and "consistent_districts cs" and "distinct (map bld_id bs)" and "known_buildings bs cs"
  shows "\<exists>rs. compare cpsat cs bs (Fin budget) objective cap prune = Inr rs \<and>
           map fst rs = SOLVERS \<and>
           list_all (\<lambda>(n, a). solve cpsat cs bs (Fin budget) n objective cap prune = Inr a) rs"
proof -
  obtain v where v: "objective_fn objective = Inr v" using assms(2) objective_fn_known by blast
  show ?thesis
    unfolding compare_def
    by (rule rmapM_tagged) (rule solve_total [OF assms(1) _ v assms(3-6)])
qed

theorem compare_complete_witness:
  "\<exists>rs. compare exhaustive_search sample_candidates sample_buildings (Fin 41) ''egp_saved'' None False
           = Inr rs \<and> map fst rs = SOLVERS \<and>
     list_all (\<lambda>(n, a). solve exhaustive_search sample_candidates sample_buildings (Fin 41) n
                          ''egp_saved'' None False = Inr a) rs"
  by (rule compare_complete [OF exhaustive_search_contract _ _ sample_ok(1-3)])
     (simp_all add: OBJECTIVES_def)

text \<open>
  The improvement on the hour-matched objective is the improvement on the flat one.
  The items of an allocation do not carry the hour-matched benefit, so rebuilding
  candidates from them fills it in from the flat benefit, and the two reports agree
  on every pair of allocations whatever the optimiser maximised.
\<close>
theorem improvement_ignores_tou:
  "improvement_pct res baseline ''tou_carbon'' = improvement_pct res baseline ''lca_carbon''"
proof -
  have "rbind (as_candidate i) (\<lambda>c. Inr (cand_lifetime_tou_benefit c)) =
        rbind (as_candidate i) (\<lambda>c. Inr (cand_lifetime_benefit c))" for i
    by (simp add: as_candidate_def mk_candidate_def)
  then show ?thesis
    by (simp add: improvement_pct_def objective_fn_def OBJECTIVES_def items_value_def)
qed

definition tied_candidates :: "candidate list" where
  "tied_candidates =
     [sample_option ''a2'' ''a'' ''Dokki'' 20 40, sample_option ''a1'' ''a'' ''Dokki'' 10 20]"

text \<open>
  Pruning is not neutral for the density heuristic. With two options of equal
  density at one building, pruning reorders them cheapest first and the greedy pass
  takes the cheaper one, where without pruning it takes the dearer, more valuable one.
\<close>
theorem prune_changes_greedy:
  "rbind (solve exhaustive_search tied_candidates sample_buildings (Fin 20) ''greedy'' ''lca_carbon''
            None True) (\<lambda>a. Inr (total_benefit_kgco2e a)) = Inr 20 \<and>
   rbind (solve exhaustive_search tied_candidates sample_buildings (Fin 20) ''greedy'' ''lca_carbon''
            None False) (\<lambda>a. Inr (total_benefit_kgco2e a)) = Inr 40"
  by code_simp

end
