(* ===== verification/Text.thy ===== *)
theory Text
  imports Prelude "HOL-Library.Sublist"
begin

text \<open>
  Text as the code handles it: decimal numbers, hexadecimal bytes, white space, case and
  splitting. Characters are code points up to 255, and a byte string is a list of
  characters too.
\<close>

type_synonym bytes = string

section \<open>Decimal numbers\<close>

definition digit :: "nat \<Rightarrow> char" where
  "digit n = char_of (48 + n)"

fun nat_digits :: "nat \<Rightarrow> string" where
  "nat_digits n = (if n < 10 then [digit n] else nat_digits (n div 10) @ [digit (n mod 10)])"

declare nat_digits.simps [simp del]

definition show_int :: "int \<Rightarrow> string" where
  "show_int i = (if i < 0 then CHR ''-'' # nat_digits (nat (- i)) else nat_digits (nat i))"

definition undigit :: "char \<Rightarrow> nat" where
  "undigit c = of_char c - 48"

lemma undigit_digit [simp]: "n < 10 \<Longrightarrow> undigit (digit n) = n"
  by (simp add: undigit_def digit_def of_char_of)

definition read_nat :: "string \<Rightarrow> nat" where
  "read_nat = foldl (\<lambda>n c. n * 10 + undigit c) 0"

lemma read_nat_digits [simp]: "read_nat (nat_digits n) = n"
proof (induction n rule: nat_digits.induct)
  case (1 n)
  show ?case
  proof (cases "n < 10")
    case True
    then show ?thesis by (simp add: nat_digits.simps [of n] read_nat_def)
  next
    case False
    then have "foldl (\<lambda>n c. n * 10 + undigit c) 0 (nat_digits (n div 10)) = n div 10"
      using 1 by (simp add: read_nat_def)
    then show ?thesis using False by (simp add: nat_digits.simps [of n] read_nat_def)
  qed
qed

definition is_digit :: "char \<Rightarrow> bool" where
  "is_digit c = (48 \<le> (of_char c :: nat) \<and> (of_char c :: nat) \<le> 57)"

lemma is_digit_digit [simp]: "n < 10 \<Longrightarrow> is_digit (digit n)"
  by (simp add: is_digit_def digit_def of_char_of)

lemma nat_digits_all: "c \<in> set (nat_digits n) \<Longrightarrow> is_digit c"
proof (induction n rule: nat_digits.induct)
  case (1 n)
  show ?case
  proof (cases "n < 10")
    case True
    then show ?thesis using "1.prems" by (simp add: nat_digits.simps [of n])
  next
    case False
    then show ?thesis using "1.prems" "1.IH" by (subst (asm) nat_digits.simps) auto
  qed
qed

lemma nat_digits_nonempty [simp]: "nat_digits n \<noteq> []"
  by (subst nat_digits.simps) simp

text \<open>A number ends where the digits end.\<close>

lemma span_unique:
  assumes "xs @ c # us = ys @ d # vs" and "\<forall>x \<in> set xs. P x" and "\<forall>y \<in> set ys. P y"
    and "\<not> P c" and "\<not> P d"
  shows "xs = ys \<and> c # us = d # vs"
proof -
  have "takeWhile P (xs @ c # us) = xs" and "takeWhile P (ys @ d # vs) = ys"
    using assms(2-5) by (simp_all add: takeWhile_append)
  then have "xs = ys" using assms(1) by simp
  then show ?thesis using assms(1) by simp
qed

lemma nat_digits_prefix:
  assumes "nat_digits m @ c # us = nat_digits n @ d # vs" and "\<not> is_digit c" and "\<not> is_digit d"
  shows "m = n \<and> c # us = d # vs"
proof -
  have "nat_digits m = nat_digits n \<and> c # us = d # vs"
    by (rule span_unique [OF assms(1) _ _ assms(2,3)]) (blast intro: nat_digits_all)+
  then show ?thesis using read_nat_digits by metis
qed

lemma minus_not_digit [simp]: "\<not> is_digit (CHR ''-'')"
  by (simp add: is_digit_def)

lemma show_int_prefix:
  assumes "show_int i @ c # us = show_int j @ d # vs" and "\<not> is_digit c" and "\<not> is_digit d"
  shows "i = j \<and> c # us = d # vs"
proof -
  have head: "CHR ''-'' # xs \<noteq> nat_digits n @ ys" for xs n ys
  proof
    assume "CHR ''-'' # xs = nat_digits n @ ys"
    then have "CHR ''-'' \<in> set (nat_digits n)" by (cases "nat_digits n") auto
    then show False using nat_digits_all minus_not_digit by blast
  qed
  show ?thesis
  proof (cases "i < 0"; cases "j < 0")
    assume "i < 0" "j < 0"
    then show ?thesis using assms nat_digits_prefix [of "nat (- i)" c us "nat (- j)" d vs]
      by (auto simp: show_int_def)
  next
    assume "\<not> i < 0" "\<not> j < 0"
    then show ?thesis using assms nat_digits_prefix [of "nat i" c us "nat j" d vs]
      by (auto simp: show_int_def)
  next
    assume "i < 0" "\<not> j < 0"
    then show ?thesis using assms(1) head [of "nat_digits (nat (- i)) @ c # us"]
      by (simp add: show_int_def)
  next
    assume "\<not> i < 0" "j < 0"
    then show ?thesis using assms(1) head [of "nat_digits (nat (- j)) @ d # vs" "nat i" "c # us"]
      by (simp add: show_int_def)
  qed
qed

section \<open>Characters\<close>

lemma of_char_lt_256: "(of_char c :: nat) < 256"
  using nat_of_char_less_256 by simp

lemma char_eqI: "of_char c = (of_char d :: nat) \<Longrightarrow> c = d"
  by (metis char_of_char)

definition is_space :: "char \<Rightarrow> bool" where
  "is_space c = ((of_char c :: nat) \<in> {9, 10, 11, 12, 13, 28, 29, 30, 31, 32, 0x85, 0xA0})"

definition strip :: "string \<Rightarrow> string" where
  "strip s = rev (dropWhile is_space (rev (dropWhile is_space s)))"

definition lower_char :: "char \<Rightarrow> char" where
  "lower_char c =
     (let n = of_char c :: nat
      in if 65 \<le> n \<and> n \<le> 90 \<or> 0xC0 \<le> n \<and> n \<le> 0xDE \<and> n \<noteq> 0xD7 then char_of (n + 32) else c)"

definition lower :: "string \<Rightarrow> string" where
  "lower = map lower_char"

text \<open>\<open>s.split(sep)\<close> with a separator of one character: never empty.\<close>

fun split_on :: "char \<Rightarrow> string \<Rightarrow> string list" where
  "split_on sep [] = [[]]"
| "split_on sep (c # cs) =
     (if c = sep then [] # split_on sep cs
      else case split_on sep cs of
             [] \<Rightarrow> [[c]]
           | w # ws \<Rightarrow> (c # w) # ws)"

lemma split_on_nonempty [simp]: "split_on sep s \<noteq> []"
  by (induction s) (auto split: list.splits)

lemma split_on_no_sep: "sep \<notin> set s \<Longrightarrow> split_on sep s = [s]"
  by (induction s) auto

lemma split_on_append: "sep \<notin> set s \<Longrightarrow> split_on sep (s @ sep # t) = s # split_on sep t"
  by (induction s) auto

text \<open>
  \<open>int(s)\<close> on text: blanks around, a sign, digits with single underscores between them, and
  at most 4300 digits.
\<close>

fun digits_value :: "nat \<Rightarrow> string \<Rightarrow> nat option" where
  "digits_value n [] = Some n"
| "digits_value n (c # cs) =
     (if is_digit c then digits_value (n * 10 + undigit c) cs
      else if c = CHR ''_'' \<and> cs \<noteq> [] \<and> is_digit (hd cs) then digits_value n cs
      else None)"

definition unsigned_value :: "string \<Rightarrow> nat option" where
  "unsigned_value s =
     (if s = [] \<or> \<not> is_digit (hd s) \<or> length (filter is_digit s) > 4300 then None
      else digits_value 0 s)"

definition py_int :: "string \<Rightarrow> int option" where
  "py_int s =
     (case strip s of
        [] \<Rightarrow> None
      | c # cs \<Rightarrow>
          if c = CHR ''-'' then map_option (\<lambda>n. - int n) (unsigned_value cs)
          else if c = CHR ''+'' then map_option int (unsigned_value cs)
          else map_option int (unsigned_value (c # cs)))"

lemma digits_value_digits:
  "\<forall>c \<in> set s. is_digit c \<Longrightarrow> digits_value n s = Some (foldl (\<lambda>n c. n * 10 + undigit c) n s)"
  by (induction s arbitrary: n) auto

lemma digit_not_space: "is_digit c \<Longrightarrow> \<not> is_space c"
  by (auto simp: is_digit_def is_space_def)

lemma dropWhile_none: "\<forall>c \<in> set s. \<not> P c \<Longrightarrow> dropWhile P s = s"
  by (cases s) simp_all

lemma strip_digits: "\<forall>c \<in> set s. \<not> is_space c \<Longrightarrow> strip s = s"
  by (simp add: strip_def dropWhile_none)

lemma py_int_digits:
  assumes "length (nat_digits n) \<le> 4300"
  shows "py_int (nat_digits n) = Some (int n)"
proof -
  have d: "\<forall>c \<in> set (nat_digits n). is_digit c" using nat_digits_all by blast
  then have s: "strip (nat_digits n) = nat_digits n" using digit_not_space strip_digits by blast
  obtain c cs where c: "nat_digits n = c # cs" by (cases "nat_digits n") simp_all
  then have h: "is_digit c" using d by simp
  then have "c \<noteq> CHR ''-''" "c \<noteq> CHR ''+''" by (auto simp: is_digit_def)
  moreover have "unsigned_value (nat_digits n) = Some n"
    using d h c assms digits_value_digits [OF d, of 0] read_nat_digits [of n]
    by (simp add: unsigned_value_def read_nat_def)
  ultimately show ?thesis using s c by (simp add: py_int_def)
qed

section \<open>Hexadecimal bytes\<close>

definition hexdigit :: "nat \<Rightarrow> char" where
  "hexdigit n = (if n < 10 then digit n else char_of (87 + n))"

definition unhex :: "char \<Rightarrow> nat" where
  "unhex c = (if is_digit c then undigit c else of_char c - 87)"

lemma unhex_hexdigit [simp]: "n < 16 \<Longrightarrow> unhex (hexdigit n) = n"
proof (cases "n < 10")
  case True
  then show ?thesis by (simp add: unhex_def hexdigit_def)
next
  case False
  assume "n < 16"
  then show ?thesis using False by (simp add: unhex_def hexdigit_def is_digit_def of_char_of)
qed

definition hex_value :: "char \<Rightarrow> nat option" where
  "hex_value c =
     (let n = of_char c :: nat
      in if 48 \<le> n \<and> n \<le> 57 then Some (n - 48)
         else if 97 \<le> n \<and> n \<le> 102 then Some (n - 87)
         else if 65 \<le> n \<and> n \<le> 70 then Some (n - 55)
         else None)"

text \<open>\<open>bytes.fromhex\<close>: pairs of hexadecimal digits, ASCII blanks between them skipped.\<close>

definition is_ascii_space :: "char \<Rightarrow> bool" where
  "is_ascii_space c = ((of_char c :: nat) \<in> {9, 10, 11, 12, 13, 32})"

fun from_hex :: "string \<Rightarrow> bytes option" where
  "from_hex [] = Some []"
| "from_hex [c] = (if is_ascii_space c then Some [] else None)"
| "from_hex (c # d # cs) =
     (if is_ascii_space c then from_hex (d # cs)
      else case (hex_value c, hex_value d) of
        (Some h, Some l) \<Rightarrow> map_option (\<lambda>bs. char_of (h * 16 + l) # bs) (from_hex cs)
      | _ \<Rightarrow> None)"

text \<open>\<open>b.hex()\<close>.\<close>

definition to_hex :: "bytes \<Rightarrow> string" where
  "to_hex bs = concat (map (\<lambda>b. [hexdigit (of_char b div 16), hexdigit (of_char b mod 16)]) bs)"

lemma hex_value_hexdigit: "n < 16 \<Longrightarrow> hex_value (hexdigit n) = Some n"
  by (cases "n < 10") (auto simp: hex_value_def hexdigit_def digit_def of_char_of Let_def)

lemma hexdigit_not_space: "n < 16 \<Longrightarrow> \<not> is_ascii_space (hexdigit n)"
  by (cases "n < 10") (auto simp: is_ascii_space_def hexdigit_def digit_def of_char_of)

lemma from_hex_to_hex [simp]: "from_hex (to_hex bs) = Some bs"
proof (induction bs)
  case (Cons b bs)
  have "(of_char b :: nat) div 16 < 16"
    by (rule less_mult_imp_div_less) (use of_char_lt_256 [of b] in linarith)
  then have "hex_value (hexdigit (of_char b div 16)) = Some (of_char b div 16)"
    "\<not> is_ascii_space (hexdigit (of_char b div 16))"
    by (simp_all add: hex_value_hexdigit hexdigit_not_space)
  moreover have "hex_value (hexdigit (of_char b mod 16)) = Some (of_char b mod 16)"
    by (simp add: hex_value_hexdigit)
  ultimately show ?case using Cons by (simp add: to_hex_def)
qed (simp add: to_hex_def)

lemma to_hex_chars: "c \<in> set (to_hex bs) \<Longrightarrow> \<exists>n < 16. c = hexdigit n"
proof -
  assume "c \<in> set (to_hex bs)"
  then obtain b where "c = hexdigit (of_char b div 16) \<or> c = hexdigit (of_char b mod 16)"
    by (auto simp: to_hex_def)
  moreover have "(of_char b :: nat) div 16 < 16"
    by (rule less_mult_imp_div_less) (use of_char_lt_256 [of b] in linarith)
  moreover have "(of_char b :: nat) mod 16 < 16" by simp
  ultimately show ?thesis by blast
qed

section \<open>Substrings and numbers with a fraction\<close>

text \<open>\<open>s.partition(sep)\<close> where \<open>sep\<close> occurs: what precedes its first occurrence and what follows.\<close>

fun partition_at :: "string \<Rightarrow> string \<Rightarrow> (string \<times> string) option" where
  "partition_at sep [] = (if sep = [] then Some ([], []) else None)"
| "partition_at sep (c # cs) =
     (if prefix sep (c # cs) then Some ([], drop (length sep) (c # cs))
      else map_option (\<lambda>(a, b). (c # a, b)) (partition_at sep cs))"

text \<open>\<open>sep in s\<close>.\<close>

definition has_substring :: "string \<Rightarrow> string \<Rightarrow> bool" where
  "has_substring sep s = (partition_at sep s \<noteq> None)"

lemma partition_at_Some: "partition_at sep s = Some (a, b) \<Longrightarrow> s = a @ sep @ b"
  by (induction sep s arbitrary: a b rule: partition_at.induct)
     (auto simp: prefix_def split: if_splits)

text \<open>
  \<open>float(s)\<close> on text: blanks around, a sign, single underscores between digits, then a decimal
  number with an optional fraction and exponent, or a name of an infinity or of the
  non-number. The value is exact: neither rounding nor overflow to infinity is modelled.
\<close>

fun drop_underscores :: "bool \<Rightarrow> string \<Rightarrow> string option" where
  "drop_underscores after_digit [] = Some []"
| "drop_underscores after_digit (c # cs) =
     (if c = CHR ''_'' then
        (if after_digit \<and> cs \<noteq> [] \<and> is_digit (hd cs) then drop_underscores False cs else None)
      else map_option ((#) c) (drop_underscores (is_digit c) cs))"

definition exponent_value :: "string \<Rightarrow> int option" where
  "exponent_value s =
     (if s = [] then Some 0
      else if hd s \<notin> {CHR ''e'', CHR ''E''} then None
      else
        let (sign, ds) =
          (case tl s of
             [] \<Rightarrow> (1, [])
           | c # cs \<Rightarrow> if c = CHR ''-'' then (- 1, cs) else if c = CHR ''+'' then (1, cs) else (1, c # cs))
        in if ds = [] \<or> \<not> list_all is_digit ds then None else Some (sign * int (read_nat ds)))"

definition scale10 :: "rat \<Rightarrow> int \<Rightarrow> rat" where
  "scale10 m e = (if 0 \<le> e then m * 10 ^ nat e else m / 10 ^ nat (- e))"

definition decimal_value :: "string \<Rightarrow> rat option" where
  "decimal_value s =
     (let whole = takeWhile is_digit s; r = dropWhile is_digit s;
          has_point = (r \<noteq> [] \<and> hd r = CHR ''.'');
          part = (if has_point then takeWhile is_digit (tl r) else []);
          rest = (if has_point then dropWhile is_digit (tl r) else r)
      in if whole @ part = [] then None
         else map_option (\<lambda>e. scale10 (of_nat (read_nat (whole @ part))) (e - int (length part)))
                (exponent_value rest))"

definition float_neg :: "pyfloat \<Rightarrow> pyfloat" where
  "float_neg x = (case x of Fin r \<Rightarrow> Fin (- r) | PosInf \<Rightarrow> NegInf | NegInf \<Rightarrow> PosInf | NaN \<Rightarrow> NaN)"

definition unsigned_float :: "string \<Rightarrow> pyfloat option" where
  "unsigned_float s =
     (if lower s \<in> {''inf'', ''infinity''} then Some PosInf
      else if lower s = ''nan'' then Some NaN
      else map_option Fin (decimal_value s))"

definition py_float :: "string \<Rightarrow> pyfloat option" where
  "py_float s =
     (case drop_underscores False (strip s) of
        None \<Rightarrow> None
      | Some [] \<Rightarrow> None
      | Some (c # cs) \<Rightarrow>
          if c = CHR ''-'' then map_option float_neg (unsigned_float cs)
          else if c = CHR ''+'' then unsigned_float cs
          else unsigned_float (c # cs))"

end
