(* ===== verification/Catalog.thy ===== *)
theory Catalog
  imports Models Text
begin

text \<open>
  The data contract of \<open>src/gemp/domain/catalog.py\<close>: the physics parameters with the checks
  their constructors make, the condition multipliers with their bucket expressions, the
  \<open>applies_if\<close> conditions of a catalog row, the loaders' own checks and the cross-validation
  of the two files.

  A value of \<open>getattr(building, name)\<close> is one of five kinds. The names are the declared fields
  and the properties of \<open>Building\<close>; a name that the base class of pydantic brings along is not
  one of them. The text of a float (\<open>str(x)\<close>) is the parameter \<open>fr\<close>. Reading YAML and CSV is left
  out: the loaders start from the typed values.
\<close>

section \<open>Parameters\<close>

definition SHARE_TOLERANCE :: rat where
  "SHARE_TOLERANCE = 1 / 1000000"

definition TOU_HOURS :: nat where
  "TOU_HOURS = 24"

record solar_params =
  sol_usable_roof_frac :: rat
  sol_m2_per_kwp :: rat
  sol_yield_kwh_per_kwp :: rat
  sol_orientation_factor :: "(string \<times> rat) list"
  sol_soiling_loss :: rat
  sol_self_consumption_cap :: rat
  sol_fixed_egp :: rat
  sol_egp_per_kwp :: rat

record params =
  par_horizon_yr :: int
  par_grid_emission_factor :: rat
  par_discount_rate :: rat
  par_tariff :: rat
  par_anomaly_k :: rat
  par_anomaly_window_days :: int
  par_end_use_share :: "(string \<times> (string \<times> rat) list) list"
  par_adj :: "(string \<times> (string \<times> (string \<times> rat) list) list) list"
  par_solar :: solar_params
  par_max_bundle_size :: int
  par_cap_total_saving_frac :: rat
  par_max_funded_per_district :: "int option"
  par_max_building_saving_frac :: rat
  par_tou :: "rat list option"

definition has_tou :: "params \<Rightarrow> bool" where
  "has_tou p = (par_tou p \<noteq> None)"

definition check :: "bool \<Rightarrow> string \<Rightarrow> unit result" where
  "check ok what = (if ok then Inr () else Inl (ValueError what))"

fun rall_checks :: "unit result list \<Rightarrow> unit result" where
  "rall_checks [] = Inr ()"
| "rall_checks (c # cs) = rbind c (\<lambda>_. rall_checks cs)"

definition validate_solar :: "solar_params \<Rightarrow> unit result" where
  "validate_solar s = rall_checks
     [check (0 < sol_usable_roof_frac s \<and> sol_usable_roof_frac s \<le> 1) ''usable_roof_frac'',
      check (0 < sol_m2_per_kwp s) ''m2_per_kwp'',
      check (0 < sol_yield_kwh_per_kwp s) ''yield_kwh_per_kwp'',
      check (0 \<le> sol_soiling_loss s \<and> sol_soiling_loss s < 1) ''soiling_loss'',
      check (0 < sol_self_consumption_cap s \<and> sol_self_consumption_cap s \<le> 1) ''self_consumption_cap'',
      check (0 \<le> sol_fixed_egp s) ''solar_fixed_egp'',
      check (0 < sol_egp_per_kwp s) ''solar_egp_per_kwp'']"

definition validate_bundling :: "params \<Rightarrow> unit result" where
  "validate_bundling p = rall_checks
     [check (1 \<le> par_max_bundle_size p \<and> par_max_bundle_size p \<le> 5) ''max_bundle_size'',
      check (0 < par_cap_total_saving_frac p \<and> par_cap_total_saving_frac p \<le> 1)
        ''cap_total_saving_frac'']"

definition validate_guards :: "params \<Rightarrow> unit result" where
  "validate_guards p =
     check (0 < par_max_building_saving_frac p \<and> par_max_building_saving_frac p \<le> 1)
       ''max_building_saving_frac''"

definition profile_is_a_real_day :: "rat list \<Rightarrow> unit result" where
  "profile_is_a_real_day profile = rall_checks
     [check (length profile = TOU_HOURS) ''tou.profile length'',
      check (list_all (\<lambda>v. 0 < v) profile) ''tou.profile entries'']"

definition shares_ok :: "(string \<times> rat) list \<Rightarrow> unit result" where
  "shares_ok shares = rall_checks
     (check (\<bar>sum_list (map snd shares) - 1\<bar> \<le> SHARE_TOLERANCE) ''end_use_share sum'' #
      map (\<lambda>(use, f). check (0 \<le> f \<and> f \<le> 1) ''end_use_share range'') shares)"

definition shares_sum_to_one :: "params \<Rightarrow> unit result" where
  "shares_sum_to_one p = rall_checks (map (\<lambda>(occ, shares). shares_ok shares) (par_end_use_share p))"

definition validate_params :: "params \<Rightarrow> params result" where
  "validate_params p = rbind (rall_checks
     [check (0 < par_horizon_yr p) ''horizon_yr'',
      check (0 < par_grid_emission_factor p) ''grid_emission_factor'',
      check (0 \<le> par_discount_rate p \<and> par_discount_rate p < 1) ''discount_rate'',
      check (0 < par_tariff p) ''electricity_tariff_egp_per_kwh'',
      check (0 < par_anomaly_k p) ''anomaly_k'',
      check (0 < par_anomaly_window_days p) ''anomaly_window_days'',
      validate_solar (par_solar p), validate_bundling p, validate_guards p,
      (case par_tou p of None \<Rightarrow> Inr () | Some profile \<Rightarrow> profile_is_a_real_day profile),
      shares_sum_to_one p]) (\<lambda>_. Inr p)"

definition share :: "params \<Rightarrow> string \<Rightarrow> string \<Rightarrow> rat result" where
  "share p occupancy end_use =
     (case map_of (par_end_use_share p) occupancy of
        None \<Rightarrow> Inl (KeyError ''end_use_share'')
      | Some shares \<Rightarrow>
          (case map_of shares end_use of
             None \<Rightarrow> Inl (KeyError ''end_use_share'')
           | Some f \<Rightarrow> Inr f))"

section \<open>Values of a building's fields\<close>

datatype field_value = F_Str string | F_Num rat | F_Int int | F_Bool bool | F_Seq "rat list"

definition building_attrs :: "building \<Rightarrow> (string \<times> field_value) list" where
  "building_attrs b =
     [(''id'', F_Str (bld_id b)), (''code'', F_Str (bld_code b)), (''name'', F_Str (bld_name b)),
      (''district'', F_Str (bld_district b)), (''lat'', F_Num (bld_lat b)),
      (''lon'', F_Num (bld_lon b)), (''floor_area_m2'', F_Num (bld_floor_area_m2 b)),
      (''roof_area_m2'', F_Num (bld_roof_area_m2 b)),
      (''glazing_area_m2'', F_Num (bld_glazing_area_m2 b)),
      (''roof_orientation'', F_Str (bld_roof_orientation b)),
      (''hvac_type'', F_Str (bld_hvac_type b)), (''hvac_age_yr'', F_Int (bld_hvac_age_yr b)),
      (''insulation_quality'', F_Str (bld_insulation_quality b)),
      (''occupancy_pattern'', F_Str (bld_occupancy_pattern b)),
      (''annual_kwh'', F_Num (bld_annual_kwh b)), (''hourly_shape'', F_Seq (bld_hourly_shape b)),
      (''has_measured_shape'', F_Bool (has_measured_shape b)),
      (''glazing_ratio'', F_Num (glazing_ratio b)), (''kwh_per_m2'', F_Num (kwh_per_m2 b))]"

definition building_attr :: "building \<Rightarrow> string \<Rightarrow> field_value option" where
  "building_attr b name = map_of (building_attrs b) name"

definition building_field :: "building \<Rightarrow> string \<Rightarrow> field_value result" where
  "building_field b name =
     (case building_attr b name of
        None \<Rightarrow> Inl (ValueError ''not a Building field'')
      | Some v \<Rightarrow> Inr v)"

definition number_of :: "field_value \<Rightarrow> rat result" where
  "number_of v =
     (case v of
        F_Num r \<Rightarrow> Inr r
      | F_Int i \<Rightarrow> Inr (of_int i)
      | F_Bool t \<Rightarrow> Inr (if t then 1 else 0)
      | _ \<Rightarrow> Inl (TypeError ''not a number''))"

fun join_with :: "string \<Rightarrow> string list \<Rightarrow> string" where
  "join_with sep [] = []"
| "join_with sep [w] = w"
| "join_with sep (w # v # ws) = w @ sep @ join_with sep (v # ws)"

definition show_value :: "(rat \<Rightarrow> string) \<Rightarrow> field_value \<Rightarrow> string" where
  "show_value fr v =
     (case v of
        F_Str s \<Rightarrow> s
      | F_Num r \<Rightarrow> fr r
      | F_Int i \<Rightarrow> show_int i
      | F_Bool t \<Rightarrow> (if t then ''True'' else ''False'')
      | F_Seq rs \<Rightarrow> ''('' @ join_with '', '' (map fr rs) @ '')'')"

definition read_float :: "string \<Rightarrow> pyfloat result" where
  "read_float s =
     (case py_float s of None \<Rightarrow> Inl (ValueError ''could not convert string to float'') | Some x \<Rightarrow> Inr x)"

definition float_compare :: "string \<Rightarrow> pyfloat \<Rightarrow> pyfloat \<Rightarrow> bool" where
  "float_compare cmp x y =
     (if cmp = ''>='' then float_le y x
      else if cmp = ''<='' then float_le x y
      else if cmp = ''>'' then float_lt y x
      else if cmp = ''<'' then float_lt x y
      else if cmp = ''=='' then float_eq x y
      else \<not> float_eq x y)"

section \<open>Condition multipliers\<close>

definition BUCKET_OPS :: "string list" where
  "BUCKET_OPS = [''>='', ''<='', ''>'', ''<'', ''=='']"

definition numeric_bucket_matches :: "string \<Rightarrow> rat \<Rightarrow> bool result" where
  "numeric_bucket_matches raw value =
     (let key = strip raw
      in case find (\<lambda>cmp. prefix cmp key) BUCKET_OPS of
           Some cmp \<Rightarrow>
             rbind (read_float (drop (length cmp) key)) (\<lambda>bound. Inr (float_compare cmp (Fin value) bound))
         | None \<Rightarrow>
             (case partition_at ''-'' key of
                Some (low, high) \<Rightarrow>
                  rbind (read_float low) (\<lambda>l. rbind (read_float high) (\<lambda>h.
                    Inr (float_le l (Fin value) \<and> float_le (Fin value) h)))
              | None \<Rightarrow> rbind (read_float key) (\<lambda>x. Inr (float_eq (Fin value) x))))"

fun first_bucket :: "(string \<times> rat) list \<Rightarrow> rat \<Rightarrow> rat result" where
  "first_bucket [] value = Inl (KeyError ''no bucket matches'')"
| "first_bucket ((key, factor) # buckets) value =
     rbind (numeric_bucket_matches key value)
       (\<lambda>hit. if hit then Inr factor else first_bucket buckets value)"

definition match_bucket :: "(string \<times> rat) list \<Rightarrow> field_value \<Rightarrow> rat result" where
  "match_bucket buckets value =
     (case value of
        F_Str s \<Rightarrow>
          (case map_of buckets s of None \<Rightarrow> Inl (KeyError ''no bucket matches'') | Some f \<Rightarrow> Inr f)
      | _ \<Rightarrow> rbind (number_of value) (first_bucket buckets))"

fun adj_product :: "(string \<times> (string \<times> rat) list) list \<Rightarrow> building \<Rightarrow> rat \<Rightarrow> rat result" where
  "adj_product [] b multiplier = Inr multiplier"
| "adj_product ((field, buckets) # rules) b multiplier =
     (case building_attr b field of
        None \<Rightarrow> Inl (KeyError ''no such building field'')
      | Some value \<Rightarrow>
          rbind (match_bucket buckets value) (\<lambda>f. adj_product rules b (multiplier * f)))"

definition adj_multiplier :: "params \<Rightarrow> string \<Rightarrow> building \<Rightarrow> rat result" where
  "adj_multiplier p adj_key b =
     (if adj_key = [] then Inr 1
      else case map_of (par_adj p) adj_key of
             None \<Rightarrow> Inl (KeyError ''no such adj block'')
           | Some rules \<Rightarrow> adj_product rules b 1)"

section \<open>Applicability\<close>

definition CONDITION_OPS :: "string list" where
  "CONDITION_OPS = [''>='', ''<='', ''!='', ''=='', ''>'', ''<'']"

definition condition_holds :: "(rat \<Rightarrow> string) \<Rightarrow> string \<Rightarrow> building \<Rightarrow> bool result" where
  "condition_holds fr cond b =
     (case partition_at '' in '' cond of
        Some (field, raw) \<Rightarrow>
          rbind (building_field b (strip field))
            (\<lambda>value. Inr (show_value fr value \<in> set (map strip (split_on (CHR ''|'') raw))))
      | None \<Rightarrow>
          (case find (\<lambda>cmp. has_substring cmp cond) CONDITION_OPS of
             None \<Rightarrow> Inl (ValueError ''cannot parse applies_if condition'')
           | Some cmp \<Rightarrow>
               (case partition_at cmp cond of
                  None \<Rightarrow> Inl (ValueError ''cannot parse applies_if condition'')
                | Some (field, raw) \<Rightarrow>
                    rbind (building_field b (strip field)) (\<lambda>value.
                      rbind (read_float (strip raw)) (\<lambda>bound.
                        rbind (number_of value) (\<lambda>x. Inr (float_compare cmp (Fin x) bound)))))))"

fun rall :: "('a \<Rightarrow> bool result) \<Rightarrow> 'a list \<Rightarrow> bool result" where
  "rall f [] = Inr True"
| "rall f (x # xs) = rbind (f x) (\<lambda>ok. if ok then rall f xs else Inr False)"

definition applies :: "(rat \<Rightarrow> string) \<Rightarrow> intervention \<Rightarrow> building \<Rightarrow> bool result" where
  "applies fr iv b =
     (let rule = strip (iv_applies_if iv)
      in if rule = [] then Inr True
         else rall (\<lambda>part. condition_holds fr (strip part) b)
                (filter (\<lambda>part. strip part \<noteq> []) (split_on (CHR '';'') rule)))"

section \<open>Loading and cross-validating the two files\<close>

text \<open>
  \<open>load_params\<close> refuses a top-level key that looks like a misspelt \<open>tou\<close> before the values
  are validated; \<open>load_catalog\<close> refuses an empty catalogue and a repeated id.
\<close>

definition stray_tou_keys :: "string list \<Rightarrow> string list" where
  "stray_tou_keys keys = filter (\<lambda>k. prefix ''tou'' (lower k) \<and> k \<noteq> ''tou'') keys"

definition load_params :: "string list \<Rightarrow> params \<Rightarrow> params result" where
  "load_params keys p =
     (if stray_tou_keys keys \<noteq> [] then Inl (ValueError ''keys resembling tou'')
      else validate_params p)"

definition load_catalog :: "intervention list \<Rightarrow> intervention list result" where
  "load_catalog rows =
     (if rows = [] then Inl (ValueError ''no intervention rows'')
      else rbind (rmapM validate_intervention rows) (\<lambda>catalog.
        if \<not> distinct (map iv_id catalog) then Inl (ValueError ''duplicate intervention ids'')
        else Inr catalog))"

datatype contract_problem =
    No_Adj_Block string string
  | No_Share string string string
  | No_Orientation string

definition intervention_problems :: "params \<Rightarrow> intervention \<Rightarrow> contract_problem list" where
  "intervention_problems p iv =
     (if iv_adj_key iv \<noteq> [] \<and> map_of (par_adj p) (iv_adj_key iv) = None
        then [No_Adj_Block (iv_id iv) (iv_adj_key iv)] else []) @
     (if is_generation iv then []
      else map (\<lambda>(occ, shares). No_Share (iv_id iv) (iv_end_use iv) occ)
             (filter (\<lambda>(occ, shares). map_of shares (iv_end_use iv) = None) (par_end_use_share p)))"

definition cross_validate :: "intervention list \<Rightarrow> params \<Rightarrow> contract_problem list" where
  "cross_validate catalog p =
     concat (map (intervention_problems p) catalog) @
     map No_Orientation
       (filter (\<lambda>o'. map_of (sol_orientation_factor (par_solar p)) o' = None) ORIENTATIONS)"

text \<open>
  \<open>needs_citation\<close>: the source does the comparison in upper case; the only characters whose
  upper case is one of T, O and D are those letters in either case.
\<close>

definition needs_citation :: "intervention \<Rightarrow> bool" where
  "needs_citation iv = prefix ''todo'' (lower (strip (iv_source_ref iv)))"

text \<open>The exit status of the command line check, given what the two loaders return.\<close>

definition validate_exit :: "bool \<Rightarrow> params result \<Rightarrow> intervention list result \<Rightarrow> nat" where
  "validate_exit strict loaded_params loaded_catalog =
     (case loaded_params of
        Inl _ \<Rightarrow> 1
      | Inr p \<Rightarrow>
          (case loaded_catalog of
             Inl _ \<Rightarrow> 1
           | Inr catalog \<Rightarrow>
               (if cross_validate catalog p \<noteq> [] \<or> list_ex needs_citation catalog \<and> strict
                then 1 else 0)))"

section \<open>Lemmas\<close>

lemma check_ok [simp]: "check ok what = Inr u \<longleftrightarrow> ok"
  by (simp add: check_def)

lemma rall_checks_ok [simp]: "rall_checks cs = Inr u \<longleftrightarrow> (\<forall>c \<in> set cs. c = Inr ())"
  by (induction cs) (auto simp: result_simps)

declare rall_checks.simps [simp del]

lemma validate_params_ok:
  assumes "validate_params p = Inr q"
  shows "q = p" and "0 < par_horizon_yr p" and "0 < par_grid_emission_factor p"
    and "0 \<le> par_discount_rate p" and "par_discount_rate p < 1" and "0 < par_tariff p"
    and "validate_solar (par_solar p) = Inr ()" and "1 \<le> par_max_bundle_size p"
    and "0 < par_cap_total_saving_frac p" and "par_cap_total_saving_frac p \<le> 1"
    and "0 < par_max_building_saving_frac p" and "par_max_building_saving_frac p \<le> 1"
    and "shares_sum_to_one p = Inr ()"
    and "\<And>profile. par_tou p = Some profile \<Longrightarrow> length profile = TOU_HOURS \<and> (\<forall>v \<in> set profile. 0 < v)"
  using assms
  by (auto simp: validate_params_def validate_bundling_def validate_guards_def
      profile_is_a_real_day_def list_all_iff result_simps split: option.splits)

lemma solar_ok:
  assumes "validate_solar s = Inr ()"
  shows "0 < sol_usable_roof_frac s" and "0 < sol_m2_per_kwp s" and "0 < sol_yield_kwh_per_kwp s"
    and "0 \<le> sol_soiling_loss s" and "sol_soiling_loss s < 1" and "0 < sol_self_consumption_cap s"
    and "sol_self_consumption_cap s \<le> 1" and "0 \<le> sol_fixed_egp s" and "0 < sol_egp_per_kwp s"
  using assms by (simp_all add: validate_solar_def)

lemma shares_range:
  assumes "shares_sum_to_one p = Inr ()" and "map_of (par_end_use_share p) occ = Some shares"
  shows "\<forall>(use, f) \<in> set shares. 0 \<le> f \<and> f \<le> 1" and "\<bar>sum_list (map snd shares) - 1\<bar> \<le> SHARE_TOLERANCE"
proof -
  have "shares_ok shares = Inr ()"
    using assms(1) map_of_SomeD [OF assms(2)]
    by (auto simp: shares_sum_to_one_def dest!: bspec [of _ _ "(occ, shares)"])
  then show "\<forall>(use, f) \<in> set shares. 0 \<le> f \<and> f \<le> 1"
    and "\<bar>sum_list (map snd shares) - 1\<bar> \<le> SHARE_TOLERANCE"
    by (auto simp: shares_ok_def split_beta)
qed

lemma share_range:
  assumes "shares_sum_to_one p = Inr ()" and "share p occ use = Inr f"
  shows "0 \<le> f" and "f \<le> 1"
proof -
  obtain shares where s: "map_of (par_end_use_share p) occ = Some shares" "map_of shares use = Some f"
    using assms(2) by (auto simp: share_def split: option.splits)
  show "0 \<le> f" and "f \<le> 1"
    using shares_range(1) [OF assms(1) s(1)] map_of_SomeD [OF s(2)] by auto
qed

lemma validate_intervention_ok:
  assumes "validate_intervention iv = Inr iv'"
  shows "iv' = iv" and "0 \<le> iv_cost_value iv" and "0 \<le> iv_saving_frac iv" and "iv_saving_frac iv \<le> 1"
    and "0 < iv_service_life_yr iv" and "0 \<le> iv_embodied_value iv"
    and "iv_end_use iv \<in> set END_USES" and "iv_cost_type iv \<in> set COST_TYPES"
    and "iv_embodied_type iv \<in> set EMBODIED_TYPES" and "is_generation iv \<longleftrightarrow> iv_cost_type iv = ''solar''"
  using assms
  by (auto simp: validate_intervention_def check_generation_consistency_def not_less not_le
      split: if_splits)

lemma cross_validate_clean:
  assumes "cross_validate catalog p = []"
  shows "\<And>o'. o' \<in> set ORIENTATIONS \<Longrightarrow> \<exists>f. map_of (sol_orientation_factor (par_solar p)) o' = Some f"
    and "\<And>iv. iv \<in> set catalog \<Longrightarrow> iv_adj_key iv \<noteq> [] \<Longrightarrow> \<exists>r. map_of (par_adj p) (iv_adj_key iv) = Some r"
    and "\<And>iv occ shares. iv \<in> set catalog \<Longrightarrow> \<not> is_generation iv \<Longrightarrow>
           map_of (par_end_use_share p) occ = Some shares \<Longrightarrow> \<exists>f. share p occ (iv_end_use iv) = Inr f"
proof -
  have ivs: "intervention_problems p iv = []" if "iv \<in> set catalog" for iv
    using assms that by (simp add: cross_validate_def)
  have "filter (\<lambda>o'. map_of (sol_orientation_factor (par_solar p)) o' = None) ORIENTATIONS = []"
    using assms by (simp add: cross_validate_def del: filter_empty_conv)
  then show "\<exists>f. map_of (sol_orientation_factor (par_solar p)) o' = Some f"
    if "o' \<in> set ORIENTATIONS" for o' using that by (auto simp: filter_empty_conv)
  show "\<exists>r. map_of (par_adj p) (iv_adj_key iv) = Some r"
    if "iv \<in> set catalog" "iv_adj_key iv \<noteq> []" for iv
    using ivs [OF that(1)] that(2) by (auto simp: intervention_problems_def split: if_splits)
  show "\<exists>f. share p occ (iv_end_use iv) = Inr f"
    if "iv \<in> set catalog" "\<not> is_generation iv" "map_of (par_end_use_share p) occ = Some shares"
    for iv occ shares
  proof -
    have "(occ, shares) \<in> set (par_end_use_share p)" using that(3) by (rule map_of_SomeD)
    then have "map_of shares (iv_end_use iv) \<noteq> None"
      using ivs [OF that(1)] that(2)
      by (auto simp: intervention_problems_def filter_empty_conv split: if_splits)
    then show ?thesis using that(3) by (auto simp: share_def)
  qed
qed

end
