(* ===== verification/Shipped.thy ===== *)
theory Shipped
  imports Catalog
begin

text \<open>
  The two data files of the repository, \<open>data/params.yaml\<close> and \<open>data/catalog.csv\<close>, as values of the
  model (citations and notes shortened), and a sample building. They pass every check of the
  loaders, and serve as the concrete inputs of the development.
\<close>

definition shipped_profile :: "rat list" where
  "shipped_profile =
     [298 / 1000, 283 / 1000, 276 / 1000, 276 / 1000, 283 / 1000, 298 / 1000,
      314 / 1000, 343 / 1000, 373 / 1000, 388 / 1000, 396 / 1000, 402 / 1000,
      410 / 1000, 418 / 1000, 433 / 1000, 447 / 1000, 470 / 1000, 492 / 1000,
      507 / 1000, 485 / 1000, 447 / 1000, 410 / 1000, 358 / 1000, 320 / 1000]"

definition shipped_shares :: "(string \<times> (string \<times> rat) list) list" where
  "shipped_shares =
     [(''office'', [(''hvac'', 55 / 100), (''lighting'', 15 / 100), (''plug'', 25 / 100), (''other'', 5 / 100)]),
      (''school'', [(''hvac'', 45 / 100), (''lighting'', 22 / 100), (''plug'', 28 / 100), (''other'', 5 / 100)]),
      (''clinic'', [(''hvac'', 50 / 100), (''lighting'', 18 / 100), (''plug'', 27 / 100), (''other'', 5 / 100)]),
      (''admin_24x7'', [(''hvac'', 60 / 100), (''lighting'', 20 / 100), (''plug'', 17 / 100), (''other'', 3 / 100)])]"

definition age_buckets :: "rat \<Rightarrow> rat \<Rightarrow> (string \<times> rat) list" where
  "age_buckets new old = [(''<5'', new), (''5-14'', 1), (''>=15'', old)]"

definition quality_buckets :: "rat \<Rightarrow> rat \<Rightarrow> (string \<times> rat) list" where
  "quality_buckets poor good = [(''poor'', poor), (''fair'', 1), (''good'', good)]"

definition shipped_adj :: "(string \<times> (string \<times> (string \<times> rat) list) list) list" where
  "shipped_adj =
     [(''insulation'', [(''insulation_quality'', quality_buckets (14 / 10) (4 / 10))]),
      (''glazing'', [(''insulation_quality'', quality_buckets (125 / 100) (6 / 10))]),
      (''hvac_replacement'', [(''hvac_age_yr'', age_buckets (5 / 10) (13 / 10))]),
      (''hvac_controls'', [(''hvac_age_yr'', age_buckets (8 / 10) (11 / 10))])]"

definition shipped_solar :: solar_params where
  "shipped_solar =
     \<lparr>sol_usable_roof_frac = 55 / 100, sol_m2_per_kwp = 7, sol_yield_kwh_per_kwp = 1845,
      sol_orientation_factor =
        [(''S'', 1), (''SE'', 951 / 1000), (''SW'', 961 / 1000), (''E'', 841 / 1000),
         (''W'', 857 / 1000), (''NE'', 710 / 1000), (''NW'', 725 / 1000), (''N'', 647 / 1000),
         (''FLAT'', 907 / 1000)],
      sol_soiling_loss = 6 / 100, sol_self_consumption_cap = 9 / 10, sol_fixed_egp = 120000,
      sol_egp_per_kwp = 22000\<rparr>"

definition shipped_params :: params where
  "shipped_params =
     \<lparr>par_horizon_yr = 30, par_grid_emission_factor = 3803 / 10000, par_discount_rate = 0,
      par_tariff = 274 / 100, par_anomaly_k = 5, par_anomaly_window_days = 30,
      par_end_use_share = shipped_shares, par_adj = shipped_adj, par_solar = shipped_solar,
      par_max_bundle_size = 3, par_cap_total_saving_frac = 95 / 100,
      par_max_funded_per_district = None, par_max_building_saving_frac = 1,
      par_tou = Some shipped_profile\<rparr>"

definition insulation_roof :: intervention where
  "insulation_roof =
     \<lparr>iv_id = ''insulation_roof_v1'', iv_label = ''Roof and envelope insulation upgrade'',
      iv_end_use = ''hvac'', iv_exclusive_group = ''envelope_insulation'',
      iv_adj_key = ''insulation'', iv_cost_type = ''per_m2_roof'', iv_cost_value = 850,
      iv_saving_frac = 9 / 50, iv_service_life_yr = 30,
      iv_embodied_type = ''per_m2_roof'', iv_embodied_value = 30,
      iv_applies_if = ''insulation_quality in poor|fair'', iv_source_ref = ''Mohamed''\<rparr>"

definition glazing_upgrade :: intervention where
  "glazing_upgrade =
     \<lparr>iv_id = ''glazing_upgrade_v1'', iv_label = ''Double glazing retrofit'',
      iv_end_use = ''hvac'', iv_exclusive_group = ''envelope_glazing'',
      iv_adj_key = ''glazing'', iv_cost_type = ''per_m2_glazing'', iv_cost_value = 2400,
      iv_saving_frac = 2 / 25, iv_service_life_yr = 25,
      iv_embodied_type = ''per_m2_glazing'', iv_embodied_value = 95,
      iv_applies_if = ''glazing_ratio>=0.15'', iv_source_ref = ''ASHRAE Handbook-Fundamentals (''\<rparr>"

definition hvac_replacement :: intervention where
  "hvac_replacement =
     \<lparr>iv_id = ''hvac_replacement_v1'', iv_label = ''High-efficiency HVAC plant replacement'',
      iv_end_use = ''hvac'', iv_exclusive_group = ''hvac_plant'',
      iv_adj_key = ''hvac_replacement'', iv_cost_type = ''per_m2_floor'', iv_cost_value = 400,
      iv_saving_frac = 3 / 10, iv_service_life_yr = 15,
      iv_embodied_type = ''per_m2_floor'', iv_embodied_value = 14,
      iv_applies_if = ''hvac_age_yr>=8'', iv_source_ref = ''IEA''\<rparr>"

definition hvac_controls :: intervention where
  "hvac_controls =
     \<lparr>iv_id = ''hvac_controls_v1'', iv_label = ''BMS zone controls and scheduling'',
      iv_end_use = ''hvac'', iv_exclusive_group = ''hvac_controls'',
      iv_adj_key = ''hvac_controls'', iv_cost_type = ''per_m2_floor'', iv_cost_value = 65,
      iv_saving_frac = 3 / 25, iv_service_life_yr = 10,
      iv_embodied_type = ''per_m2_floor'', iv_embodied_value = 6 / 5,
      iv_applies_if = '''', iv_source_ref = ''PNNL-25985 (2017''\<rparr>"

definition led_lighting :: intervention where
  "led_lighting =
     \<lparr>iv_id = ''led_lighting_v1'', iv_label = ''LED lighting upgrade'',
      iv_end_use = ''lighting'', iv_exclusive_group = ''lighting'',
      iv_adj_key = '''', iv_cost_type = ''per_m2_floor'', iv_cost_value = 83,
      iv_saving_frac = 11 / 20, iv_service_life_yr = 12,
      iv_embodied_type = ''per_m2_floor'', iv_embodied_value = 17 / 10,
      iv_applies_if = '''', iv_source_ref = ''Elsewedy Lighting e-shop''\<rparr>"

definition rooftop_solar :: intervention where
  "rooftop_solar =
     \<lparr>iv_id = ''rooftop_solar_v1'', iv_label = ''Rooftop solar PV'',
      iv_end_use = ''generation'', iv_exclusive_group = ''generation'',
      iv_adj_key = '''', iv_cost_type = ''solar'', iv_cost_value = 0,
      iv_saving_frac = 0, iv_service_life_yr = 20,
      iv_embodied_type = ''per_kwp'', iv_embodied_value = 1800,
      iv_applies_if = ''roof_area_m2>=200'', iv_source_ref = ''Fraunhofer ISE''\<rparr>"

definition shipped_catalog :: "intervention list" where
  "shipped_catalog =
     [insulation_roof, glazing_upgrade, hvac_replacement, hvac_controls,
      led_lighting, rooftop_solar]"

definition sample_school :: building where
  "sample_school =
     \<lparr>bld_id = ''b-1'', bld_code = ''SCH-01'', bld_name = ''School'', bld_district = ''Nasr City'',
      bld_lat = 30, bld_lon = 31, bld_floor_area_m2 = 2000, bld_roof_area_m2 = 700,
      bld_glazing_area_m2 = 400, bld_roof_orientation = ''FLAT'', bld_hvac_type = ''split'',
      bld_hvac_age_yr = 12, bld_insulation_quality = ''poor'', bld_occupancy_pattern = ''school'',
      bld_annual_kwh = 180000, bld_hourly_shape = FLAT_SHAPE\<rparr>"

lemmas shipped_data = shipped_params_def shipped_solar_def shipped_adj_def shipped_shares_def
  shipped_profile_def age_buckets_def quality_buckets_def

lemmas shipped_rows = insulation_roof_def glazing_upgrade_def hvac_replacement_def hvac_controls_def led_lighting_def rooftop_solar_def

lemma shipped_params_valid: "validate_params shipped_params = Inr shipped_params"
  by code_simp

lemma shipped_catalog_loads: "load_catalog shipped_catalog = Inr shipped_catalog"
  by code_simp

lemma shipped_cross_validate: "cross_validate shipped_catalog shipped_params = []"
  by code_simp

lemma sample_school_valid: "validate_building sample_school = Inr sample_school"
  by code_simp

end
