(* ===== verification/Savings.thy ===== *)
theory Savings
  imports Shipped
begin

text \<open>
  From one metered number to the saving of a set of interventions:
  \<open>src/gemp/domain/savings.py\<close>. Rooftop generation takes its own path with the
  self-consumption cap; measures on one end use compose multiplicatively, end uses add up, and
  the whole is scaled down pro rata to the ceiling.
\<close>

section \<open>Rooftop generation\<close>

definition solar_kwp :: "building \<Rightarrow> params \<Rightarrow> rat" where
  "solar_kwp b p =
     bld_roof_area_m2 b * sol_usable_roof_frac (par_solar p) / sol_m2_per_kwp (par_solar p)"

definition solar_generation_kwh :: "building \<Rightarrow> params \<Rightarrow> rat result" where
  "solar_generation_kwh b p =
     (let s = par_solar p
      in case map_of (sol_orientation_factor s) (bld_roof_orientation b) of
           None \<Rightarrow> Inl (KeyError ''orientation_factor'')
         | Some factor \<Rightarrow>
             Inr (solar_kwp b p * (sol_yield_kwh_per_kwp s * factor * (1 - sol_soiling_loss s))))"

definition solar_saving_kwh :: "building \<Rightarrow> params \<Rightarrow> rat result" where
  "solar_saving_kwh b p =
     rbind (solar_generation_kwh b p)
       (\<lambda>generated. Inr (min generated (bld_annual_kwh b * sol_self_consumption_cap (par_solar p))))"

definition solar_is_capped :: "building \<Rightarrow> params \<Rightarrow> bool result" where
  "solar_is_capped b p =
     rbind (solar_generation_kwh b p)
       (\<lambda>generated. Inr (generated > bld_annual_kwh b * sol_self_consumption_cap (par_solar p)))"

section \<open>End-use reduction\<close>

definition effective_saving_frac :: "building \<Rightarrow> intervention \<Rightarrow> params \<Rightarrow> rat result" where
  "effective_saving_frac b iv p =
     rbind (adj_multiplier p (iv_adj_key iv) b)
       (\<lambda>multiplier. Inr (min (max (iv_saving_frac iv * multiplier) 0) 1))"

definition end_use_baseline_kwh :: "building \<Rightarrow> string \<Rightarrow> params \<Rightarrow> rat result" where
  "end_use_baseline_kwh b end_use p =
     rbind (share p (bld_occupancy_pattern b) end_use) (\<lambda>s. Inr (bld_annual_kwh b * s))"

fun remaining_frac :: "building \<Rightarrow> params \<Rightarrow> rat \<Rightarrow> intervention list \<Rightarrow> rat result" where
  "remaining_frac b p remaining [] = Inr remaining"
| "remaining_frac b p remaining (iv # ivs) =
     rbind (effective_saving_frac b iv p) (\<lambda>f. remaining_frac b p (remaining * (1 - f)) ivs)"

definition end_use_saving :: "building \<Rightarrow> params \<Rightarrow> string \<times> intervention list \<Rightarrow> (string \<times> rat) result" where
  "end_use_saving b p = (\<lambda>(end_use, members).
     if end_use = ''generation''
     then rbind (rsum (\<lambda>_. solar_saving_kwh b p) members) (\<lambda>v. Inr (end_use, v))
     else rbind (end_use_baseline_kwh b end_use p) (\<lambda>baseline.
            rbind (remaining_frac b p 1 members) (\<lambda>remaining.
              Inr (end_use, baseline * (1 - remaining)))))"

definition cap_slices :: "rat \<Rightarrow> (string \<times> rat) list \<Rightarrow> (string \<times> rat) list" where
  "cap_slices ceil raw =
     (let total = sum_list (map snd raw)
      in if total > ceil
         then let scale = (if total > 0 then ceil / total else 0)
              in map (\<lambda>(use, value). (use, value * scale)) raw
         else raw)"

definition bundle_saving_by_end_use ::
  "building \<Rightarrow> intervention list \<Rightarrow> params \<Rightarrow> (string \<times> rat) list result" where
  "bundle_saving_by_end_use b ivs p =
     rbind (rmapM (end_use_saving b p) (group_by iv_end_use ivs))
       (\<lambda>raw. Inr (cap_slices (bld_annual_kwh b * par_cap_total_saving_frac p) raw))"

definition bundle_saving_kwh :: "building \<Rightarrow> intervention list \<Rightarrow> params \<Rightarrow> rat result" where
  "bundle_saving_kwh b ivs p =
     rbind (bundle_saving_by_end_use b ivs p) (\<lambda>slices. Inr (sum_list (map snd slices)))"

definition intervention_saving_kwh :: "building \<Rightarrow> intervention \<Rightarrow> params \<Rightarrow> rat result" where
  "intervention_saving_kwh b iv p = bundle_saving_kwh b [iv] p"

section \<open>The guard rail\<close>

definition assert_physically_possible :: "building \<Rightarrow> rat \<Rightarrow> params \<Rightarrow> unit result" where
  "assert_physically_possible b annual_kwh_saving p =
     (if annual_kwh_saving > bld_annual_kwh b * par_max_building_saving_frac p + 1 / 1000000
      then Inl (SavingsError ''exceeds consumption'') else Inr ())"

section \<open>What a bundle saves\<close>

text \<open>
  The reference definition: a measure can be assessed at a building when the tables it needs
  have an entry; an end use keeps the product of what its measures leave; end uses add up.
\<close>

definition value_or_0 :: "rat result \<Rightarrow> rat" where
  "value_or_0 r = (case r of Inl _ \<Rightarrow> 0 | Inr x \<Rightarrow> x)"

definition assessable :: "building \<Rightarrow> params \<Rightarrow> intervention \<Rightarrow> bool" where
  "assessable b p iv =
     (if is_generation iv then \<exists>x. solar_saving_kwh b p = Inr x
      else (\<exists>x. end_use_baseline_kwh b (iv_end_use iv) p = Inr x) \<and>
           (\<exists>x. effective_saving_frac b iv p = Inr x))"

definition slice :: "building \<Rightarrow> params \<Rightarrow> intervention list \<Rightarrow> string \<Rightarrow> rat" where
  "slice b p ivs use =
     (let members = filter (\<lambda>iv. iv_end_use iv = use) ivs
      in if use = ''generation'' then of_nat (length members) * value_or_0 (solar_saving_kwh b p)
         else value_or_0 (end_use_baseline_kwh b use p) *
                (1 - prod_list (map (\<lambda>iv. 1 - value_or_0 (effective_saving_frac b iv p)) members)))"

definition combined_saving :: "building \<Rightarrow> params \<Rightarrow> intervention list \<Rightarrow> rat" where
  "combined_saving b p ivs = (\<Sum>use \<in> iv_end_use ` set ivs. slice b p ivs use)"

definition saving_ceiling :: "building \<Rightarrow> params \<Rightarrow> rat" where
  "saving_ceiling b p = bld_annual_kwh b * par_cap_total_saving_frac p"

lemma value_or_0_Inr [simp]: "value_or_0 (Inr x) = x"
  by (simp add: value_or_0_def)

lemma remaining_frac_eq:
  "remaining_frac b p r ivs = Inr x \<longleftrightarrow>
     (\<forall>iv \<in> set ivs. \<exists>f. effective_saving_frac b iv p = Inr f) \<and>
     x = r * prod_list (map (\<lambda>iv. 1 - value_or_0 (effective_saving_frac b iv p)) ivs)"
proof (induction ivs arbitrary: r)
  case Nil
  then show ?case by auto
next
  case (Cons iv ivs)
  show ?case
  proof (cases "effective_saving_frac b iv p")
    case (Inl e)
    then show ?thesis by simp
  next
    case (Inr f)
    then show ?thesis using Cons [of "r * (1 - f)"] by (auto simp: mult.assoc)
  qed
qed

lemma rsum_const_eq:
  "rsum (\<lambda>_. r) xs = Inr (x :: rat) \<longleftrightarrow>
     (xs = [] \<or> (\<exists>v. r = Inr v)) \<and> x = of_nat (length xs) * value_or_0 r"
proof (induction xs arbitrary: x)
  case Nil
  then show ?case by auto
next
  case (Cons a xs)
  show ?case
  proof (cases r)
    case (Inl e)
    then show ?thesis by simp
  next
    case (Inr v)
    then have "rsum (\<lambda>_. r) xs = Inr (of_nat (length xs) * v)" using Cons by simp
    then show ?thesis using Inr by (auto simp: algebra_simps)
  qed
qed

lemma is_generation_iff: "iv_end_use iv = ''generation'' \<longleftrightarrow> is_generation iv"
  by (simp add: is_generation_def)

lemma end_use_saving_eq:
  assumes "(use, g) \<in> set (group_by iv_end_use ivs)"
  shows "end_use_saving b p (use, g) = Inr v \<longleftrightarrow>
           (\<forall>iv \<in> set g. assessable b p iv) \<and> v = (use, slice b p ivs use)"
proof -
  have g: "g = filter (\<lambda>iv. iv_end_use iv = use) ivs" and ne: "g \<noteq> []"
    using group_by_entry [OF assms] by auto
  have use: "iv_end_use iv = use" if "iv \<in> set g" for iv using that g by simp
  obtain m where m: "m \<in> set g" using ne by (cases g) auto
  have sl: "slice b p ivs use =
      (if use = ''generation'' then of_nat (length g) * value_or_0 (solar_saving_kwh b p)
       else value_or_0 (end_use_baseline_kwh b use p) *
         (1 - prod_list (map (\<lambda>iv. 1 - value_or_0 (effective_saving_frac b iv p)) g)))"
    by (simp add: slice_def g Let_def)
  show ?thesis
  proof (cases "use = ''generation''")
    case True
    then have "assessable b p iv \<longleftrightarrow> (\<exists>x. solar_saving_kwh b p = Inr x)" if "iv \<in> set g" for iv
      using use [OF that] by (simp add: assessable_def is_generation_def)
    then have "(\<forall>iv \<in> set g. assessable b p iv) \<longleftrightarrow> (\<exists>x. solar_saving_kwh b p = Inr x)"
      using m by blast
    then show ?thesis using True ne sl
      by (auto simp: end_use_saving_def rsum_const_eq result_simps)
  next
    case False
    then have "assessable b p iv \<longleftrightarrow> (\<exists>x. end_use_baseline_kwh b use p = Inr x) \<and>
        (\<exists>x. effective_saving_frac b iv p = Inr x)" if "iv \<in> set g" for iv
      using use [OF that] by (simp add: assessable_def is_generation_def)
    then have "(\<forall>iv \<in> set g. assessable b p iv) \<longleftrightarrow> (\<exists>x. end_use_baseline_kwh b use p = Inr x) \<and>
        (\<forall>iv \<in> set g. \<exists>x. effective_saving_frac b iv p = Inr x)"
      using m by blast
    then show ?thesis using False
      by (auto simp: end_use_saving_def sl remaining_frac_eq result_simps)
  qed
qed

lemma rmapM_eq_iff:
  assumes "\<And>x y. x \<in> set xs \<Longrightarrow> f x = Inr y \<longleftrightarrow> P x \<and> y = g x"
  shows "rmapM f xs = Inr ys \<longleftrightarrow> (\<forall>x \<in> set xs. P x) \<and> ys = map g xs"
  using assms
proof (induction xs arbitrary: ys)
  case Nil
  then show ?case by auto
next
  case (Cons x xs)
  have IH: "rmapM f xs = Inr zs \<longleftrightarrow> (\<forall>x \<in> set xs. P x) \<and> zs = map g xs" for zs
    using Cons by simp
  have hd: "f x = Inr y \<longleftrightarrow> P x \<and> y = g x" for y using Cons.prems [of x y] by simp
  show ?case by (auto simp: result_simps IH hd)
qed

lemma set_fst_group_by: "fst ` set (group_by iv_end_use ivs) = iv_end_use ` set ivs"
proof
  show "fst ` set (group_by iv_end_use ivs) \<subseteq> iv_end_use ` set ivs"
  proof
    fix use
    assume "use \<in> fst ` set (group_by iv_end_use ivs)"
    then obtain g where "(use, g) \<in> set (group_by iv_end_use ivs)" by auto
    from group_by_entry [OF this] obtain iv where "iv \<in> set ivs" "iv_end_use iv = use"
      by (auto simp: filter_empty_conv)
    then show "use \<in> iv_end_use ` set ivs" by blast
  qed
  show "iv_end_use ` set ivs \<subseteq> fst ` set (group_by iv_end_use ivs)"
    by (auto elim!: group_by_member [of _ ivs iv_end_use] intro: rev_image_eqI)
qed

lemma members_of_groups:
  "(\<forall>(use, g) \<in> set (group_by iv_end_use ivs). \<forall>iv \<in> set g. P iv) \<longleftrightarrow> (\<forall>iv \<in> set ivs. P iv)"
proof
  assume "\<forall>(use, g) \<in> set (group_by iv_end_use ivs). \<forall>iv \<in> set g. P iv"
  then show "\<forall>iv \<in> set ivs. P iv" by (auto elim!: group_by_member [of _ ivs iv_end_use])
next
  assume "\<forall>iv \<in> set ivs. P iv"
  then show "\<forall>(use, g) \<in> set (group_by iv_end_use ivs). \<forall>iv \<in> set g. P iv"
    using group_by_entry(1) by fastforce
qed

lemma raw_slices_eq:
  "rmapM (end_use_saving b p) (group_by iv_end_use ivs) = Inr raw \<longleftrightarrow>
     (\<forall>iv \<in> set ivs. assessable b p iv) \<and>
     raw = map (\<lambda>(use, g). (use, slice b p ivs use)) (group_by iv_end_use ivs)"
proof -
  have "rmapM (end_use_saving b p) (group_by iv_end_use ivs) = Inr raw \<longleftrightarrow>
      (\<forall>x \<in> set (group_by iv_end_use ivs). \<forall>iv \<in> set (snd x). assessable b p iv) \<and>
      raw = map (\<lambda>x. (fst x, slice b p ivs (fst x))) (group_by iv_end_use ivs)"
  proof (rule rmapM_eq_iff)
    fix x y
    assume "x \<in> set (group_by iv_end_use ivs)"
    then show "end_use_saving b p x = Inr y \<longleftrightarrow>
        (\<forall>iv \<in> set (snd x). assessable b p iv) \<and> y = (fst x, slice b p ivs (fst x))"
      using end_use_saving_eq [of "fst x" "snd x"] by simp
  qed
  then show ?thesis using members_of_groups [of ivs "assessable b p"] by (simp add: case_prod_unfold)
qed

lemma sum_raw_slices:
  "sum_list (map (\<lambda>(use, g). slice b p ivs use) (group_by iv_end_use ivs)) = combined_saving b p ivs"
proof -
  have "sum_list (map (\<lambda>(use, g). slice b p ivs use) (group_by iv_end_use ivs)) =
      sum_list (map (slice b p ivs) (map fst (group_by iv_end_use ivs)))"
    by (simp add: case_prod_unfold o_def)
  also have "\<dots> = (\<Sum>use \<in> set (map fst (group_by iv_end_use ivs)). slice b p ivs use)"
    by (rule sum_list_distinct_conv_sum_set) (rule distinct_group_by)
  finally show ?thesis by (simp add: combined_saving_def set_fst_group_by)
qed

lemma sum_cap_slices:
  assumes "0 \<le> ceil"
  shows "sum_list (map snd (cap_slices ceil raw)) = min (sum_list (map snd raw)) ceil"
proof (cases "sum_list (map snd raw) > ceil")
  case True
  then have pos: "0 < sum_list (map snd raw)" using assms by linarith
  have "sum_list (map snd (cap_slices ceil raw)) =
      sum_list (map (\<lambda>x. snd x * (ceil / sum_list (map snd raw))) raw)"
    using True pos by (simp add: cap_slices_def Let_def case_prod_unfold o_def del: times_divide_eq_right)
  also have "\<dots> = sum_list (map snd raw) * (ceil / sum_list (map snd raw))"
    by (rule sum_list_mult_const)
  finally show ?thesis using True pos by simp
next
  case False
  then show ?thesis by (simp add: cap_slices_def Let_def min_def)
qed

lemma bundle_saving_spec:
  assumes "0 \<le> saving_ceiling b p"
  shows "bundle_saving_kwh b ivs p = Inr k \<longleftrightarrow>
           (\<forall>iv \<in> set ivs. assessable b p iv) \<and>
           k = min (combined_saving b p ivs) (saving_ceiling b p)"
proof -
  have "bundle_saving_kwh b ivs p = Inr k \<longleftrightarrow>
      (\<exists>raw. rmapM (end_use_saving b p) (group_by iv_end_use ivs) = Inr raw \<and>
             k = sum_list (map snd (cap_slices (saving_ceiling b p) raw)))"
    by (auto simp: bundle_saving_kwh_def bundle_saving_by_end_use_def saving_ceiling_def result_simps)
  then show ?thesis
    using sum_raw_slices [of b p ivs]
    by (auto simp: raw_slices_eq sum_cap_slices [OF assms] case_prod_unfold o_def)
qed

section \<open>Bounds and independence of the order\<close>

text \<open>
  The savings of single measures are non-negative when the orientation factors are, which the
  constructors of the parameters do not check.
\<close>

definition factors_nonneg :: "params \<Rightarrow> bool" where
  "factors_nonneg p = list_all (\<lambda>(o', f). 0 \<le> f) (sol_orientation_factor (par_solar p))"

definition left_over :: "building \<Rightarrow> params \<Rightarrow> string \<Rightarrow> intervention list \<Rightarrow> rat" where
  "left_over b p use ivs =
     prod_list (map (\<lambda>iv. 1 - value_or_0 (effective_saving_frac b iv p))
       (filter (\<lambda>iv. iv_end_use iv = use) ivs))"

lemma effective_frac_range:
  "0 \<le> value_or_0 (effective_saving_frac b iv p) \<and> value_or_0 (effective_saving_frac b iv p) \<le> 1"
  by (cases "adj_multiplier p (iv_adj_key iv) b") (simp_all add: effective_saving_frac_def value_or_0_def)

lemma left_over_range: "0 \<le> left_over b p use ivs \<and> left_over b p use ivs \<le> 1"
proof (induction ivs)
  case Nil
  then show ?case by (simp add: left_over_def)
next
  case (Cons iv ivs)
  then show ?case using effective_frac_range [of b iv p]
    by (auto simp: left_over_def intro: mult_le_one mult_nonneg_nonneg)
qed

lemma slice_eq:
  "slice b p ivs use =
     (if use = ''generation''
      then of_nat (length (filter (\<lambda>iv. iv_end_use iv = use) ivs)) * value_or_0 (solar_saving_kwh b p)
      else value_or_0 (end_use_baseline_kwh b use p) * (1 - left_over b p use ivs))"
  by (simp add: slice_def left_over_def Let_def)

lemma slice_Cons:
  "slice b p (iv # ivs) use =
     (if iv_end_use iv \<noteq> use then slice b p ivs use
      else if use = ''generation'' then value_or_0 (solar_saving_kwh b p) + slice b p ivs use
      else value_or_0 (end_use_baseline_kwh b use p) *
             (1 - (1 - value_or_0 (effective_saving_frac b iv p)) * left_over b p use ivs))"
  by (auto simp: slice_eq left_over_def algebra_simps)

lemma slice_Nil: "slice b p [] use = 0"
  by (simp add: slice_def)

lemma slice_unused: "use \<notin> iv_end_use ` set ivs \<Longrightarrow> slice b p ivs use = 0"
  by (induction ivs) (auto simp: slice_Nil slice_Cons)

lemma combined_saving_over:
  assumes "finite U" and "iv_end_use ` set ivs \<subseteq> U"
  shows "combined_saving b p ivs = (\<Sum>use \<in> U. slice b p ivs use)"
  unfolding combined_saving_def
  by (rule sum.mono_neutral_left) (use assms slice_unused in auto)

lemma slice_mset: "mset ivs = mset ivs' \<Longrightarrow> slice b p ivs use = slice b p ivs' use"
proof -
  assume m: "mset ivs = mset ivs'"
  let ?g = "\<lambda>ivs. filter (\<lambda>iv. iv_end_use iv = use) ivs"
  have g: "mset (?g ivs) = mset (?g ivs')" using m by simp
  have "prod_list (map f (?g ivs)) = prod_list (map f (?g ivs'))" for f :: "intervention \<Rightarrow> rat"
    by (simp only: prod_mset_prod_list [symmetric] mset_map g)
  moreover have "length (?g ivs) = length (?g ivs')" using g by (rule mset_eq_length)
  ultimately show ?thesis by (simp only: slice_def Let_def)
qed

lemma combined_saving_mset: "mset ivs = mset ivs' \<Longrightarrow> combined_saving b p ivs = combined_saving b p ivs'"
  unfolding combined_saving_def using slice_mset [of ivs ivs' b p] mset_eq_setD [of ivs ivs'] by simp

text \<open>The hypotheses under which a saving is a saving, as one bundle.\<close>

definition sound_inputs :: "building \<Rightarrow> params \<Rightarrow> bool" where
  "sound_inputs b p = (validate_params p = Inr p \<and> 0 < bld_annual_kwh b \<and> factors_nonneg p)"

lemma ceiling_nonneg: "sound_inputs b p \<Longrightarrow> 0 \<le> saving_ceiling b p"
  using validate_params_ok(9) [of p p] by (simp add: sound_inputs_def saving_ceiling_def)

lemma baseline_nonneg: "sound_inputs b p \<Longrightarrow> 0 \<le> value_or_0 (end_use_baseline_kwh b use p)"
  using share_range(1) [of p "bld_occupancy_pattern b" use] validate_params_ok(13) [of p p]
  by (cases "share p (bld_occupancy_pattern b) use")
     (auto simp: sound_inputs_def end_use_baseline_kwh_def value_or_0_def)

lemma solar_kwp_nonneg:
  assumes "validate_params p = Inr p" and "0 < bld_roof_area_m2 b"
  shows "0 < solar_kwp b p"
  using solar_ok(1,2) [OF validate_params_ok(7) [OF assms(1)]] assms(2)
  by (simp add: solar_kwp_def)

lemma solar_saving_nonneg:
  assumes "sound_inputs b p" and "0 < bld_roof_area_m2 b"
  shows "0 \<le> value_or_0 (solar_saving_kwh b p)"
proof (cases "map_of (sol_orientation_factor (par_solar p)) (bld_roof_orientation b)")
  case None
  then show ?thesis by (simp add: solar_saving_kwh_def solar_generation_kwh_def value_or_0_def Let_def)
next
  case (Some f)
  have v: "validate_params p = Inr p" using assms(1) by (simp add: sound_inputs_def)
  note s = solar_ok [OF validate_params_ok(7) [OF v]]
  have "0 \<le> f" using assms(1) map_of_SomeD [OF Some]
    by (auto simp: sound_inputs_def factors_nonneg_def list_all_iff)
  then show ?thesis
    using s solar_kwp_nonneg [OF v assms(2)] assms(1) Some
    by (simp add: solar_saving_kwh_def solar_generation_kwh_def sound_inputs_def Let_def)
qed

lemma slice_steps:
  assumes "sound_inputs b p" and "0 < bld_roof_area_m2 b"
  shows "0 \<le> slice b p ivs use" and "slice b p ivs use \<le> slice b p (iv # ivs) use"
    and "slice b p [iv] use \<le> slice b p (iv # ivs) use"
    and "slice b p (iv # ivs) use \<le> slice b p ivs use + slice b p [iv] use"
proof -
  let ?B = "value_or_0 (end_use_baseline_kwh b use p)" and ?S = "value_or_0 (solar_saving_kwh b p)"
  let ?f = "value_or_0 (effective_saving_frac b iv p)" and ?R = "left_over b p use ivs"
  have B: "0 \<le> ?B" using assms(1) by (rule baseline_nonneg)
  have S: "0 \<le> ?S" using assms by (rule solar_saving_nonneg)
  have f: "0 \<le> ?f" "?f \<le> 1" and R: "0 \<le> ?R" "?R \<le> 1"
    using effective_frac_range [of b iv p] left_over_range [of b p use ivs] by auto
  show nonneg: "0 \<le> slice b p ivs use" using B S R by (simp add: slice_eq)
  have le: "(1 - ?f) * ?R \<le> ?R" "(1 - ?f) * ?R \<le> 1 - ?f" "1 - (1 - ?f) * ?R \<le> (1 - ?R) + ?f"
    using f R mult_right_mono [of "1 - ?f" 1 ?R] mult_left_mono [of ?R 1 "1 - ?f"]
      mult_left_mono [of ?R 1 ?f] by (simp_all add: algebra_simps)
  have all: "slice b p ivs use \<le> slice b p (iv # ivs) use \<and>
      slice b p [iv] use \<le> slice b p (iv # ivs) use \<and>
      slice b p (iv # ivs) use \<le> slice b p ivs use + slice b p [iv] use"
  proof (cases "iv_end_use iv = use \<and> use \<noteq> ''generation''")
    case False
    then show ?thesis using nonneg S by (auto simp: slice_Cons slice_Nil)
  next
    case True
    then have "slice b p (iv # ivs) use = ?B * (1 - (1 - ?f) * ?R)"
      and "slice b p ivs use = ?B * (1 - ?R)" and "slice b p [iv] use = ?B * ?f"
      by (auto simp: slice_Cons slice_eq left_over_def)
    then show ?thesis
      using mult_left_mono [of "1 - ?R" "1 - (1 - ?f) * ?R" ?B]
        mult_left_mono [of ?f "1 - (1 - ?f) * ?R" ?B]
        mult_left_mono [OF le(3) B] le B by (simp add: distrib_left)
  qed
  then show "slice b p ivs use \<le> slice b p (iv # ivs) use"
    and "slice b p [iv] use \<le> slice b p (iv # ivs) use"
    and "slice b p (iv # ivs) use \<le> slice b p ivs use + slice b p [iv] use" by blast+
qed

lemma combined_steps:
  assumes "sound_inputs b p" and "0 < bld_roof_area_m2 b"
  shows "0 \<le> combined_saving b p ivs" and "combined_saving b p ivs \<le> combined_saving b p (iv # ivs)"
    and "combined_saving b p [iv] \<le> combined_saving b p (iv # ivs)"
    and "combined_saving b p (iv # ivs) \<le> combined_saving b p ivs + combined_saving b p [iv]"
proof -
  let ?U = "iv_end_use ` set (iv # ivs)"
  have c: "combined_saving b p xs = (\<Sum>use \<in> ?U. slice b p xs use)"
    if "xs \<in> {ivs, [iv], iv # ivs}" for xs
    by (rule combined_saving_over) (use that in auto)
  show "0 \<le> combined_saving b p ivs"
    unfolding combined_saving_def by (rule sum_nonneg) (rule slice_steps(1) [OF assms])
  show "combined_saving b p ivs \<le> combined_saving b p (iv # ivs)"
    and "combined_saving b p [iv] \<le> combined_saving b p (iv # ivs)"
    by (simp_all only: c insert_iff simp_thms) (rule sum_mono, rule slice_steps [OF assms])+
  have "combined_saving b p (iv # ivs) \<le> (\<Sum>use \<in> ?U. slice b p ivs use + slice b p [iv] use)"
    by (simp only: c insert_iff simp_thms) (rule sum_mono, rule slice_steps(4) [OF assms])
  then show "combined_saving b p (iv # ivs) \<le> combined_saving b p ivs + combined_saving b p [iv]"
    by (simp only: c insert_iff simp_thms sum.distrib)
qed

lemma combined_bounds:
  assumes "sound_inputs b p" and "0 < bld_roof_area_m2 b"
  shows "combined_saving b p ivs \<le> sum_list (map (\<lambda>iv. combined_saving b p [iv]) ivs)"
    and "iv \<in> set ivs \<Longrightarrow> combined_saving b p [iv] \<le> combined_saving b p ivs"
proof -
  show "combined_saving b p ivs \<le> sum_list (map (\<lambda>iv. combined_saving b p [iv]) ivs)"
  proof (induction ivs)
    case Nil
    then show ?case by (simp add: combined_saving_def)
  next
    case (Cons a ivs)
    then show ?case using combined_steps(4) [OF assms, of a ivs] by simp
  qed
  show "iv \<in> set ivs \<Longrightarrow> combined_saving b p [iv] \<le> combined_saving b p ivs"
  proof (induction ivs)
    case Nil
    then show ?case by simp
  next
    case (Cons a ivs)
    then show ?case using combined_steps(2) [OF assms, of ivs a] combined_steps(3) [OF assms, of a ivs] by fastforce
  qed
qed

lemma sum_min_ceiling:
  fixes c :: rat
  assumes "0 \<le> c" and "\<And>x. x \<in> set xs \<Longrightarrow> 0 \<le> x"
  shows "min (sum_list xs) c \<le> sum_list (map (\<lambda>x. min x c) xs)"
  using assms(2)
proof (induction xs)
  case Nil
  then show ?case by simp
next
  case (Cons x xs)
  then have IH: "min (sum_list xs) c \<le> sum_list (map (\<lambda>x. min x c) xs)" and x: "0 \<le> x"
    and s: "0 \<le> sum_list xs"
    by (simp_all add: sum_list_nonneg)
  have "min (x + sum_list xs) c \<le> min x c + min (sum_list xs) c"
    using x s assms(1) by (auto simp: min_def)
  with IH show ?case by simp
qed

lemma sample_sound: "sound_inputs sample_school shipped_params"
  by (simp add: sound_inputs_def shipped_params_valid)
     (simp add: shipped_params_def shipped_solar_def factors_nonneg_def sample_school_def)

lemma bundle_assessable:
  assumes "sound_inputs b p" and "bundle_saving_kwh b ivs p = Inr k"
  shows "\<forall>iv \<in> set ivs. intervention_saving_kwh b iv p =
           Inr (min (combined_saving b p [iv]) (saving_ceiling b p))"
  using assms(2)
  by (simp add: bundle_saving_spec [OF ceiling_nonneg [OF assms(1)]] intervention_saving_kwh_def)

section \<open>Properties\<close>

text \<open>
  C22: the grouping loop, the fold over each group and the pro-rata scaling compute the reference:
  a bundle has a saving exactly when every member can be assessed, and it is the sum over end
  uses of what the members take away together, up to the ceiling of the whole building.
\<close>
theorem bundle_saving_reference:
  assumes "validate_params p = Inr p" and "0 < bld_annual_kwh b"
  shows "bundle_saving_kwh b ivs p = Inr k \<longleftrightarrow>
           (\<forall>iv \<in> set ivs. assessable b p iv) \<and>
           k = min (\<Sum>use \<in> iv_end_use ` set ivs. slice b p ivs use) (saving_ceiling b p)"
proof -
  have "0 \<le> saving_ceiling b p"
    using validate_params_ok(9) [OF assms(1)] assms(2) by (simp add: saving_ceiling_def)
  then show ?thesis by (simp only: bundle_saving_spec combined_saving_def)
qed

theorem bundle_saving_reference_witness:
  "\<forall>k. bundle_saving_kwh sample_school [led_lighting, hvac_controls] shipped_params = Inr k \<longleftrightarrow>
     (\<forall>iv \<in> set [led_lighting, hvac_controls]. assessable sample_school shipped_params iv) \<and>
     k = min (\<Sum>use \<in> iv_end_use ` set [led_lighting, hvac_controls].
               slice sample_school shipped_params [led_lighting, hvac_controls] use)
           (saving_ceiling sample_school shipped_params)"
  by (intro allI bundle_saving_reference [OF shipped_params_valid]) (simp add: sample_school_def)


lemma sample_bundle:
  "bundle_saving_kwh sample_school [hvac_replacement, hvac_controls, led_lighting] shipped_params =
     Inr (180000 * 45 / 100 * (1 - 7 / 10 * (88 / 100)) + 180000 * 22 / 100 * (55 / 100))"
  by code_simp


text \<open>
  The saving of a bundle does not depend on the order in which its members are listed.
\<close>
theorem bundle_order_irrelevant:
  assumes "validate_params p = Inr p" and "0 < bld_annual_kwh b" and "mset ivs = mset ivs'"
  shows "bundle_saving_kwh b ivs p = Inr k \<longleftrightarrow> bundle_saving_kwh b ivs' p = Inr k"
proof -
  have "0 \<le> saving_ceiling b p"
    using validate_params_ok(9) [OF assms(1)] assms(2) by (simp add: saving_ceiling_def)
  then show ?thesis
    using mset_eq_setD [OF assms(3)] combined_saving_mset [OF assms(3)]
    by (simp add: bundle_saving_spec)
qed

theorem bundle_order_irrelevant_witness:
  "bundle_saving_kwh sample_school [led_lighting, hvac_controls, hvac_replacement] shipped_params =
     Inr 52884"
  using bundle_order_irrelevant [OF shipped_params_valid, of sample_school
      "[led_lighting, hvac_controls, hvac_replacement]" "[hvac_replacement, hvac_controls, led_lighting]"
      52884] sample_bundle
  by (simp add: sample_school_def add_mset_commute)

end
