(* ===== verification/Lifecycle.thy ===== *)
theory Lifecycle
  imports Savings
begin

text \<open>
  Life-cycle costing and carbon accounting on a common horizon:
  \<open>src/gemp/domain/lifecycle.py\<close>. Costs are paid once, embodied carbon once per replacement
  cycle inside the horizon, and the yearly saving is credited over the horizon, at the flat
  grid factor or at the factor weighted with the building's own hours.
\<close>

section \<open>Discounting\<close>

definition annuity_factor :: "int \<Rightarrow> rat \<Rightarrow> rat" where
  "annuity_factor horizon_yr discount_rate =
     (if discount_rate = 0 then of_int horizon_yr
      else sum_list (map (\<lambda>t. 1 / (1 + discount_rate) ^ t) [0..<nat horizon_yr]))"

definition replacement_cycles :: "int \<Rightarrow> int \<Rightarrow> rat" where
  "replacement_cycles horizon_yr service_life_yr = of_int horizon_yr / of_int service_life_yr"

definition discounted_embodied :: "rat \<Rightarrow> int \<Rightarrow> params \<Rightarrow> rat" where
  "discounted_embodied embodied_once service_life_yr p =
     (let cycles = replacement_cycles (par_horizon_yr p) service_life_yr
      in if par_discount_rate p = 0 then cycles * embodied_once
         else
           let full = \<lfloor>cycles\<rfloor>; remainder = cycles - of_int full;
               total = sum_list (map (\<lambda>j. embodied_once / (1 + par_discount_rate p) ^ (j * nat service_life_yr))
                         [0..<nat full])
           in if remainder > 0
              then total + remainder * embodied_once / (1 + par_discount_rate p) ^ (nat full * nat service_life_yr)
              else total)"

section \<open>Cost and embodied carbon\<close>

definition dimension :: "building \<Rightarrow> string \<Rightarrow> params \<Rightarrow> rat result" where
  "dimension b basis p =
     (if basis = ''fixed'' then Inr 1
      else if basis = ''per_m2_floor'' then Inr (bld_floor_area_m2 b)
      else if basis = ''per_m2_roof'' then Inr (bld_roof_area_m2 b)
      else if basis = ''per_m2_glazing'' then Inr (bld_glazing_area_m2 b)
      else if basis = ''per_kwp'' then Inr (solar_kwp b p)
      else Inl (ValueError ''unknown unit basis''))"

definition upfront_cost_egp :: "building \<Rightarrow> intervention \<Rightarrow> params \<Rightarrow> rat result" where
  "upfront_cost_egp b iv p =
     (if iv_cost_type iv = ''solar''
      then Inr (sol_fixed_egp (par_solar p) + sol_egp_per_kwp (par_solar p) * solar_kwp b p)
      else rbind (dimension b (iv_cost_type iv) p) (\<lambda>d. Inr (iv_cost_value iv * d)))"

definition embodied_once_kgco2e :: "building \<Rightarrow> intervention \<Rightarrow> params \<Rightarrow> rat result" where
  "embodied_once_kgco2e b iv p =
     rbind (dimension b (iv_embodied_type iv) p) (\<lambda>d. Inr (iv_embodied_value iv * d))"

definition bundle_cost_egp :: "building \<Rightarrow> intervention list \<Rightarrow> params \<Rightarrow> rat result" where
  "bundle_cost_egp b ivs p = rsum (\<lambda>iv. upfront_cost_egp b iv p) ivs"

section \<open>Benefit\<close>

definition embodied_total :: "building \<Rightarrow> intervention list \<Rightarrow> params \<Rightarrow> rat result" where
  "embodied_total b ivs p =
     rsum (\<lambda>iv. rbind (embodied_once_kgco2e b iv p)
       (\<lambda>once. Inr (discounted_embodied once (iv_service_life_yr iv) p))) ivs"

definition lifetime_benefit_kgco2e ::
  "rat \<Rightarrow> building \<Rightarrow> intervention list \<Rightarrow> params \<Rightarrow> rat result" where
  "lifetime_benefit_kgco2e annual_kwh_saving b ivs p =
     (let energy = annual_kwh_saving * annuity_factor (par_horizon_yr p) (par_discount_rate p) *
                     par_grid_emission_factor p
      in rbind (embodied_total b ivs p) (\<lambda>embodied. Inr (energy - embodied)))"

definition annual_egp_saving :: "rat \<Rightarrow> params \<Rightarrow> rat" where
  "annual_egp_saving annual_kwh_saving p = annual_kwh_saving * par_tariff p"

definition effective_grid_factor :: "building \<Rightarrow> params \<Rightarrow> rat result" where
  "effective_grid_factor b p =
     (case par_tou p of
        None \<Rightarrow> Inr (par_grid_emission_factor p)
      | Some profile \<Rightarrow>
          if length (bld_hourly_shape b) \<noteq> length profile
          then Inl (ValueError ''zip() arguments of different lengths'')
          else
            let weighted = sum_list (map (\<lambda>(s, g). s * g) (zip (bld_hourly_shape b) profile));
                total = sum_list (bld_hourly_shape b)
            in Inr (if total > 0 then weighted / total else par_grid_emission_factor p))"

definition lifetime_tou_benefit_kgco2e ::
  "(string \<times> rat) list \<Rightarrow> building \<Rightarrow> intervention list \<Rightarrow> params \<Rightarrow> rat result" where
  "lifetime_tou_benefit_kgco2e saving_by_end_use b ivs p =
     (let total_saving = sum_list (map snd saving_by_end_use)
      in rbind (effective_grid_factor b p) (\<lambda>factor.
           let energy = total_saving * annuity_factor (par_horizon_yr p) (par_discount_rate p) * factor
           in rbind (embodied_total b ivs p) (\<lambda>embodied. Inr (energy - embodied))))"

definition simple_payback_yr :: "rat \<Rightarrow> rat \<Rightarrow> params \<Rightarrow> rat option" where
  "simple_payback_yr annual_kwh_saving cost_egp p =
     (let annual = annual_egp_saving annual_kwh_saving p
      in if annual \<le> 0 then None else Some (cost_egp / annual))"

section \<open>Lemmas\<close>

lemma rsum_eq_iff:
  assumes "\<And>x. x \<in> set xs \<Longrightarrow> \<exists>y. f x = Inr y"
  shows "\<exists>s. rsum f xs = Inr (s :: rat)"
  using assms by (induction xs) (auto simp: result_simps)

lemma rsum_nonneg:
  "rsum f xs = Inr s \<Longrightarrow> (\<And>x y. x \<in> set xs \<Longrightarrow> f x = Inr y \<Longrightarrow> 0 \<le> y) \<Longrightarrow> 0 \<le> (s :: rat)"
  by (induction xs arbitrary: s) (auto simp: result_simps intro!: add_nonneg_nonneg)

lemma rsum_pos:
  "rsum f xs = Inr s \<Longrightarrow> xs \<noteq> [] \<Longrightarrow> (\<And>x y. x \<in> set xs \<Longrightarrow> f x = Inr y \<Longrightarrow> 0 < y) \<Longrightarrow> 0 < (s :: rat)"
proof (induction xs arbitrary: s)
  case Nil
  then show ?case by simp
next
  case (Cons x xs)
  then show ?case by (cases "xs = []") (auto simp: result_simps intro!: add_pos_pos)
qed

lemma geometric_sum:
  fixes v :: rat
  assumes "v \<noteq> 1"
  shows "sum_list (map (\<lambda>t. v ^ t) [0..<n]) = (1 - v ^ n) / (1 - v)"
proof -
  have "sum_list (map (\<lambda>t. v ^ t) [0..<n]) * (1 - v) = 1 - v ^ n"
  proof (induction n)
    case 0
    then show ?case by simp
  next
    case (Suc n)
    have "sum_list (map (\<lambda>t. v ^ t) [0..<Suc n]) * (1 - v) =
        sum_list (map (\<lambda>t. v ^ t) [0..<n]) * (1 - v) + v ^ n * (1 - v)"
      by (simp add: distrib_right)
    also have "\<dots> = 1 - v ^ Suc n" unfolding Suc.IH by (simp add: algebra_simps)
    finally show ?case .
  qed
  then show ?thesis using assms by (simp add: field_simps)
qed

lemma annuity_closed_form:
  assumes "0 < r" and "0 \<le> horizon"
  shows "annuity_factor horizon r = (1 + r) * (1 - 1 / (1 + r) ^ nat horizon) / r"
proof -
  let ?v = "1 / (1 + r)"
  have "annuity_factor horizon r = sum_list (map (\<lambda>t. ?v ^ t) [0..<nat horizon])"
    using assms by (simp add: annuity_factor_def power_one_over)
  also have "\<dots> = (1 - ?v ^ nat horizon) / (1 - ?v)"
    by (rule geometric_sum) (use assms in \<open>simp add: field_simps\<close>)
  also have "1 - ?v = r / (1 + r)" using assms by (simp add: field_simps)
  finally show ?thesis by (simp add: power_one_over)
qed

lemma annuity_range:
  assumes "0 \<le> r" and "0 \<le> horizon"
  shows "0 \<le> annuity_factor horizon r" and "annuity_factor horizon r \<le> of_int horizon"
proof -
  have term1: "1 / (1 + r) ^ t \<le> 1" and term0: "0 \<le> 1 / (1 + r) ^ t" for t
    using assms by simp_all
  show "0 \<le> annuity_factor horizon r"
    using assms term0 by (auto simp: annuity_factor_def intro!: sum_list_nonneg)
  have "sum_list (map (\<lambda>t. 1 / (1 + r) ^ t) [0..<n]) \<le> of_nat n" for n
    using sum_list_map_le [of "[0..<n]" "\<lambda>t. 1 / (1 + r) ^ t" "\<lambda>_. 1"] term1
    by (simp add: sum_list_map_const)
  from this [of "nat horizon"] show "annuity_factor horizon r \<le> of_int horizon"
    using assms(2) by (simp add: annuity_factor_def)
qed

lemma discounted_embodied_range:
  assumes "0 \<le> par_discount_rate p" and "0 < par_horizon_yr p" and "0 < life" and "0 \<le> once"
  shows "0 \<le> discounted_embodied once life p"
    and "discounted_embodied once life p \<le> replacement_cycles (par_horizon_yr p) life * once"
proof -
  let ?r = "par_discount_rate p" and ?c = "replacement_cycles (par_horizon_yr p) life"
  have c: "0 < ?c" using assms(2,3) by (simp add: replacement_cycles_def)
  have t0: "0 \<le> x / (1 + ?r) ^ n" and t1: "x / (1 + ?r) ^ n \<le> x" if "0 \<le> x" for x n
    using that assms(1) mult_left_mono [of 1 "(1 + ?r) ^ n" x] one_le_power [of "1 + ?r" n]
    by (simp_all add: divide_le_eq)
  let ?g = "\<lambda>j. once / (1 + ?r) ^ (j * nat life)"
  have s0: "0 \<le> sum_list (map ?g [0..<n])" for n
    using t0 [OF assms(4)] by (intro sum_list_nonneg) auto
  have s1: "sum_list (map ?g [0..<n]) \<le> of_nat n * once" for n
    using sum_list_map_le [of "[0..<n]" ?g "\<lambda>_. once"] t1 [OF assms(4)]
    by (simp add: sum_list_map_const)
  have rem: "0 \<le> (?c - of_int \<lfloor>?c\<rfloor>) * once" using assms(4) by simp
  have full: "of_nat (nat \<lfloor>?c\<rfloor>) = (of_int \<lfloor>?c\<rfloor> :: rat)" using c by simp
  show "0 \<le> discounted_embodied once life p"
    using s0 t0 [OF rem] c assms(4) by (auto simp: discounted_embodied_def Let_def)
  have "discounted_embodied once life p \<le> of_int \<lfloor>?c\<rfloor> * once + (?c - of_int \<lfloor>?c\<rfloor>) * once \<or>
      ?r = 0"
    using s1 [of "nat \<lfloor>?c\<rfloor>"] t1 [OF rem, of "nat \<lfloor>?c\<rfloor> * nat life"] rem full
    by (auto simp: discounted_embodied_def Let_def intro: add_mono)
  then show "discounted_embodied once life p \<le> ?c * once"
    by (auto simp: algebra_simps discounted_embodied_def)
qed

lemma weighted_sum_range:
  fixes lo hi :: rat
  assumes "length ws = length xs" and "\<forall>w \<in> set ws. 0 \<le> w" and "\<forall>x \<in> set xs. lo \<le> x \<and> x \<le> hi"
  shows "lo * sum_list ws \<le> sum_list (map (\<lambda>(w, x). w * x) (zip ws xs)) \<and>
         sum_list (map (\<lambda>(w, x). w * x) (zip ws xs)) \<le> hi * sum_list ws"
  using assms
proof (induction ws xs rule: list_induct2)
  case Nil
  then show ?case by simp
next
  case (Cons w ws x xs)
  then have "lo * w \<le> w * x" "w * x \<le> hi * w"
    by (auto simp: mult.commute [of w] intro: mult_right_mono)
  then show ?case using Cons by (auto simp: distrib_left intro: add_mono)
qed

lemma building_shape_ok:
  assumes "validate_building b = Inr b'"
  shows "length (bld_hourly_shape b') = HOURS_PER_DAY" and "\<forall>v \<in> set (bld_hourly_shape b'). 0 < v"
    and "0 < sum_list (bld_hourly_shape b')"
proof -
  obtain shape where s: "shape_is_a_normalised_day (bld_hourly_shape b) = Inr shape"
    and b': "b' = b\<lparr>bld_hourly_shape := shape\<rparr>"
    using assms by (auto simp: validate_building_def result_simps split: if_splits)
  show "length (bld_hourly_shape b') = HOURS_PER_DAY" "\<forall>v \<in> set (bld_hourly_shape b'). 0 < v"
    "0 < sum_list (bld_hourly_shape b')"
    using shape_ok [OF s] by (simp_all add: b' HOURS_PER_DAY_def)
qed

lemma effective_factor_range:
  assumes "validate_building b = Inr b'" and "par_tou p = Some profile" and "length profile = TOU_HOURS"
    and "\<forall>v \<in> set profile. lo \<le> v \<and> v \<le> hi"
  shows "\<exists>f. effective_grid_factor b' p = Inr f \<and> lo \<le> f \<and> f \<le> hi"
proof -
  note s = building_shape_ok [OF assms(1)]
  let ?w = "sum_list (map (\<lambda>(s, g). s * g) (zip (bld_hourly_shape b') profile))"
  let ?t = "sum_list (bld_hourly_shape b')"
  have len: "length (bld_hourly_shape b') = length profile"
    using s(1) assms(3) by (simp add: HOURS_PER_DAY_def TOU_HOURS_def)
  then have "lo * ?t \<le> ?w \<and> ?w \<le> hi * ?t"
    using weighted_sum_range [OF len _ assms(4)] s(2) by (simp add: less_imp_le)
  moreover have "effective_grid_factor b' p = Inr (?w / ?t)"
    using assms(2) len s(3) by (simp add: effective_grid_factor_def Let_def)
  ultimately show ?thesis using s(3) by (simp add: le_divide_eq divide_le_eq)
qed

section \<open>Properties\<close>

text \<open>
  The grid factor a building's saving is worth lies between the lowest and the highest entry
  of the hourly profile, whatever the measured shape; the constructors make the lookup total.
\<close>
theorem effective_factor_bounds:
  assumes "validate_building b = Inr b'" and "validate_params p = Inr p"
    and "par_tou p = Some profile" and "\<forall>v \<in> set profile. lo \<le> v \<and> v \<le> hi"
  shows "\<exists>f. effective_grid_factor b' p = Inr f \<and> lo \<le> f \<and> f \<le> hi"
  by (rule effective_factor_range [OF assms(1,3) _ assms(4)])
     (use validate_params_ok(14) [OF assms(2,3)] in blast)

theorem effective_factor_bounds_witness:
  "\<exists>f. effective_grid_factor sample_school shipped_params = Inr f \<and> 276 / 1000 \<le> f \<and> f \<le> 507 / 1000"
  by (rule effective_factor_bounds [OF sample_school_valid shipped_params_valid])
     (simp add: shipped_params_def, code_simp)

text \<open>
  Without an hourly profile the weighted benefit of the slices is the flat benefit of their
  sum, in every case, errors included.
\<close>
theorem tou_reduces_to_flat:
  assumes "par_tou p = None"
  shows "lifetime_tou_benefit_kgco2e slices b ivs p =
           lifetime_benefit_kgco2e (sum_list (map snd slices)) b ivs p"
  using assms by (simp add: lifetime_tou_benefit_kgco2e_def lifetime_benefit_kgco2e_def
      effective_grid_factor_def Let_def)

theorem tou_reduces_to_flat_witness:
  "lifetime_tou_benefit_kgco2e [(''hvac'', 100), (''lighting'', 20)] sample_school [led_lighting]
     (shipped_params\<lparr>par_tou := None\<rparr>) =
   lifetime_benefit_kgco2e 120 sample_school [led_lighting] (shipped_params\<lparr>par_tou := None\<rparr>)"
  using tou_reduces_to_flat [of "shipped_params\<lparr>par_tou := None\<rparr>" "[(''hvac'', 100), (''lighting'', 20)]"]
  by simp

text \<open>
  Discounting lowers both sides of the account and never turns one negative: the annuity
  factor lies between 0 and the horizon, and the embodied carbon between 0 and the undiscounted
  charge of one installation per (fractional) cycle.
\<close>
theorem discounting_bounds:
  assumes "validate_params p = Inr p" and "0 < life" and "0 \<le> once"
  shows "0 \<le> annuity_factor (par_horizon_yr p) (par_discount_rate p) \<and>
         annuity_factor (par_horizon_yr p) (par_discount_rate p) \<le> of_int (par_horizon_yr p) \<and>
         0 \<le> discounted_embodied once life p \<and>
         discounted_embodied once life p \<le> of_int (par_horizon_yr p) / of_int life * once"
  using assms annuity_range [of "par_discount_rate p" "par_horizon_yr p"] validate_params_ok [OF assms(1)]
    discounted_embodied_range [of p life once]
  by (simp add: replacement_cycles_def)

theorem discounting_bounds_witness:
  "0 \<le> annuity_factor 30 0 \<and> annuity_factor 30 0 \<le> 30 \<and>
   0 \<le> discounted_embodied 100 12 shipped_params \<and> discounted_embodied 100 12 shipped_params \<le> 250"
  using discounting_bounds [OF shipped_params_valid, of 12 100] by (simp add: shipped_params_def)

end
