(* ===== verification/Candidates.thy ===== *)
theory Candidates
  imports Lifecycle
begin

text \<open>
  The expansion of the catalogue into the costed options of each building:
  \<open>src/gemp/domain/candidates.py\<close>. Every compatible combination up to the bundle size is
  one option, so that the solver needs no interaction terms.
\<close>

section \<open>Expansion\<close>

definition compatible :: "intervention list \<Rightarrow> bool" where
  "compatible combo = distinct (filter (\<lambda>g. g \<noteq> []) (map iv_exclusive_group combo))"

fun rfilter :: "('a \<Rightarrow> bool result) \<Rightarrow> 'a list \<Rightarrow> 'a list result" where
  "rfilter f [] = Inr []"
| "rfilter f (x # xs) =
     rbind (f x) (\<lambda>ok. rbind (rfilter f xs) (\<lambda>ys. Inr (if ok then x # ys else ys)))"

definition applicable_interventions ::
  "(rat \<Rightarrow> string) \<Rightarrow> building \<Rightarrow> intervention list \<Rightarrow> intervention list result" where
  "applicable_interventions fr b catalog = rfilter (\<lambda>iv. applies fr iv b) catalog"

text \<open>\<open>itertools.combinations(xs, k)\<close>, in its order.\<close>

fun combinations :: "nat \<Rightarrow> 'a list \<Rightarrow> 'a list list" where
  "combinations 0 xs = [[]]"
| "combinations (Suc k) [] = []"
| "combinations (Suc k) (x # xs) = map ((#) x) (combinations k xs) @ combinations (Suc k) xs"

definition bundle_limit :: "params \<Rightarrow> int option \<Rightarrow> int" where
  "bundle_limit p max_bundle_size =
     (case max_bundle_size of
        Some m \<Rightarrow> if m \<noteq> 0 then m else par_max_bundle_size p
      | None \<Rightarrow> par_max_bundle_size p)"

definition combos :: "int \<Rightarrow> 'a list \<Rightarrow> 'a list list" where
  "combos limit applicable =
     concat (map (\<lambda>size. combinations size applicable)
       [1..<nat (min limit (int (length applicable)) + 1)])"

definition candidate_key :: "building \<Rightarrow> intervention list \<Rightarrow> string" where
  "candidate_key b combo = bld_id b @ ''|'' @ join_with ''+'' (map iv_id combo)"

definition scored_candidate ::
  "building \<Rightarrow> intervention list \<Rightarrow> params \<Rightarrow> rat \<Rightarrow> rat \<Rightarrow> candidate result" where
  "scored_candidate b combo p kwh cost =
     rbind (bundle_saving_by_end_use b combo p) (\<lambda>by_end_use.
     rbind (lifetime_benefit_kgco2e kwh b combo p) (\<lambda>benefit.
     rbind (lifetime_tou_benefit_kgco2e by_end_use b combo p) (\<lambda>tou.
       mk_candidate (candidate_key b combo) (bld_id b) (bld_district b) (map iv_id combo)
         (join_with '' + '' (map iv_label combo)) cost kwh benefit (Some tou)
         (annual_egp_saving kwh p))))"

definition expand_combo :: "building \<Rightarrow> params \<Rightarrow> intervention list \<Rightarrow> candidate list result" where
  "expand_combo b p combo =
     (if \<not> compatible combo then Inr []
      else rbind (bundle_saving_kwh b combo p) (\<lambda>kwh.
        if kwh \<le> 0 then Inr []
        else rbind (assert_physically_possible b kwh p) (\<lambda>_.
          rbind (bundle_cost_egp b combo p) (\<lambda>cost.
            if cost \<le> 0 then Inr []
            else rbind (scored_candidate b combo p kwh cost) (\<lambda>c. Inr [c])))))"

definition expand_building ::
  "(rat \<Rightarrow> string) \<Rightarrow> building \<Rightarrow> intervention list \<Rightarrow> params \<Rightarrow> int option \<Rightarrow> candidate list result" where
  "expand_building fr b catalog p max_bundle_size =
     rbind (applicable_interventions fr b catalog) (\<lambda>applicable.
       rbind (rmapM (expand_combo b p) (combos (bundle_limit p max_bundle_size) applicable))
         (\<lambda>css. Inr (concat css)))"

definition expand_portfolio ::
  "(rat \<Rightarrow> string) \<Rightarrow> building list \<Rightarrow> intervention list \<Rightarrow> params \<Rightarrow> int option \<Rightarrow> candidate list result" where
  "expand_portfolio fr bs catalog p max_bundle_size =
     rbind (rmapM (\<lambda>b. expand_building fr b catalog p max_bundle_size) bs) (\<lambda>css. Inr (concat css))"

definition best_by_density :: "candidate list \<Rightarrow> string \<Rightarrow> candidate option" where
  "best_by_density cs building_id =
     py_max_by score_per_kegp (filter (\<lambda>c. cand_building_id c = building_id) cs)"

section \<open>Combinations\<close>

lemma set_combinations: "set (combinations k xs) = {c. subseq c xs \<and> length c = k}"
proof (induction k xs rule: combinations.induct)
  case (1 xs)
  then show ?case by auto
next
  case (2 k)
  then show ?case by auto
next
  case (3 k x xs)
  have "subseq c (x # xs) \<and> length c = Suc k \<longleftrightarrow>
      (\<exists>c'. c = x # c' \<and> subseq c' xs \<and> length c' = k) \<or> subseq c xs \<and> length c = Suc k" for c
  proof (cases c)
    case (Cons a c')
    then show ?thesis by (auto dest: subseq_Cons')
  qed simp
  then show ?case using 3 by auto
qed

lemma set_combos:
  "set (combos limit xs) = {c. subseq c xs \<and> 1 \<le> length c \<and> int (length c) \<le> limit}"
proof -
  have len: "length c \<le> length xs" if "subseq c xs" for c :: "'a list"
    using that by (rule list_emb_length)
  have "c \<in> set (combos limit xs) \<longleftrightarrow>
      1 \<le> length c \<and> length c < nat (min limit (int (length xs)) + 1) \<and> subseq c xs" for c
    by (auto simp: combos_def set_combinations)
  also have "\<dots> c \<longleftrightarrow> subseq c xs \<and> 1 \<le> length c \<and> int (length c) \<le> limit" for c
    using len [of c] by auto
  finally show ?thesis by blast
qed

lemma rfilter_eq:
  "rfilter f xs = Inr ys \<longleftrightarrow> (\<forall>x \<in> set xs. \<exists>t. f x = Inr t) \<and> ys = filter (\<lambda>x. f x = Inr True) xs"
proof (induction xs arbitrary: ys)
  case Nil
  then show ?case by auto
next
  case (Cons x xs)
  show ?case
  proof (cases "f x")
    case (Inl e)
    then show ?thesis by simp
  next
    case (Inr t)
    then have "rfilter f (x # xs) = Inr ys \<longleftrightarrow>
        (\<exists>zs. rfilter f xs = Inr zs \<and> ys = (if t then x # zs else zs))"
      by (auto simp: result_simps)
    then show ?thesis using Cons Inr by auto
  qed
qed

section \<open>What one combination contributes\<close>

lemma mk_candidate_Inr:
  "mk_candidate k i d ids l cost kwh v t e = Inr c \<Longrightarrow>
     cand_key c = k \<and> cand_building_id c = i \<and> cand_district c = d \<and> cand_intervention_ids c = ids \<and>
     cand_cost_egp c = cost \<and> cand_annual_kwh_saving c = kwh \<and> cand_lifetime_benefit c = v"
  by (auto simp: mk_candidate_def split: if_splits)

lemma scored_candidate_Inr:
  assumes "scored_candidate b combo p kwh cost = Inr c"
  shows "cand_key c = candidate_key b combo" and "cand_building_id c = bld_id b"
    and "cand_district c = bld_district b" and "cand_intervention_ids c = map iv_id combo"
    and "cand_cost_egp c = cost" and "cand_annual_kwh_saving c = kwh"
    and "lifetime_benefit_kgco2e kwh b combo p = Inr (cand_lifetime_benefit c)"
  using assms by (auto simp: scored_candidate_def result_simps dest!: mk_candidate_Inr)

definition worth_offering :: "building \<Rightarrow> params \<Rightarrow> intervention list \<Rightarrow> bool" where
  "worth_offering b p combo =
     (compatible combo \<and>
      (case bundle_saving_kwh b combo p of Inl _ \<Rightarrow> False | Inr kwh \<Rightarrow> 0 < kwh) \<and>
      (case bundle_cost_egp b combo p of Inl _ \<Rightarrow> False | Inr cost \<Rightarrow> 0 < cost))"

lemma expand_combo_Inr:
  assumes "expand_combo b p combo = Inr cs"
  shows "cs \<noteq> [] \<longleftrightarrow> worth_offering b p combo"
    and "c \<in> set cs \<Longrightarrow> cs = [c] \<and> cand_key c = candidate_key b combo \<and> cand_building_id c = bld_id b \<and>
           cand_district c = bld_district b \<and> cand_intervention_ids c = map iv_id combo \<and>
           bundle_cost_egp b combo p = Inr (cand_cost_egp c) \<and> 0 < cand_cost_egp c \<and>
           bundle_saving_kwh b combo p = Inr (cand_annual_kwh_saving c) \<and>
           0 < cand_annual_kwh_saving c \<and>
           lifetime_benefit_kgco2e (cand_annual_kwh_saving c) b combo p = Inr (cand_lifetime_benefit c) \<and>
           cand_annual_kwh_saving c \<le> bld_annual_kwh b * par_max_building_saving_frac p + 1 / 1000000"
  using assms
  by (auto simp: expand_combo_def worth_offering_def result_simps assert_physically_possible_def
      scored_candidate_Inr split: if_splits)

lemma expand_building_Inr:
  assumes "expand_building fr b catalog p m = Inr cs"
  obtains css where
    "rmapM (expand_combo b p)
       (combos (bundle_limit p m) (filter (\<lambda>iv. applies fr iv b = Inr True) catalog)) = Inr css"
    and "cs = concat css"
  using assms
  by (auto simp: expand_building_def applicable_interventions_def rfilter_eq result_simps)

lemma expand_building_member:
  assumes "expand_building fr b catalog p m = Inr cs" and "c \<in> set cs"
  obtains combo where "subseq combo (filter (\<lambda>iv. applies fr iv b = Inr True) catalog)"
    and "1 \<le> length combo" and "int (length combo) \<le> bundle_limit p m"
    and "expand_combo b p combo = Inr [c]"
proof -
  obtain css where css: "rmapM (expand_combo b p)
      (combos (bundle_limit p m) (filter (\<lambda>iv. applies fr iv b = Inr True) catalog)) = Inr css"
    "cs = concat css" using assms(1) by (rule expand_building_Inr)
  then obtain ds where ds: "ds \<in> set css" "c \<in> set ds" using assms(2) by auto
  then obtain combo where
    "combo \<in> set (combos (bundle_limit p m) (filter (\<lambda>iv. applies fr iv b = Inr True) catalog))"
    "expand_combo b p combo = Inr ds"
    using rmapM_from [OF css(1)] by blast
  moreover from this(2) have "ds = [c]" using expand_combo_Inr(2) ds(2) by blast
  ultimately show ?thesis using that unfolding set_combos by blast
qed

lemma expand_building_offers:
  assumes "expand_building fr b catalog p m = Inr cs"
    and "subseq combo (filter (\<lambda>iv. applies fr iv b = Inr True) catalog)"
    and "1 \<le> length combo" and "int (length combo) \<le> bundle_limit p m"
    and "worth_offering b p combo"
  obtains c where "c \<in> set cs" and "expand_combo b p combo = Inr [c]"
proof -
  let ?cb = "combos (bundle_limit p m) (filter (\<lambda>iv. applies fr iv b = Inr True) catalog)"
  obtain css where css: "rmapM (expand_combo b p) ?cb = Inr css" "cs = concat css"
    using assms(1) by (rule expand_building_Inr)
  have "combo \<in> set ?cb" using assms(2-4) by (simp add: set_combos)
  then obtain ds where ds: "ds \<in> set css" "expand_combo b p combo = Inr ds"
    using rmapM_each [OF css(1)] by blast
  then have "ds \<noteq> []" using expand_combo_Inr(1) assms(5) by blast
  then obtain c where c: "c \<in> set ds" by (cases ds) auto
  then have "expand_combo b p combo = Inr [c]" using ds(2) expand_combo_Inr(2) [OF ds(2)] by blast
  moreover have "c \<in> set cs" using c ds(1) css(2) by auto
  ultimately show ?thesis using that by blast
qed

section \<open>Keys\<close>

lemma distinct_combinations: "distinct xs \<Longrightarrow> distinct (combinations k xs)"
proof (induction k xs rule: combinations.induct)
  case (3 k x xs)
  have "x \<notin> set c" if "c \<in> set (combinations (Suc k) xs)" for c
    using that "3.prems" list_emb_set [of "(=)" c xs] by (auto simp: set_combinations)
  then have "set (map ((#) x) (combinations k xs)) \<inter> set (combinations (Suc k) xs) = {}"
    by fastforce
  moreover have "distinct (map ((#) x) (combinations k xs))"
    using 3 by (auto simp: distinct_map inj_on_def)
  ultimately show ?case using 3 by simp
qed simp_all

lemma distinct_combos:
  assumes "distinct xs"
  shows "distinct (combos limit xs)"
proof -
  have "distinct (concat (map (\<lambda>k. combinations k xs) ks))" if "distinct ks" for ks
    using that
  proof (induction ks)
    case (Cons k ks)
    have "set (combinations k xs) \<inter> (\<Union>j \<in> set ks. set (combinations j xs)) = {}"
      using Cons.prems by (auto simp: set_combinations)
    then show ?case using Cons distinct_combinations [OF assms] by auto
  qed simp
  then show ?thesis by (simp add: combos_def)
qed

lemma split_on_join:
  assumes "ws \<noteq> []" and "\<forall>w \<in> set ws. sep \<notin> set w"
  shows "split_on sep (join_with [sep] ws) = ws"
  using assms
  by (induction "[sep]" ws rule: join_with.induct) (simp_all add: split_on_no_sep split_on_append)

lemma join_plus_inj:
  assumes "join_with ''+'' ws = join_with ''+'' vs" and "ws \<noteq> []" and "vs \<noteq> []"
    and "\<forall>w \<in> set ws. CHR ''+'' \<notin> set w" and "\<forall>v \<in> set vs. CHR ''+'' \<notin> set v"
  shows "ws = vs"
  using assms split_on_join [of ws "CHR ''+''"] split_on_join [of vs "CHR ''+''"] by metis

lemma expand_combos_map:
  assumes "rmapM (expand_combo b p) xs = Inr css"
  shows "map cand_key (concat css) = map (candidate_key b) (filter (worth_offering b p) xs) \<and>
         map cand_intervention_ids (concat css) = map (map iv_id) (filter (worth_offering b p) xs) \<and>
         (\<forall>c \<in> set (concat css). cand_building_id c = bld_id b)"
  using assms
proof (induction xs arbitrary: css)
  case Nil
  then show ?case by simp
next
  case (Cons x xs)
  then obtain ds css' where ds: "expand_combo b p x = Inr ds" and css': "rmapM (expand_combo b p) xs = Inr css'"
    and css: "css = ds # css'" by (auto simp: result_simps)
  note IH = Cons.IH [OF css']
  show ?case
  proof (cases "worth_offering b p x")
    case True
    then obtain c where c: "c \<in> set ds" using expand_combo_Inr(1) [OF ds] by (cases ds) auto
    then show ?thesis using True IH css expand_combo_Inr(2) [OF ds c] by simp
  next
    case False
    then have "ds = []" using expand_combo_Inr(1) [OF ds] by blast
    then show ?thesis using False IH css by simp
  qed
qed

lemma expand_building_map:
  assumes "expand_building fr b catalog p m = Inr cs"
  defines "offered \<equiv> filter (worth_offering b p)
    (combos (bundle_limit p m) (filter (\<lambda>iv. applies fr iv b = Inr True) catalog))"
  shows "map cand_key cs = map (candidate_key b) offered"
    and "map cand_intervention_ids cs = map (map iv_id) offered"
    and "\<forall>c \<in> set cs. cand_building_id c = bld_id b"
  using assms(1) expand_combos_map unfolding offered_def by (auto elim!: expand_building_Inr)

lemma candidate_key_eq:
  assumes "candidate_key b combo = candidate_key b' combo'"
    and "CHR ''|'' \<notin> set (bld_id b)" and "CHR ''|'' \<notin> set (bld_id b')"
  shows "bld_id b = bld_id b'" and "join_with ''+'' (map iv_id combo) = join_with ''+'' (map iv_id combo')"
  using span_unique [of "bld_id b" "CHR ''|''" _ "bld_id b'" "CHR ''|''" _ "\<lambda>c. c \<noteq> CHR ''|''"] assms
  by (auto simp: candidate_key_def)

lemma expand_building_keys:
  assumes "expand_building fr b catalog p m = Inr cs" and "distinct (map iv_id catalog)"
    and "\<forall>iv \<in> set catalog. CHR ''+'' \<notin> set (iv_id iv)"
  shows "distinct (map cand_key cs)"
proof -
  let ?A = "filter (\<lambda>iv. applies fr iv b = Inr True) catalog"
  let ?off = "filter (worth_offering b p) (combos (bundle_limit p m) ?A)"
  have "distinct ?A" using assms(2) by (simp add: distinct_map)
  then have "distinct ?off" by (rule distinct_filter [OF distinct_combos])
  moreover have "inj_on (candidate_key b) (set ?off)"
  proof (rule inj_onI)
    fix c d
    assume cd: "c \<in> set ?off" "d \<in> set ?off" and eq: "candidate_key b c = candidate_key b d"
    then have sub: "set c \<subseteq> set catalog" "set d \<subseteq> set catalog" and ne: "c \<noteq> []" "d \<noteq> []"
      using list_emb_set [of "(=)" c ?A] list_emb_set [of "(=)" d ?A] by (auto simp: set_combos)
    have "join_with ''+'' (map iv_id c) = join_with ''+'' (map iv_id d)"
      using eq by (simp add: candidate_key_def)
    then have "map iv_id c = map iv_id d"
      by (rule join_plus_inj) (use ne sub assms(3) in auto)
    moreover have "inj_on iv_id (set c \<union> set d)"
      using assms(2) sub by (auto simp: distinct_map intro: inj_on_subset)
    ultimately show "c = d" by (rule map_inj_on)
  qed
  ultimately show ?thesis
    unfolding expand_building_map(1) [OF assms(1)] by (simp add: distinct_map)
qed

lemma portfolio_keys_disjoint:
  assumes "CHR ''|'' \<notin> set (bld_id b)" and "CHR ''|'' \<notin> set (bld_id b')" and "bld_id b \<noteq> bld_id b'"
    and "expand_building fr b catalog p m = Inr cs" and "expand_building fr b' catalog p m = Inr cs'"
  shows "set (map cand_key cs) \<inter> set (map cand_key cs') = {}"
  unfolding expand_building_map(1) [OF assms(4)] expand_building_map(1) [OF assms(5)]
  using candidate_key_eq(1) [OF _ assms(1,2)] assms(3) by auto

lemma expand_portfolio_keys:
  assumes "rmapM (\<lambda>b. expand_building fr b catalog p m) bs = Inr css" and "distinct (map bld_id bs)"
    and "\<forall>b \<in> set bs. CHR ''|'' \<notin> set (bld_id b)" and "distinct (map iv_id catalog)"
    and "\<forall>iv \<in> set catalog. CHR ''+'' \<notin> set (iv_id iv)"
  shows "distinct (map cand_key (concat css))"
  using assms(1-3)
proof (induction bs arbitrary: css)
  case Nil
  then show ?case by simp
next
  case (Cons b bs)
  then obtain cs css' where cs: "expand_building fr b catalog p m = Inr cs"
    and css': "rmapM (\<lambda>b. expand_building fr b catalog p m) bs = Inr css'" and css: "css = cs # css'"
    by (auto simp: result_simps)
  have "set (map cand_key cs) \<inter> set (map cand_key ds) = {}" if mem: "ds \<in> set css'" for ds
  proof -
    obtain b' where b': "b' \<in> set bs" "expand_building fr b' catalog p m = Inr ds"
      using rmapM_from [OF css' mem] by blast
    show ?thesis
      by (rule portfolio_keys_disjoint [OF _ _ _ cs b'(2)]) (use Cons.prems b'(1) in auto)
  qed
  then have "set (map cand_key cs) \<inter> set (map cand_key (concat css')) = {}" by fastforce
  then show ?case
    using Cons.IH [OF css'] Cons.prems expand_building_keys [OF cs assms(4,5)] css by simp
qed

section \<open>When the expansion cannot fail\<close>

text \<open>
  The data contract at one building: the checked parameters and rows, the clean
  cross-validation, and what neither checks - that the building's occupancy has shares, that
  its field values fall in a bucket, that the conditions can be read, and that the ceiling on
  a bundle is within the guard.
\<close>

definition contract_at :: "(rat \<Rightarrow> string) \<Rightarrow> building \<Rightarrow> intervention list \<Rightarrow> params \<Rightarrow> bool" where
  "contract_at fr b catalog p =
     (validate_params p = Inr p \<and> list_all (\<lambda>iv. validate_intervention iv = Inr iv) catalog \<and>
      cross_validate catalog p = [] \<and>
      (\<exists>b0. validate_building b0 = Inr b) \<and>
      map_of (par_end_use_share p) (bld_occupancy_pattern b) \<noteq> None \<and>
      list_all (\<lambda>iv. (case adj_multiplier p (iv_adj_key iv) b of Inl _ \<Rightarrow> False | Inr _ \<Rightarrow> True)) catalog \<and>
      list_all (\<lambda>iv. (case applies fr iv b of Inl _ \<Rightarrow> False | Inr _ \<Rightarrow> True)) catalog \<and>
      par_cap_total_saving_frac p \<le> par_max_building_saving_frac p)"

lemma building_ok:
  assumes "validate_building b0 = Inr b"
  shows "0 < bld_floor_area_m2 b" and "0 < bld_roof_area_m2 b" and "0 \<le> bld_glazing_area_m2 b"
    and "0 < bld_annual_kwh b" and "bld_roof_orientation b \<in> set ORIENTATIONS"
    and "0 \<le> bld_hvac_age_yr b" and "bld_insulation_quality b \<in> set INSULATION_QUALITIES"
    and "bld_occupancy_pattern b \<in> set OCCUPANCIES"
  using assms by (auto simp: validate_building_def result_simps split: if_splits)

lemma contract_assessable:
  assumes "contract_at fr b catalog p" and "iv \<in> set catalog"
  shows "assessable b p iv"
proof -
  obtain b0 where b0: "validate_building b0 = Inr b" and cv: "cross_validate catalog p = []"
    using assms(1) by (auto simp: contract_at_def)
  obtain shares where sh: "map_of (par_end_use_share p) (bld_occupancy_pattern b) = Some shares"
    using assms(1) by (auto simp: contract_at_def)
  obtain m where m: "adj_multiplier p (iv_adj_key iv) b = Inr m"
    using assms by (auto simp: contract_at_def list_all_iff result_simps)
  obtain f where f: "map_of (sol_orientation_factor (par_solar p)) (bld_roof_orientation b) = Some f"
    using cross_validate_clean(1) [OF cv building_ok(5) [OF b0]] by blast
  show ?thesis
  proof (cases "is_generation iv")
    case True
    then show ?thesis using f
      by (simp add: assessable_def solar_saving_kwh_def solar_generation_kwh_def Let_def)
  next
    case False
    then obtain s where "share p (bld_occupancy_pattern b) (iv_end_use iv) = Inr s"
      using cross_validate_clean(3) [OF cv assms(2) False sh] by blast
    then show ?thesis using False m
      by (simp add: assessable_def end_use_baseline_kwh_def effective_saving_frac_def)
  qed
qed

lemma dimension_total:
  "basis \<in> set EMBODIED_TYPES \<Longrightarrow> \<exists>d. dimension b basis p = Inr d"
  "basis \<in> set COST_TYPES \<Longrightarrow> basis \<noteq> ''solar'' \<Longrightarrow> \<exists>d. dimension b basis p = Inr d"
  by (auto simp: dimension_def EMBODIED_TYPES_def COST_TYPES_def)

lemma costs_total:
  assumes "validate_intervention iv = Inr iv"
  shows "\<exists>c. upfront_cost_egp b iv p = Inr c" and "\<exists>e. embodied_once_kgco2e b iv p = Inr e"
proof -
  note v = validate_intervention_ok [OF assms]
  show "\<exists>c. upfront_cost_egp b iv p = Inr c"
    using dimension_total(2) [OF v(8), of b p] by (auto simp: upfront_cost_egp_def)
  show "\<exists>e. embodied_once_kgco2e b iv p = Inr e"
    using dimension_total(1) [OF v(9), of b p] by (auto simp: embodied_once_kgco2e_def)
qed

lemma scored_candidate_total:
  assumes "validate_params p = Inr p" and "validate_building b0 = Inr b"
    and "bundle_saving_kwh b combo p = Inr kwh" and "0 < kwh" and "0 < cost"
    and "\<forall>iv \<in> set combo. validate_intervention iv = Inr iv"
  shows "\<exists>c. scored_candidate b combo p kwh cost = Inr c"
proof -
  obtain slices where slices: "bundle_saving_by_end_use b combo p = Inr slices"
    using assms(3) by (auto simp: bundle_saving_kwh_def result_simps)
  let ?once = "\<lambda>iv. rbind (embodied_once_kgco2e b iv p)
      (\<lambda>once. Inr (discounted_embodied once (iv_service_life_yr iv) p))"
  have "\<exists>y. ?once iv = Inr y" if "iv \<in> set combo" for iv
    using costs_total(2) [of iv b p] assms(6) that by (auto simp: result_simps)
  from rsum_eq_iff [of combo ?once, OF this] obtain e where e: "embodied_total b combo p = Inr e"
    by (auto simp: embodied_total_def)
  have "\<exists>f. effective_grid_factor b p = Inr f"
    using validate_params_ok(14) [OF assms(1)] building_shape_ok(1) [OF assms(2)]
    by (cases "par_tou p")
       (auto simp: effective_grid_factor_def Let_def HOURS_PER_DAY_def TOU_HOURS_def)
  moreover have "0 \<le> annual_egp_saving kwh p"
    using assms(4) validate_params_ok(6) [OF assms(1)] by (simp add: annual_egp_saving_def)
  ultimately show ?thesis
    using slices e assms(4,5)
    by (auto simp: scored_candidate_def lifetime_benefit_kgco2e_def lifetime_tou_benefit_kgco2e_def
        mk_candidate_def Let_def)
qed

lemma expand_combo_total:
  assumes "contract_at fr b catalog p" and "set combo \<subseteq> set catalog"
  shows "\<exists>cs. expand_combo b p combo = Inr cs"
proof -
  have v: "validate_params p = Inr p" and cap: "par_cap_total_saving_frac p \<le> par_max_building_saving_frac p"
    and rows: "\<forall>iv \<in> set combo. validate_intervention iv = Inr iv"
    using assms by (auto simp: contract_at_def list_all_iff)
  obtain b0 where b0: "validate_building b0 = Inr b" using assms(1) by (auto simp: contract_at_def)
  have pos: "0 < bld_annual_kwh b" by (rule building_ok(4) [OF b0])
  have ceil: "0 \<le> saving_ceiling b p"
    using validate_params_ok(9) [OF v] pos by (simp add: saving_ceiling_def)
  have "\<forall>iv \<in> set combo. assessable b p iv" using contract_assessable [OF assms(1)] assms(2) by blast
  then obtain kwh where kwh: "bundle_saving_kwh b combo p = Inr kwh" and le: "kwh \<le> saving_ceiling b p"
    using bundle_saving_spec [OF ceil, of combo] by auto
  have "saving_ceiling b p \<le> bld_annual_kwh b * par_max_building_saving_frac p"
    using mult_left_mono [OF cap, of "bld_annual_kwh b"] pos by (simp add: saving_ceiling_def)
  then have guard: "assert_physically_possible b kwh p = Inr ()"
    using le by (simp add: assert_physically_possible_def)
  obtain cost where cost: "bundle_cost_egp b combo p = Inr cost"
    unfolding bundle_cost_egp_def using rsum_eq_iff [of combo "\<lambda>iv. upfront_cost_egp b iv p"]
      costs_total(1) rows by blast
  show ?thesis
    using kwh guard cost scored_candidate_total [OF v b0 kwh _ _ rows, of cost]
    by (auto simp: expand_combo_def not_le)
qed

lemma rmapM_total:
  "(\<And>x. x \<in> set xs \<Longrightarrow> \<exists>y. f x = Inr y) \<Longrightarrow> \<exists>ys. rmapM f xs = Inr ys"
  by (induction xs) (auto simp: result_simps)

lemma expand_building_total:
  assumes "contract_at fr b catalog p"
  shows "\<exists>cs. expand_building fr b catalog p m = Inr cs"
proof -
  let ?A = "filter (\<lambda>iv. applies fr iv b = Inr True) catalog"
  have "applicable_interventions fr b catalog = Inr ?A"
    using assms by (auto simp: applicable_interventions_def rfilter_eq contract_at_def list_all_iff
        result_simps)
  moreover have "\<exists>css. rmapM (expand_combo b p) (combos (bundle_limit p m) ?A) = Inr css"
  proof (rule rmapM_total)
    fix combo
    assume "combo \<in> set (combos (bundle_limit p m) ?A)"
    then have "set combo \<subseteq> set catalog"
      using list_emb_set [of "(=)" combo ?A] by (auto simp: set_combos)
    then show "\<exists>cs. expand_combo b p combo = Inr cs" by (rule expand_combo_total [OF assms])
  qed
  ultimately show ?thesis by (auto simp: expand_building_def)
qed

section \<open>The shipped data\<close>

lemma age_bucket_keys:
  "numeric_bucket_matches ''<5'' x = Inr (x < 5)"
  "numeric_bucket_matches ''5-14'' x = Inr (5 \<le> x \<and> x \<le> 14)"
  "numeric_bucket_matches ''>=15'' x = Inr (15 \<le> x)"
proof -
  have reads: "read_float ''5'' = Inr (Fin 5)" "read_float ''14'' = Inr (Fin 14)"
    "read_float ''15'' = Inr (Fin 15)" by code_simp+
  have keys: "strip ''<5'' = ''<5''" "strip ''5-14'' = ''5-14''" "strip ''>=15'' = ''>=15''"
    "partition_at ''-'' ''5-14'' = Some (''5'', ''14'')" by code_simp+
  show "numeric_bucket_matches ''<5'' x = Inr (x < 5)"
    "numeric_bucket_matches ''5-14'' x = Inr (5 \<le> x \<and> x \<le> 14)"
    "numeric_bucket_matches ''>=15'' x = Inr (15 \<le> x)"
    by (auto simp: numeric_bucket_matches_def keys reads BUCKET_OPS_def float_compare_def
        float_lt_def float_eq_def Let_def)
qed

lemma age_multiplier:
  fixes years :: int
  shows "\<exists>f. first_bucket (age_buckets new old) (of_int years) = Inr f"
proof -
  have "(of_int years :: rat) < 5 \<or> 5 \<le> (of_int years :: rat) \<and> (of_int years :: rat) \<le> 14 \<or>
      15 \<le> (of_int years :: rat)"
    by (cases "years < 5"; cases "years \<le> 14") auto
  then show ?thesis by (auto simp: age_buckets_def age_bucket_keys)
qed

lemma quality_multiplier:
  "q \<in> set INSULATION_QUALITIES \<Longrightarrow> \<exists>f. match_bucket (quality_buckets poor good) (F_Str q) = Inr f"
  by (auto simp: INSULATION_QUALITIES_def match_bucket_def quality_buckets_def)

lemma building_attr_at:
  "building_attr b ''hvac_age_yr'' = Some (F_Int (bld_hvac_age_yr b))"
  "building_attr b ''insulation_quality'' = Some (F_Str (bld_insulation_quality b))"
  "building_attr b ''glazing_ratio'' = Some (F_Num (glazing_ratio b))"
  "building_attr b ''roof_area_m2'' = Some (F_Num (bld_roof_area_m2 b))"
  by (simp_all add: building_attr_def building_attrs_def)

lemma shipped_multipliers:
  assumes "validate_building b0 = Inr b" and "iv \<in> set shipped_catalog"
  shows "\<exists>f. adj_multiplier shipped_params (iv_adj_key iv) b = Inr f"
proof -
  have q: "\<exists>f. match_bucket (quality_buckets poor good) (F_Str (bld_insulation_quality b)) = Inr f"
    for poor good by (rule quality_multiplier) (rule building_ok(7) [OF assms(1)])
  have a: "\<exists>f. match_bucket (age_buckets new old) (F_Int (bld_hvac_age_yr b)) = Inr f" for new old
    using age_multiplier [of new old "bld_hvac_age_yr b"] by (simp add: match_bucket_def number_of_def)
  have "iv_adj_key iv \<in> {[], ''insulation'', ''glazing'', ''hvac_replacement'', ''hvac_controls''}"
    using assms(2) by (auto simp: shipped_catalog_def shipped_rows)
  then show ?thesis
    using q [of "14 / 10" "4 / 10"] q [of "125 / 100" "6 / 10"] a [of "5 / 10" "13 / 10"]
      a [of "8 / 10" "11 / 10"]
    by (auto simp: adj_multiplier_def shipped_params_def shipped_adj_def building_attr_at result_simps)
qed

lemma numeric_condition:
  assumes "partition_at '' in '' cond = None" and "find (\<lambda>cmp. has_substring cmp cond) CONDITION_OPS = Some cmp"
    and "partition_at cmp cond = Some (field, raw)" and "read_float (strip raw) = Inr bound"
    and "building_attr b (strip field) = Some v" and "number_of v = Inr x"
  shows "condition_holds fr cond b = Inr (float_compare cmp (Fin x) bound)"
  using assms by (simp add: condition_holds_def building_field_def)

lemma shipped_conditions:
  "condition_holds fr ''insulation_quality in poor|fair'' b =
     Inr (bld_insulation_quality b \<in> {''poor'', ''fair''})"
  "condition_holds fr ''glazing_ratio>=0.15'' b = Inr (15 / 100 \<le> glazing_ratio b)"
  "condition_holds fr ''hvac_age_yr>=8'' b = Inr (8 \<le> bld_hvac_age_yr b)"
  "condition_holds fr ''roof_area_m2>=200'' b = Inr (200 \<le> bld_roof_area_m2 b)"
proof -
  have parts: "partition_at '' in '' ''insulation_quality in poor|fair'' = Some (''insulation_quality'', ''poor|fair'')"
    "strip ''insulation_quality'' = ''insulation_quality''"
    "split_on (CHR ''|'') ''poor|fair'' = [''poor'', ''fair'']" "strip ''poor'' = ''poor''"
    "strip ''fair'' = ''fair''" by code_simp+
  then show "condition_holds fr ''insulation_quality in poor|fair'' b =
      Inr (bld_insulation_quality b \<in> {''poor'', ''fair''})"
    by (simp add: condition_holds_def building_field_def building_attr_at show_value_def)
  have "condition_holds fr ''glazing_ratio>=0.15'' b =
      Inr (float_compare ''>='' (Fin (glazing_ratio b)) (Fin (15 / 100)))"
    by (rule numeric_condition [where field = "''glazing_ratio''" and raw = "''0.15''"
            and v = "F_Num (glazing_ratio b)"], code_simp, code_simp, code_simp, code_simp)
       (simp_all add: number_of_def building_attr_at strip_digits is_space_def)
  then show "condition_holds fr ''glazing_ratio>=0.15'' b = Inr (15 / 100 \<le> glazing_ratio b)"
    by (simp add: float_compare_def)
  have "condition_holds fr ''hvac_age_yr>=8'' b =
      Inr (float_compare ''>='' (Fin (of_int (bld_hvac_age_yr b))) (Fin 8))"
    by (rule numeric_condition [where field = "''hvac_age_yr''" and raw = "''8''"
            and v = "F_Int (bld_hvac_age_yr b)"], code_simp, code_simp, code_simp, code_simp)
       (simp_all add: number_of_def building_attr_at strip_digits is_space_def)
  then show "condition_holds fr ''hvac_age_yr>=8'' b = Inr (8 \<le> bld_hvac_age_yr b)"
    by (simp add: float_compare_def)
  have "condition_holds fr ''roof_area_m2>=200'' b =
      Inr (float_compare ''>='' (Fin (bld_roof_area_m2 b)) (Fin 200))"
    by (rule numeric_condition [where field = "''roof_area_m2''" and raw = "''200''"
            and v = "F_Num (bld_roof_area_m2 b)"], code_simp, code_simp, code_simp, code_simp)
       (simp_all add: number_of_def building_attr_at strip_digits is_space_def)
  then show "condition_holds fr ''roof_area_m2>=200'' b = Inr (200 \<le> bld_roof_area_m2 b)"
    by (simp add: float_compare_def)
qed

lemma shipped_applies:
  assumes "iv \<in> set shipped_catalog"
  shows "\<exists>t. applies fr iv b = Inr t"
proof -
  have rules: "strip ''insulation_quality in poor|fair'' = ''insulation_quality in poor|fair''"
    "strip ''glazing_ratio>=0.15'' = ''glazing_ratio>=0.15''"
    "strip ''hvac_age_yr>=8'' = ''hvac_age_yr>=8''" "strip ''roof_area_m2>=200'' = ''roof_area_m2>=200''"
    by code_simp+
  have one: "\<exists>t. applies fr iv b = Inr t"
    if "strip (iv_applies_if iv) = rule" "CHR '';'' \<notin> set rule" "strip rule = rule"
      "condition_holds fr rule b = Inr t" for rule t
    using that by (auto simp: applies_def split_on_no_sep Let_def)
  have none: "applies fr iv b = Inr True" if "iv_applies_if iv = []"
    using that by (simp add: applies_def strip_def)
  have "iv_applies_if iv \<in> {[], ''insulation_quality in poor|fair'', ''glazing_ratio>=0.15'',
      ''hvac_age_yr>=8'', ''roof_area_m2>=200''}"
    using assms by (auto simp: shipped_catalog_def shipped_rows)
  then show ?thesis
    using none
      one [OF _ _ rules(1) shipped_conditions(1)] one [OF _ _ rules(2) shipped_conditions(2)]
      one [OF _ _ rules(3) shipped_conditions(3)] one [OF _ _ rules(4) shipped_conditions(4)]
    by (auto simp: rules)
qed

lemma shipped_contract:
  assumes "validate_building b0 = Inr b"
  shows "contract_at fr b shipped_catalog shipped_params"
proof -
  have "rmapM validate_intervention shipped_catalog = Inr shipped_catalog" by code_simp
  from rmapM_each [OF this] have "\<exists>iv'. validate_intervention iv = Inr iv'"
    if "iv \<in> set shipped_catalog" for iv using that by blast
  then have rows: "list_all (\<lambda>iv. validate_intervention iv = Inr iv) shipped_catalog"
    using validate_intervention_ok(1) by (fastforce simp: list_all_iff)
  have occ: "map_of (par_end_use_share shipped_params) (bld_occupancy_pattern b) \<noteq> None"
    using building_ok(8) [OF assms]
    by (auto simp: OCCUPANCIES_def shipped_params_def shipped_shares_def)
  have adj: "list_all (\<lambda>iv. case adj_multiplier shipped_params (iv_adj_key iv) b of Inl _ \<Rightarrow> False | Inr _ \<Rightarrow> True)
      shipped_catalog"
    using shipped_multipliers [OF assms] by (simp add: list_all_iff result_simps)
  have app: "list_all (\<lambda>iv. case applies fr iv b of Inl _ \<Rightarrow> False | Inr _ \<Rightarrow> True) shipped_catalog"
    using shipped_applies by (simp add: list_all_iff result_simps)
  have cap: "par_cap_total_saving_frac shipped_params \<le> par_max_building_saving_frac shipped_params"
    by (simp add: shipped_params_def)
  show ?thesis
    unfolding contract_at_def using shipped_params_valid rows shipped_cross_validate occ adj app cap assms
    by blast
qed

section \<open>Properties\<close>


lemma sample_expansion:
  "\<exists>cs. expand_building (\<lambda>_. []) sample_school shipped_catalog shipped_params None = Inr cs"
  by (rule expand_building_total [OF shipped_contract [OF sample_school_valid]])

lemma sample_offers:
  "map (map iv_id) (filter (worth_offering sample_school shipped_params)
     (combos (bundle_limit shipped_params (Some 2))
       (filter (\<lambda>iv. applies (\<lambda>_. []) iv sample_school = Inr True) [led_lighting, hvac_controls, rooftop_solar]))) =
   [[''led_lighting_v1''], [''hvac_controls_v1''], [''rooftop_solar_v1''],
    [''led_lighting_v1'', ''hvac_controls_v1''], [''led_lighting_v1'', ''rooftop_solar_v1''],
    [''hvac_controls_v1'', ''rooftop_solar_v1'']]"
  by code_simp

lemma sample_small_expansion:
  "\<exists>cs. expand_building (\<lambda>_. []) sample_school [led_lighting, hvac_controls, rooftop_solar]
          shipped_params (Some 2) = Inr cs"
proof -
  have "contract_at (\<lambda>_. []) sample_school [led_lighting, hvac_controls, rooftop_solar] shipped_params"
    unfolding contract_at_def
    by (intro conjI, rule shipped_params_valid, code_simp, code_simp,
        use sample_school_valid in blast, code_simp, code_simp, code_simp, code_simp)
  then show ?thesis by (rule expand_building_total)
qed


text \<open>
  When building ids have no \<open>|\<close> and the ids of the catalogue are distinct and have no \<open>+\<close>,
  the candidates of a portfolio have distinct keys.
\<close>
theorem candidate_keys_distinct:
  assumes "expand_portfolio fr bs catalog p m = Inr cs" and "distinct (map bld_id bs)"
    and "\<forall>b \<in> set bs. CHR ''|'' \<notin> set (bld_id b)" and "distinct (map iv_id catalog)"
    and "\<forall>iv \<in> set catalog. CHR ''+'' \<notin> set (iv_id iv)"
  shows "distinct (map cand_key cs)"
  using assms(1) expand_portfolio_keys [OF _ assms(2-5)]
  by (auto simp: expand_portfolio_def result_simps)

theorem candidate_keys_distinct_witness:
  "\<exists>cs. expand_portfolio (\<lambda>_. []) [sample_school] shipped_catalog shipped_params None = Inr cs \<and>
        distinct (map cand_key cs)"
proof -
  obtain cs where "expand_portfolio (\<lambda>_. []) [sample_school] shipped_catalog shipped_params None = Inr cs"
    using sample_expansion by (auto simp: expand_portfolio_def)
  moreover from this have "distinct (map cand_key cs)"
    by (rule candidate_keys_distinct) (simp_all add: sample_school_def shipped_catalog_def shipped_rows)
  ultimately show ?thesis by blast
qed

text \<open>
  No key, bucket, condition or guard error can occur while a portfolio is expanded that meets
  the data contract at every building.
\<close>
theorem contract_suffices:
  assumes "\<forall>b \<in> set bs. contract_at fr b catalog p"
  shows "\<exists>cs. expand_portfolio fr bs catalog p m = Inr cs"
proof -
  have "\<exists>css. rmapM (\<lambda>b. expand_building fr b catalog p m) bs = Inr css"
    by (rule rmapM_total) (use expand_building_total assms in blast)
  then show ?thesis by (auto simp: expand_portfolio_def)
qed

theorem contract_suffices_witness:
  "\<exists>cs. expand_portfolio (\<lambda>_. []) [sample_school] shipped_catalog shipped_params None = Inr cs"
  by (rule contract_suffices) (simp add: shipped_contract [OF sample_school_valid])

end
