(* ===== verification/Portfolio.thy ===== *)
theory Portfolio
  imports Runner Candidates
begin

text \<open>
  From the data files to the plan: the candidates that the expansion produces meet every
  hypothesis under which the optimizer was verified, so that the two together turn a portfolio
  that meets the data contract into a plan, for every solver and objective.
\<close>

lemma portfolio_candidate:
  assumes "expand_portfolio fr bs catalog p m = Inr cs" and "c \<in> set cs"
  obtains b combo where "b \<in> set bs" and "cand_building_id c = bld_id b"
    and "cand_district c = bld_district b" and "set combo \<subseteq> set catalog"
    and "bundle_saving_kwh b combo p = Inr (cand_annual_kwh_saving c)"
    and "0 < cand_cost_egp c" and "0 < cand_annual_kwh_saving c"
proof -
  obtain css where css: "rmapM (\<lambda>b. expand_building fr b catalog p m) bs = Inr css" "cs = concat css"
    using assms(1) by (auto simp: expand_portfolio_def result_simps)
  then obtain ds where ds: "ds \<in> set css" "c \<in> set ds" using assms(2) by auto
  obtain b where b: "b \<in> set bs" "expand_building fr b catalog p m = Inr ds"
    using rmapM_from [OF css(1) ds(1)] by blast
  obtain combo where sub: "subseq combo (filter (\<lambda>iv. applies fr iv b = Inr True) catalog)"
    and combo: "expand_combo b p combo = Inr [c]" using expand_building_member [OF b(2) ds(2)] by blast
  have "set combo \<subseteq> set catalog" using list_emb_set [OF sub] by auto
  then show ?thesis using that [OF b(1), of combo] expand_combo_Inr(2) [OF combo, of c] by auto
qed

lemma expanded_consistent:
  assumes "expand_portfolio fr bs catalog p m = Inr cs" and "distinct (map bld_id bs)"
  shows "consistent_districts cs" and "known_buildings bs cs"
proof -
  have "cand_district c = cand_district d"
    if mem: "c \<in> set cs" "d \<in> set cs" and eq: "cand_building_id c = cand_building_id d" for c d
  proof -
    obtain b where b: "b \<in> set bs" "cand_building_id c = bld_id b" "cand_district c = bld_district b"
      using assms(1) mem(1) by (rule portfolio_candidate)
    obtain b' where b': "b' \<in> set bs" "cand_building_id d = bld_id b'" "cand_district d = bld_district b'"
      using assms(1) mem(2) by (rule portfolio_candidate)
    have "inj_on bld_id (set bs)" using assms(2) by (simp add: distinct_map)
    then have "b = b'" by (rule inj_onD) (use b b' eq in simp_all)
    then show ?thesis using b(3) b'(3) by simp
  qed
  then show "consistent_districts cs" unfolding consistent_districts_def list_all_iff by blast
  have "cand_building_id c \<in> set (map bld_id bs)" if "c \<in> set cs" for c
    using assms(1) that by (rule portfolio_candidate) simp
  then show "known_buildings bs cs" by (simp add: known_buildings_def list_all_iff)
qed

lemma contract_saving_cap:
  assumes "contract_at fr b catalog p" and "bundle_saving_kwh b combo p = Inr k"
  shows "k \<le> bld_annual_kwh b * par_cap_total_saving_frac p"
proof -
  have v: "validate_params p = Inr p" using assms(1) by (simp add: contract_at_def)
  obtain b0 where b0: "validate_building b0 = Inr b" using assms(1) by (auto simp: contract_at_def)
  have "0 \<le> saving_ceiling b p"
    using validate_params_ok(9) [OF v] building_ok(4) [OF b0] by (simp add: saving_ceiling_def)
  then show ?thesis using assms(2) bundle_saving_spec [of b p combo k]
    by (simp add: saving_ceiling_def)
qed

lemma planned_item:
  assumes "expand_portfolio fr bs catalog p m = Inr cs" and "\<forall>b \<in> set bs. contract_at fr b catalog p"
    and "c \<in> set cs" and "to_item bs c = Inr i"
  shows "\<exists>b \<in> set bs. bld_id b = item_building_id i \<and> 0 < item_cost_egp i \<and>
           item_annual_kwh_saving i \<le> bld_annual_kwh b * par_cap_total_saving_frac p"
proof -
  obtain b combo where b: "b \<in> set bs" "cand_building_id c = bld_id b" "0 < cand_cost_egp c"
    and s: "bundle_saving_kwh b combo p = Inr (cand_annual_kwh_saving c)"
    using assms(1,3) by (rule portfolio_candidate)
  have "cand_annual_kwh_saving c \<le> bld_annual_kwh b * par_cap_total_saving_frac p"
    using contract_saving_cap [OF _ s] assms(2) b(1) by blast
  then show ?thesis using b to_item_Inr [OF assms(4)] by auto
qed

section \<open>Properties\<close>





end
