(* ===== verification/Canonical.thy ===== *)
theory Canonical
  imports Text
begin

text \<open>
  The byte encoding that is signed (\<open>canonical\<close> of \<open>src/gemp/ingest/integrity.py\<close>):
  timestamps as whole UTC seconds, power at four decimals, and \<open>json.dumps\<close> with sorted
  keys, no white space and ASCII escapes. The lemmas show that the encoding determines
  the fields, which is what makes a signature over it a signature over a reading.
\<close>

section \<open>Time\<close>

text \<open>
  A \<open>datetime\<close> is its wall clock in microseconds since 1970-01-01T00:00:00, and for an
  aware one its UTC offset in microseconds.
\<close>

datatype datetime = Naive int | Aware int int

fun as_utc :: "datetime \<Rightarrow> datetime" where
  "as_utc (Naive wall) = Aware wall 0"
| "as_utc (Aware wall offset) = Aware (wall - offset) 0"

fun instant :: "datetime \<Rightarrow> int" where
  "instant (Naive wall) = wall"
| "instant (Aware wall offset) = wall - offset"

text \<open>\<open>int(as_utc(ts).timestamp())\<close>: seconds, truncated towards zero.\<close>

definition epoch_seconds :: "datetime \<Rightarrow> int" where
  "epoch_seconds ts =
     (let us = instant (as_utc ts)
      in if us \<ge> 0 then us div 1000000 else - ((- us) div 1000000))"

section \<open>Numbers as text\<close>

text \<open>\<open>f"{x:.4f}"\<close>: the value rounded half to even at the fourth decimal.\<close>

definition fixed4 :: "rat \<Rightarrow> string" where
  "fixed4 x =
     (let n = nat (py_round (\<bar>x\<bar> * 10000)); frac = n mod 10000
      in (if x < 0 then ''-'' else '''') @ nat_digits (n div 10000) @ ''.'' @
         [digit (frac div 1000), digit (frac div 100 mod 10),
          digit (frac div 10 mod 10), digit (frac mod 10)])"

section \<open>JSON\<close>

text \<open>\<open>json\<close>'s ASCII escapes, with the short forms it uses.\<close>

definition escape_char :: "char \<Rightarrow> string" where
  "escape_char c =
     (let n = of_char c :: nat
      in if n = 0x22 then [CHR 0x5C, CHR 0x22]
         else if n = 0x5C then [CHR 0x5C, CHR 0x5C]
         else if n = 0x0A then [CHR 0x5C, CHR ''n'']
         else if n = 0x0D then [CHR 0x5C, CHR ''r'']
         else if n = 0x09 then [CHR 0x5C, CHR ''t'']
         else if n = 0x0C then [CHR 0x5C, CHR ''f'']
         else if n = 0x08 then [CHR 0x5C, CHR ''b'']
         else if 0x20 \<le> n \<and> n \<le> 0x7E then [c]
         else [CHR 0x5C, CHR ''u'', CHR ''0'', CHR ''0'', hexdigit (n div 16), hexdigit (n mod 16)])"

definition json_string :: "string \<Rightarrow> string" where
  "json_string s = CHR 0x22 # concat (map escape_char s) @ [CHR 0x22]"

datatype json_atom = JStr string | JInt int

fun dump_atom :: "json_atom \<Rightarrow> string" where
  "dump_atom (JStr s) = json_string s"
| "dump_atom (JInt i) = show_int i"

fun dump_members :: "(string \<times> json_atom) list \<Rightarrow> string" where
  "dump_members [] = ''''"
| "dump_members [(k, v)] = json_string k @ '':'' @ dump_atom v"
| "dump_members ((k, v) # m # ms) = json_string k @ '':'' @ dump_atom v @ '','' @ dump_members (m # ms)"

text \<open>\<open>json.dumps(.., separators=(",", ":"))\<close> of an object, its members in the order given.\<close>

definition dumps :: "(string \<times> json_atom) list \<Rightarrow> string" where
  "dumps ms = ''{'' @ dump_members ms @ ''}''"

section \<open>The signed fields\<close>

record row =
  row_building_id :: "string option"
  row_ts :: "datetime option"
  row_kw :: "rat option"
  row_source :: "string option"
  row_seq :: "int option"
  row_sig :: "bytes option"

definition field :: "string \<Rightarrow> 'a option \<Rightarrow> 'a result" where
  "field name v = (case v of None \<Rightarrow> Inl (IntegrityError name) | Some x \<Rightarrow> Inr x)"

definition canonical :: "row \<Rightarrow> bytes result" where
  "canonical row =
     rbind (field ''building_id'' (row_building_id row)) (\<lambda>building_id.
     rbind (field ''ts'' (row_ts row)) (\<lambda>ts.
     rbind (field ''kw'' (row_kw row)) (\<lambda>kw.
     rbind (field ''source'' (row_source row)) (\<lambda>source.
     rbind (field ''seq'' (row_seq row)) (\<lambda>seq.
       Inr (dumps [(''building_id'', JStr building_id), (''kw'', JStr (fixed4 kw)), (''seq'', JInt seq),
                   (''source'', JStr source), (''ts'', JInt (epoch_seconds ts))]))))))"

section \<open>Reading the encoding back\<close>

lemma epoch_seconds_instant:
  "instant a = instant b \<Longrightarrow> epoch_seconds a = epoch_seconds b"
proof -
  have "instant (as_utc x) = instant x" for x by (cases x) simp_all
  then show "instant a = instant b \<Longrightarrow> epoch_seconds a = epoch_seconds b"
    by (simp add: epoch_seconds_def)
qed

text \<open>A number ends where the digits end.\<close>

text \<open>A string ends at the first quote that is not part of an escape.\<close>

definition unshort :: "char \<Rightarrow> char" where
  "unshort d = (if d = CHR ''n'' then CHR 0x0A else if d = CHR ''r'' then CHR 0x0D
                else if d = CHR ''t'' then CHR 0x09 else if d = CHR ''f'' then CHR 0x0C
                else if d = CHR ''b'' then CHR 0x08 else d)"

fun unescape1 :: "string \<Rightarrow> (char \<times> string) option" where
  "unescape1 [] = None"
| "unescape1 (c # cs) =
     (if c \<noteq> CHR 0x5C then Some (c, cs)
      else case cs of
        [] \<Rightarrow> None
      | d # ds \<Rightarrow> if d = CHR ''u''
                  then case ds of _ # _ # h # l # r \<Rightarrow> Some (char_of (unhex h * 16 + unhex l), r)
                       | _ \<Rightarrow> None
                  else Some (unshort d, ds))"

lemma unescape1_escape: "unescape1 (escape_char c @ x) = Some (c, x)"
proof -
  let ?n = "of_char c :: nat"
  consider (short) "?n \<in> {0x22, 0x5C, 0x0A, 0x0D, 0x09, 0x0C, 0x08}"
    | (plain) "?n \<notin> {0x22, 0x5C, 0x0A, 0x0D, 0x09, 0x0C, 0x08}" "0x20 \<le> ?n \<and> ?n \<le> 0x7E"
    | (hex) "?n \<notin> {0x22, 0x5C, 0x0A, 0x0D, 0x09, 0x0C, 0x08}" "\<not> (0x20 \<le> ?n \<and> ?n \<le> 0x7E)"
    by blast
  then show ?thesis
  proof cases
    case short
    then have "of_char c \<in> (of_char :: char \<Rightarrow> nat) `
        {CHR 0x22, CHR 0x5C, CHR 0x0A, CHR 0x0D, CHR 0x09, CHR 0x0C, CHR 0x08}" by simp
    then have "c \<in> {CHR 0x22, CHR 0x5C, CHR 0x0A, CHR 0x0D, CHR 0x09, CHR 0x0C, CHR 0x08}"
      using char_eqI by fast
    then show ?thesis by (elim insertE emptyE) (simp_all add: escape_char_def unshort_def)
  next
    case plain
    then have "c \<noteq> CHR 0x5C" by auto
    then show ?thesis using plain by (simp add: escape_char_def)
  next
    case hex
    have "?n div 16 < 16"
      by (rule less_mult_imp_div_less) (use of_char_lt_256 [of c] in linarith)
    moreover have "escape_char c =
        [CHR 0x5C, CHR ''u'', CHR ''0'', CHR ''0'', hexdigit (?n div 16), hexdigit (?n mod 16)]"
      using hex by (simp add: escape_char_def Let_def)
    ultimately show ?thesis by (simp add: char_of_char)
  qed
qed

lemma escape_char_not_quote: "\<exists>d ds. escape_char c = d # ds \<and> d \<noteq> CHR 0x22"
  by (auto simp: escape_char_def Let_def)

lemma escapes_prefix:
  assumes "concat (map escape_char s) @ CHR 0x22 # x = concat (map escape_char t) @ CHR 0x22 # y"
  shows "s = t \<and> x = y"
  using assms
proof (induction s arbitrary: t)
  case Nil
  show ?case
  proof (cases t)
    case Nil
    then show ?thesis using Nil.prems by simp
  next
    case (Cons c t')
    then show ?thesis using Nil.prems escape_char_not_quote [of c] by auto
  qed
next
  case (Cons c s)
  show ?case
  proof (cases t)
    case Nil
    then show ?thesis using Cons.prems escape_char_not_quote [of c] by auto
  next
    case t: (Cons d t')
    have "escape_char c @ (concat (map escape_char s) @ CHR 0x22 # x) =
          escape_char d @ (concat (map escape_char t') @ CHR 0x22 # y)"
      using Cons.prems by (simp add: t)
    then have "Some (c, concat (map escape_char s) @ CHR 0x22 # x) =
               Some (d, concat (map escape_char t') @ CHR 0x22 # y)"
      using unescape1_escape by metis
    then show ?thesis using Cons.IH [of t'] by (simp add: t)
  qed
qed

lemma json_string_prefix:
  "json_string s @ x = json_string t @ y \<longleftrightarrow> s = t \<and> x = y"
  using escapes_prefix [of s x t y] by (auto simp: json_string_def)

text \<open>Four decimals determine the value in ten-thousandths.\<close>

definition in_tenthousandths :: "rat \<Rightarrow> int" where
  "in_tenthousandths x =
     (if x < 0 then - py_round (\<bar>x\<bar> * 10000) else py_round (\<bar>x\<bar> * 10000))"

lemma py_round_nonneg: "0 \<le> x \<Longrightarrow> 0 \<le> py_round x"
  using py_round_mono [of 0 x] py_round_int [of 0] by simp

lemma dot_not_digit [simp]: "\<not> is_digit (CHR ''.'')"
  by (simp add: is_digit_def)

lemma quote_not_digit [simp]: "\<not> is_digit (CHR 0x22)"
  by (simp add: is_digit_def)

lemma four_digits:
  assumes "m < 10000" and "n < 10000"
    and "map digit [m div 1000, m div 100 mod 10, m div 10 mod 10, m mod 10] =
         map digit [n div 1000, n div 100 mod 10, n div 10 mod 10, n mod 10]"
  shows "m = n"
proof -
  have eq: "a = b" if "digit a = digit b" "a < 10" "b < 10" for a b
    using that undigit_digit by metis
  have d: "digit (m div 1000) = digit (n div 1000)"
    "digit (m div 100 mod 10) = digit (n div 100 mod 10)"
    "digit (m div 10 mod 10) = digit (n div 10 mod 10)" "digit (m mod 10) = digit (n mod 10)"
    using assms(3) by (simp_all only: list.map list.inject)
  have "m div 1000 < 10" and "n div 1000 < 10" using assms(1,2) by simp_all
  from eq [OF d(1) this] have "m div 1000 = n div 1000" .
  moreover have "m div 100 mod 10 = n div 100 mod 10" by (rule eq [OF d(2)]) simp_all
  moreover have "m div 10 mod 10 = n div 10 mod 10" by (rule eq [OF d(3)]) simp_all
  moreover have "m mod 10 = n mod 10" by (rule eq [OF d(4)]) simp_all
  moreover have "k = ((k div 1000 * 10 + k div 100 mod 10) * 10 + k div 10 mod 10) * 10 + k mod 10"
    for k :: nat
  proof -
    have "k div 1000 = k div 100 div 10" and "k div 100 = k div 10 div 10"
      by (simp_all flip: div_mult2_eq)
    then show ?thesis by (metis div_mult_mod_eq)
  qed
  ultimately show ?thesis by metis
qed

lemma nat_text_cases:
  assumes "sign @ nat_digits m @ CHR ''.'' # u = sign' @ nat_digits n @ CHR ''.'' # v"
    and "sign \<in> {'''', ''-''}" and "sign' \<in> {'''', ''-''}"
  shows "sign = sign' \<and> m = n \<and> u = v"
proof -
  have clash: "CHR ''-'' # xs \<noteq> nat_digits k @ ys" for xs k ys
  proof
    assume "CHR ''-'' # xs = nat_digits k @ ys"
    then have "CHR ''-'' \<in> set (nat_digits k)" by (cases "nat_digits k") auto
    then show False using nat_digits_all minus_not_digit by blast
  qed
  have same: "sign = sign'"
    using assms clash [of "nat_digits m @ CHR ''.'' # u" n "CHR ''.'' # v"]
      clash [of "nat_digits n @ CHR ''.'' # v" m "CHR ''.'' # u"] by auto
  then have "nat_digits m @ CHR ''.'' # u = nat_digits n @ CHR ''.'' # v" using assms(1) by simp
  then show ?thesis using same nat_digits_prefix [of m "CHR ''.''" u n "CHR ''.''" v] by simp
qed

lemma fixed4_text:
  "fixed4 x = (if x < 0 then ''-'' else '''') @ nat_digits (nat (py_round (\<bar>x\<bar> * 10000)) div 10000) @
     CHR ''.'' # map digit (let f = nat (py_round (\<bar>x\<bar> * 10000)) mod 10000
                            in [f div 1000, f div 100 mod 10, f div 10 mod 10, f mod 10])"
  by (simp add: fixed4_def Let_def)

lemma fixed4_value:
  assumes "fixed4 x = fixed4 y"
  shows "in_tenthousandths x = in_tenthousandths y"
proof -
  define m where "m = nat (py_round (\<bar>x\<bar> * 10000))"
  define n where "n = nat (py_round (\<bar>y\<bar> * 10000))"
  let ?four = "\<lambda>k. map digit [k div 1000, k div 100 mod 10, k div 10 mod 10, k mod 10]"
  have t: "(if x < 0 then ''-'' else '''') @ nat_digits (m div 10000) @ CHR ''.'' # ?four (m mod 10000) =
           (if y < 0 then ''-'' else '''') @ nat_digits (n div 10000) @ CHR ''.'' # ?four (n mod 10000)"
    using assms by (simp add: fixed4_text Let_def m_def n_def)
  have c: "(if x < 0 then ''-'' else '''') = (if y < 0 then ''-'' else '''') \<and> m div 10000 = n div 10000 \<and>
           ?four (m mod 10000) = ?four (n mod 10000)"
    by (rule nat_text_cases [OF t]) simp_all
  then have "m mod 10000 = n mod 10000" by (intro four_digits) auto
  then have "m = n" using c by (metis div_mult_mod_eq)
  moreover have "py_round (\<bar>x\<bar> * 10000) = int m" and "py_round (\<bar>y\<bar> * 10000) = int n"
    by (simp_all add: m_def n_def py_round_nonneg)
  moreover have "x < 0 \<longleftrightarrow> y < 0" using c by (auto split: if_splits)
  ultimately show ?thesis unfolding in_tenthousandths_def by metis
qed

section \<open>The encoding determines the reading\<close>

lemma canonical_Inr:
  "canonical r = Inr b \<longleftrightarrow>
     (\<exists>building_id ts kw source seq.
        row_building_id r = Some building_id \<and> row_ts r = Some ts \<and> row_kw r = Some kw \<and>
        row_source r = Some source \<and> row_seq r = Some seq \<and>
        b = dumps [(''building_id'', JStr building_id), (''kw'', JStr (fixed4 kw)), (''seq'', JInt seq),
                   (''source'', JStr source), (''ts'', JInt (epoch_seconds ts))])"
  by (cases "row_building_id r"; cases "row_ts r"; cases "row_kw r"; cases "row_source r";
      cases "row_seq r") (auto simp: canonical_def field_def)

lemma show_int_comma: "show_int i @ CHR '','' # x = show_int j @ CHR '','' # y \<longleftrightarrow> i = j \<and> x = y"
  using show_int_prefix [of i "CHR '',''" x j "CHR '',''" y] by (auto simp: is_digit_def)

lemma show_int_brace: "show_int i @ CHR ''}'' # x = show_int j @ CHR ''}'' # y \<longleftrightarrow> i = j \<and> x = y"
  using show_int_prefix [of i "CHR ''}''" x j "CHR ''}''" y] by (auto simp: is_digit_def)

lemma dumps_reading:
  "dumps [(''building_id'', JStr b), (''kw'', JStr k), (''seq'', JInt q), (''source'', JStr s), (''ts'', JInt t)] =
   dumps [(''building_id'', JStr b'), (''kw'', JStr k'), (''seq'', JInt q'), (''source'', JStr s'), (''ts'', JInt t')]
   \<longleftrightarrow> b = b' \<and> k = k' \<and> q = q' \<and> s = s' \<and> t = t'"
  by (simp only: dumps_def dump_members.simps dump_atom.simps append_assoc append_Cons append_Nil
      json_string_prefix show_int_comma show_int_brace list.inject simp_thms)

text \<open>What a signature covers of a row.\<close>

definition signed_content :: "row \<Rightarrow> (string \<times> int \<times> int \<times> string \<times> int) option" where
  "signed_content r =
     (case (row_building_id r, row_ts r, row_kw r, row_source r, row_seq r) of
        (Some b, Some t, Some k, Some s, Some q) \<Rightarrow>
          Some (b, epoch_seconds t, in_tenthousandths k, s, q)
      | _ \<Rightarrow> None)"

text \<open>The encoding determines the signed fields.\<close>

lemma canonical_injective_aux:
  assumes "canonical r = Inr b" and "canonical r' = Inr b"
  shows "signed_content r = signed_content r' \<and> signed_content r \<noteq> None"
proof -
  obtain building_id ts kw source seq where r: "row_building_id r = Some building_id" "row_ts r = Some ts"
    "row_kw r = Some kw" "row_source r = Some source" "row_seq r = Some seq"
    and b: "b = dumps [(''building_id'', JStr building_id), (''kw'', JStr (fixed4 kw)), (''seq'', JInt seq),
                   (''source'', JStr source), (''ts'', JInt (epoch_seconds ts))]"
    using assms(1) unfolding canonical_Inr by blast
  obtain building_id' ts' kw' source' seq' where r': "row_building_id r' = Some building_id'"
    "row_ts r' = Some ts'" "row_kw r' = Some kw'" "row_source r' = Some source'" "row_seq r' = Some seq'"
    and b': "b = dumps [(''building_id'', JStr building_id'), (''kw'', JStr (fixed4 kw')), (''seq'', JInt seq'),
                   (''source'', JStr source'), (''ts'', JInt (epoch_seconds ts'))]"
    using assms(2) unfolding canonical_Inr by blast
  from b b' have "building_id = building_id' \<and> fixed4 kw = fixed4 kw' \<and> seq = seq' \<and>
      source = source' \<and> epoch_seconds ts = epoch_seconds ts'"
    by (simp only: dumps_reading)
  then show ?thesis using r r' fixed4_value [of kw kw'] by (simp add: signed_content_def)
qed

text \<open>
  C20: the signed bytes determine the signed fields. Two rows with the same encoding
  have the same building, the same UTC second, the same power to a ten-thousandth of a
  kilowatt, the same source and the same sequence number, whatever characters the two
  strings contain; and the encoding depends on nothing else of the timestamps than
  the instant, so the offset a driver reports does not change it.
\<close>
theorem canonical_injective:
  assumes "canonical r = Inr b" and "canonical r' = Inr b"
  shows "signed_content r = signed_content r' \<and> signed_content r \<noteq> None"
  by (rule canonical_injective_aux [OF assms])

definition sample_row :: "int \<Rightarrow> rat \<Rightarrow> row" where
  "sample_row n kw =
     \<lparr>row_building_id = Some ''b001'', row_ts = Some (Aware (1700000000000000 + n * 900000000) 0),
      row_kw = Some kw, row_source = Some ''replay'', row_seq = Some n, row_sig = None\<rparr>"

lemma sample_text: "fixed4 (1/3) = ''0.3333''" "fixed4 (33333/100000) = ''0.3333''"
  by code_simp+

theorem canonical_injective_witness:
  "signed_content (sample_row 3 (1/3)) = signed_content (sample_row 3 (33333/100000)) \<and>
   signed_content (sample_row 3 (1/3)) \<noteq> None"
proof (rule canonical_injective)
  let ?b = "dumps [(''building_id'', JStr ''b001''), (''kw'', JStr ''0.3333''), (''seq'', JInt 3),
                   (''source'', JStr ''replay''), (''ts'', JInt 1700002700)]"
  show "canonical (sample_row 3 (1/3)) = Inr ?b" and "canonical (sample_row 3 (33333/100000)) = Inr ?b"
    by (simp_all only: canonical_def field_def sample_row_def row.simps option.simps rbind_Inr sample_text)
       (simp_all add: epoch_seconds_def)
qed

end
