(* ===== verification/Integrity.thy ===== *)
theory Integrity
  imports Canonical
begin

text \<open>
  \<open>src/gemp/ingest/integrity.py\<close>: signing a chain of readings and walking it. HMAC-SHA256
  is the parameter \<open>mac\<close> (a key and a message to a signature); \<open>mac_contract\<close> says that a
  signature has 32 bytes. Nothing is assumed about forging: the theorems that need it name
  the messages that were signed. \<open>compare_digest\<close> is equality.
\<close>

type_synonym mac_fn = "bytes \<Rightarrow> bytes \<Rightarrow> bytes"

definition mac_contract :: "mac_fn \<Rightarrow> bool" where
  "mac_contract mac \<longleftrightarrow> (\<forall>k m. length (mac k m) = 32)"

text \<open>\<open>sha256(b"gemp-chain-genesis-v1").digest()\<close>.\<close>

definition GENESIS :: bytes where
  "GENESIS = map (\<lambda>n. char_of (n :: nat))
     [0x75, 0xE0, 0x87, 0x2B, 0xB6, 0x53, 0xC7, 0xEE, 0xC5, 0xFB, 0x63, 0x6A, 0xE9, 0xFB, 0xF6, 0x2C,
      0xE8, 0x28, 0xBD, 0x37, 0x67, 0x41, 0x27, 0x47, 0x1C, 0xF6, 0x36, 0x69, 0x74, 0xB7, 0x6A, 0xBF]"

datatype reason = Modified | Deleted | Reordered

text \<open>A break: index, sequence and reason (its timestamp is the row's).\<close>

record chain_break =
  brk_index :: nat
  brk_ts :: "datetime option"
  brk_seq :: int
  brk_reason :: reason

record verify_result =
  vr_ok :: bool
  vr_rows_checked :: nat
  vr_first_break :: "chain_break option"

definition passed :: "nat \<Rightarrow> verify_result" where
  "passed n = \<lparr>vr_ok = True, vr_rows_checked = n, vr_first_break = None\<rparr>"

definition failed :: "nat \<Rightarrow> nat \<Rightarrow> datetime option \<Rightarrow> int \<Rightarrow> reason \<Rightarrow> verify_result" where
  "failed checked index ts seq why =
     \<lparr>vr_ok = False, vr_rows_checked = checked,
      vr_first_break = Some \<lparr>brk_index = index, brk_ts = ts, brk_seq = seq, brk_reason = why\<rparr>\<rparr>"

definition sign :: "mac_fn \<Rightarrow> bytes \<Rightarrow> row \<Rightarrow> bytes \<Rightarrow> bytes result" where
  "sign mac key row prev_sig = rbind (canonical row) (\<lambda>c. Inr (mac key (prev_sig @ c)))"

fun sign_chain :: "mac_fn \<Rightarrow> bytes \<Rightarrow> row list \<Rightarrow> bytes \<Rightarrow> bytes list result" where
  "sign_chain mac key [] start_sig = Inr []"
| "sign_chain mac key (row # rows) start_sig =
     rbind (sign mac key row start_sig) (\<lambda>s.
     rbind (sign_chain mac key rows s) (\<lambda>rest. Inr (s # rest)))"

fun verify_from ::
  "mac_fn \<Rightarrow> bytes \<Rightarrow> bytes \<Rightarrow> int option \<Rightarrow> nat \<Rightarrow> row list \<Rightarrow> verify_result result" where
  "verify_from mac key prev expected_seq index [] = Inr (passed index)"
| "verify_from mac key prev expected_seq index (row # rows) =
     (case row_seq row of
        None \<Rightarrow> Inl (KeyError ''seq'')
      | Some seq \<Rightarrow>
          if expected_seq \<noteq> None \<and> seq \<noteq> the expected_seq
          then Inr (failed index index (row_ts row) seq
                      (if seq > the expected_seq then Deleted else Reordered))
          else rbind (sign mac key row prev) (\<lambda>expected.
            case row_sig row of
              None \<Rightarrow> Inl (IntegrityError ''no stored signature'')
            | Some stored \<Rightarrow>
                if expected \<noteq> stored then Inr (failed index index (row_ts row) seq Modified)
                else verify_from mac key stored (Some (seq + 1)) (Suc index) rows))"

definition verify_chain ::
  "mac_fn \<Rightarrow> bytes \<Rightarrow> row list \<Rightarrow> bytes \<Rightarrow> int option \<Rightarrow> verify_result result" where
  "verify_chain mac key rows start_sig expect_first_seq =
     verify_from mac key start_sig expect_first_seq 0 rows"

text \<open>\<open>datetime.min\<close>.\<close>

definition datetime_min :: datetime where
  "datetime_min = Naive (- 62135596800000000)"

definition verify_against_checkpoint :: "row list \<Rightarrow> int \<Rightarrow> bytes \<Rightarrow> verify_result result" where
  "verify_against_checkpoint rows checkpoint_seq checkpoint_sig =
     (if rows = [] then
        Inr (if checkpoint_seq < 0 then passed 0
             else failed 0 0 (Some datetime_min) checkpoint_seq Deleted)
      else let lst = last rows in
        case row_seq lst of
          None \<Rightarrow> Inl (KeyError ''seq'')
        | Some last_seq \<Rightarrow>
            if last_seq < checkpoint_seq
            then Inr (failed (length rows) (length rows - 1) (row_ts lst) last_seq Deleted)
            else if last_seq = checkpoint_seq
            then (case row_sig lst of
                    None \<Rightarrow> Inl (TypeError ''sig'')
                  | Some s \<Rightarrow>
                      if s \<noteq> checkpoint_sig
                      then Inr (failed (length rows) (length rows - 1) (row_ts lst) last_seq Modified)
                      else Inr (passed (length rows)))
            else Inr (passed (length rows)))"

section \<open>What a walk accepts\<close>

text \<open>The message a stored row was signed over, and a chain as the walk wants it.\<close>

definition message :: "bytes \<Rightarrow> row \<Rightarrow> bytes" where
  "message prev row = (case canonical row of Inl _ \<Rightarrow> prev | Inr c \<Rightarrow> prev @ c)"

fun chained :: "mac_fn \<Rightarrow> bytes \<Rightarrow> bytes \<Rightarrow> int option \<Rightarrow> row list \<Rightarrow> bool" where
  "chained mac key prev expected [] = True"
| "chained mac key prev expected (row # rows) =
     (case (row_seq row, row_sig row, sign mac key row prev) of
        (Some seq, Some s, Inr s') \<Rightarrow>
          (expected = None \<or> expected = Some seq) \<and> s = s' \<and> chained mac key s (Some (seq + 1)) rows
      | _ \<Rightarrow> False)"

fun messages :: "bytes \<Rightarrow> row list \<Rightarrow> bytes list" where
  "messages prev [] = []"
| "messages prev (row # rows) = message prev row # messages (the (row_sig row)) rows"

lemma sign_seq: "sign mac key row prev = Inr s \<Longrightarrow> row_seq row \<noteq> None"
  by (auto simp: sign_def result_simps canonical_Inr)

lemma sign_message: "sign mac key row prev = Inr s \<Longrightarrow> s = mac key (message prev row)"
  by (auto simp: sign_def result_simps message_def)

lemma chained_Cons:
  "chained mac key prev expected (row # rows) \<longleftrightarrow>
     (\<exists>seq s. row_seq row = Some seq \<and> row_sig row = Some s \<and> sign mac key row prev = Inr s \<and>
        (expected = None \<or> expected = Some seq) \<and> chained mac key s (Some (seq + 1)) rows)"
  by (cases "row_seq row"; cases "row_sig row"; cases "sign mac key row prev") auto

declare chained.simps(2) [simp del] chained_Cons [simp]

lemma verify_from_ok:
  "verify_from mac key prev expected i rows = Inr r \<Longrightarrow>
     vr_ok r \<longleftrightarrow> chained mac key prev expected rows"
proof (induction mac key prev expected i rows rule: verify_from.induct)
  case (1 mac key prev expected i)
  then show ?case by (auto simp: passed_def)
next
  case (2 mac key prev expected i row rows)
  show ?case
  proof (cases "row_seq row")
    case None
    then show ?thesis using "2.prems" by simp
  next
    case (Some seq)
    show ?thesis
    proof (cases "expected \<noteq> None \<and> seq \<noteq> the expected")
      case True
      then show ?thesis using "2.prems" Some by (auto simp: failed_def)
    next
      case False
      then obtain s where s: "sign mac key row prev = Inr s"
        using "2.prems" Some by (cases "sign mac key row prev") auto
      show ?thesis
      proof (cases "row_sig row = Some s")
        case True
        then show ?thesis
          using "2.IH" [OF Some False, of s s] "2.prems" Some False s
          by (cases expected) auto
      next
        case sig: False
        then obtain t where "row_sig row = Some t"
          using "2.prems" Some False s by (cases "row_sig row") auto
        then show ?thesis using "2.prems" Some False s sig by (auto simp: failed_def)
      qed
    qed
  qed
qed

lemma verify_from_chained:
  "chained mac key prev expected rows \<Longrightarrow>
     verify_from mac key prev expected i rows = Inr (passed (i + length rows))"
  by (induction rows arbitrary: prev expected i) auto

lemma verify_from_append:
  "chained mac key prev expected pre \<Longrightarrow>
     verify_from mac key prev expected i (pre @ rest) =
       verify_from mac key (if pre = [] then prev else the (row_sig (last pre)))
         (if pre = [] then expected else Some (the (row_seq (last pre)) + 1)) (i + length pre) rest"
  by (induction pre arbitrary: prev expected i) auto

text \<open>The signature and the sequence number a row at the end of a chain must continue.\<close>

definition head_sig :: "bytes \<Rightarrow> row list \<Rightarrow> bytes" where
  "head_sig prev rows = (if rows = [] then prev else the (row_sig (last rows)))"

lemma chained_append:
  "chained mac key prev (Some n) (pre @ rest) \<longleftrightarrow>
     chained mac key prev (Some n) pre \<and>
     chained mac key (head_sig prev pre) (Some (n + int (length pre))) rest"
proof (induction pre arbitrary: prev n)
  case Nil
  then show ?case by (simp add: head_sig_def)
next
  case (Cons r pre)
  have "n + int (length (r # pre)) = (n + 1) + int (length pre)" by simp
  then show ?case using Cons by (cases "pre = []") (auto simp: head_sig_def add.assoc)
qed

lemma chained_seq:
  "chained mac key prev (Some n) rows \<Longrightarrow> i < length rows \<Longrightarrow> row_seq (rows ! i) = Some (n + int i)"
proof (induction rows arbitrary: prev n i)
  case Nil
  then show ?case by simp
next
  case (Cons r rows)
  then show ?case by (cases i) (auto simp: algebra_simps)
qed

lemma chained_last_seq:
  "chained mac key prev (Some n) rows \<Longrightarrow> rows \<noteq> [] \<Longrightarrow>
     row_seq (last rows) = Some (n + int (length rows) - 1)"
  using chained_seq [of mac key prev n rows "length rows - 1"]
  by (auto simp: last_conv_nth of_nat_diff Suc_leI)

lemma messages_nth:
  assumes "mac_contract mac" and "chained mac key prev (Some n) rows" and "length prev = 32"
    and "i < length rows"
  shows "\<exists>p c. messages prev rows ! i = p @ c \<and> length p = 32 \<and> canonical (rows ! i) = Inr c"
  using assms(2-4)
proof (induction rows arbitrary: prev n i)
  case Nil
  then show ?case by simp
next
  case (Cons r rows)
  then obtain s where s: "row_sig r = Some s" "sign mac key r prev = Inr s"
    "chained mac key s (Some (n + 1)) rows" by auto
  show ?case
  proof (cases i)
    case 0
    from s(2) obtain c where "canonical r = Inr c" by (auto simp: sign_def result_simps)
    then show ?thesis using 0 Cons.prems(2) by (auto simp: message_def)
  next
    case (Suc j)
    have "length s = 32" using sign_message [OF s(2)] assms(1) by (simp add: mac_contract_def)
    then show ?thesis using Cons.IH [OF s(3), of j] Cons.prems(3) Suc s(1) by simp
  qed
qed

lemma length_messages [simp]: "length (messages prev rows) = length rows"
  by (induction rows arbitrary: prev) auto

lemma length_GENESIS [simp]: "length GENESIS = 32"
  by (simp add: GENESIS_def)

section \<open>Signing and walking\<close>

definition store_sigs :: "row list \<Rightarrow> bytes list \<Rightarrow> row list" where
  "store_sigs rows sigs = map2 (\<lambda>r s. r\<lparr>row_sig := Some s\<rparr>) rows sigs"

lemma canonical_sig [simp]: "canonical (r\<lparr>row_sig := s\<rparr>) = canonical r"
  by (simp add: canonical_def)

lemma sign_sig [simp]: "sign mac key (r\<lparr>row_sig := s\<rparr>) prev = sign mac key r prev"
  by (simp add: sign_def)

lemma sign_chain_chained:
  "sign_chain mac key rows prev = Inr sigs \<Longrightarrow>
     map row_seq rows = map (\<lambda>i. Some (n + int i)) [0..<length rows] \<Longrightarrow>
     chained mac key prev (Some n) (store_sigs rows sigs) \<and> length sigs = length rows"
proof (induction rows arbitrary: prev n sigs)
  case Nil
  then show ?case by (simp add: store_sigs_def)
next
  case (Cons r rows)
  then obtain s rest where s: "sign mac key r prev = Inr s" "sign_chain mac key rows s = Inr rest"
    and sigs: "sigs = s # rest" by (auto simp: result_simps)
  have "map row_seq (r # rows) = Some n # map (\<lambda>i. Some ((n + 1) + int i)) [0..<length rows]"
    using Cons.prems(2) by (simp add: map_upt_Suc del: upt_Suc)
  then show ?case using Cons.IH [OF s(2), of "n + 1"] s(1) sigs by (simp add: store_sigs_def)
qed

lemma store_sigs_lengths [simp]: "length sigs = length rows \<Longrightarrow> length (store_sigs rows sigs) = length rows"
  by (simp add: store_sigs_def)

text \<open>
  C29: signing and verifying agree. Rows with consecutive sequence numbers that are
  signed by \<open>sign_chain\<close> and stored with the signatures it returns verify, from the same
  starting signature and with the first sequence number expected or left open, and
  every row is checked.
\<close>
theorem sign_then_verify:
  assumes "sign_chain mac key rows start = Inr sigs"
    and "map row_seq rows = map (\<lambda>i. Some (n + int i)) [0..<length rows]"
  shows "verify_chain mac key (store_sigs rows sigs) start (Some n) = Inr (passed (length rows)) \<and>
         verify_chain mac key (store_sigs rows sigs) start None = Inr (passed (length rows))"
proof -
  note c = sign_chain_chained [OF assms]
  then have len: "length (store_sigs rows sigs) = length rows" by simp
  have "chained mac key start None (store_sigs rows sigs)"
    using c by (cases "store_sigs rows sigs") auto
  then show ?thesis
    using verify_from_chained [of mac key start "Some n" "store_sigs rows sigs" 0] c
      verify_from_chained [of mac key start None "store_sigs rows sigs" 0] len
    by (simp add: verify_chain_def)
qed

text \<open>A stand-in for HMAC-SHA256 in examples: 32 bytes that mix key and message.\<close>

definition sample_mac :: mac_fn where
  "sample_mac key m =
     (let n = foldl (\<lambda>h c. (h * 33 + of_char c) mod 1000003) (5381 :: int) (key @ m)
      in replicate 32 (char_of (nat (n mod 256))))"

lemma sample_mac_contract: "mac_contract sample_mac"
  by (simp add: mac_contract_def sample_mac_def Let_def)

lemma canonical_sample_row: "\<exists>c. canonical (sample_row n kw) = Inr c"
  by (simp add: canonical_def field_def sample_row_def)

lemma sign_chain_total:
  "list_all (\<lambda>r. \<exists>c. canonical r = Inr c) rows \<Longrightarrow> \<exists>sigs. sign_chain mac key rows start = Inr sigs"
proof (induction rows arbitrary: start)
  case (Cons r rows)
  then obtain c where "canonical r = Inr c" by auto
  moreover obtain sigs where "sign_chain mac key rows (mac key (start @ c)) = Inr sigs"
    using Cons by fastforce
  ultimately show ?case by (simp add: sign_def)
qed simp

definition sample_rows :: "row list" where
  "sample_rows = [sample_row 0 (7/2), sample_row 1 4, sample_row 2 (9/4)]"

lemma sample_rows_seq:
  "map row_seq sample_rows = map (\<lambda>i. Some (0 + int i)) [0..<length sample_rows]"
  by (simp add: sample_rows_def sample_row_def upt_rec)

lemma sample_rows_canonical: "list_all (\<lambda>r. \<exists>c. canonical r = Inr c) sample_rows"
  by (simp add: sample_rows_def canonical_sample_row)

definition sample_sigs :: "bytes list" where
  "sample_sigs = (case sign_chain sample_mac ''key'' sample_rows GENESIS of Inl _ \<Rightarrow> [] | Inr s \<Rightarrow> s)"

lemma sample_sigs: "sign_chain sample_mac ''key'' sample_rows GENESIS = Inr sample_sigs"
  using sign_chain_total [OF sample_rows_canonical, of sample_mac "''key''" GENESIS]
  by (auto simp: sample_sigs_def)

definition sample_chain :: "row list" where
  "sample_chain = store_sigs sample_rows sample_sigs"

lemma sample_chain_chained: "chained sample_mac ''key'' GENESIS (Some 0) sample_chain"
  using sign_chain_chained [OF sample_sigs sample_rows_seq] by (simp add: sample_chain_def)

lemma sample_chain_length: "length sample_chain = 3"
  using sign_chain_chained [OF sample_sigs sample_rows_seq]
  by (simp add: sample_chain_def sample_rows_def)

lemma three_rows: "length xs = 3 \<Longrightarrow> xs = [xs ! 0] @ [xs ! 1] @ xs ! 2 # []"
  by (cases xs; cases "tl xs"; cases "tl (tl xs)") auto

theorem sign_then_verify_witness:
  "verify_chain sample_mac ''key'' (store_sigs sample_rows sample_sigs) GENESIS (Some 0) = Inr (passed 3)"
  using sign_then_verify [OF sample_sigs sample_rows_seq]
  by (simp add: sample_rows_def eval_nat_numeral)

section \<open>Tampering\<close>

text \<open>
  C31: an interior deletion is always seen and named. From a chain that verifies, with
  the expected first sequence number known, take out any run of rows that is followed by
  another row: the walk fails exactly at the gap, says \<open>deleted\<close>, and counts the rows
  before the gap as checked. This needs nothing of the signature function.
\<close>
theorem deletion_located:
  assumes "chained mac key start (Some n) (pre @ gone @ nxt # post)" and "gone \<noteq> []"
  shows "verify_chain mac key (pre @ nxt # post) start (Some n) =
         Inr (failed (length pre) (length pre) (row_ts nxt)
                (n + int (length pre) + int (length gone)) Deleted)"
proof -
  have pre: "chained mac key start (Some n) pre"
    and rest: "chained mac key (head_sig start pre) (Some (n + int (length pre))) (gone @ nxt # post)"
    using assms(1) by (simp_all add: chained_append)
  have "chained mac key (head_sig (head_sig start pre) gone)
          (Some (n + int (length pre) + int (length gone))) (nxt # post)"
    using rest by (simp add: chained_append)
  then have "row_seq nxt = Some (n + int (length pre) + int (length gone))" by auto
  moreover have "0 < int (length gone)" using assms(2) by simp
  moreover have "(if pre = [] then Some n else Some (the (row_seq (last pre)) + 1)) =
      Some (n + int (length pre))"
    using chained_last_seq [OF pre] by (cases "pre = []") auto
  ultimately show ?thesis
    unfolding verify_chain_def verify_from_append [OF pre] by simp
qed

theorem deletion_located_witness:
  "verify_chain sample_mac ''key'' [sample_chain ! 0, sample_chain ! 2] GENESIS (Some 0) =
     Inr (failed 1 1 (row_ts (sample_chain ! 2)) 2 Deleted)"
proof -
  have c: "sample_chain = [sample_chain ! 0] @ [sample_chain ! 1] @ sample_chain ! 2 # []"
    by (rule three_rows) (rule sample_chain_length)
  have "chained sample_mac ''key'' GENESIS (Some 0)
      ([sample_chain ! 0] @ [sample_chain ! 1] @ sample_chain ! 2 # [])"
    using sample_chain_chained c by metis
  from deletion_located [OF this] show ?thesis by simp
qed

text \<open>
  C30: a modification is located at the row itself. In a chain that verifies, replace a row
  by any other with the same sequence number, and everything behind it by anything: unless
  the stored signature is the signature of the new content under the same predecessor, the
  walk fails at that row and says \<open>modified\<close>.
\<close>
theorem modification_located:
  assumes "chained mac key start (Some n) (pre @ row # post)"
    and "row_seq row' = row_seq row" and "canonical row' = Inr c" and "row_sig row' = Some s"
    and "mac key (head_sig start pre @ c) \<noteq> s"
  shows "verify_chain mac key (pre @ row' # post') start (Some n) =
         Inr (failed (length pre) (length pre) (row_ts row') (n + int (length pre)) Modified)"
proof -
  have pre: "chained mac key start (Some n) pre"
    and rest: "chained mac key (head_sig start pre) (Some (n + int (length pre))) (row # post)"
    using assms(1) by (simp_all add: chained_append)
  then have "row_seq row' = Some (n + int (length pre))" using assms(2) by auto
  moreover have "(if pre = [] then Some n else Some (the (row_seq (last pre)) + 1)) =
      Some (n + int (length pre))"
    using chained_last_seq [OF pre] by (cases "pre = []") auto
  ultimately show ?thesis
    using assms(3-5) unfolding verify_chain_def verify_from_append [OF pre]
    by (simp add: sign_def head_sig_def split: if_splits)
qed

lemma sample_row_seq [simp]: "row_seq (sample_row n kw) = Some n"
  by (simp add: sample_row_def)

lemma sample_changed:
  "sample_mac ''key'' (GENESIS @ c) \<noteq> replicate 31 (CHR ''x'')"
  using sample_mac_contract by (metis length_replicate mac_contract_def numeral_eq_iff semiring_norm(89))

theorem modification_located_witness:
  "verify_chain sample_mac ''key''
     ((sample_row 0 9)\<lparr>row_sig := Some (replicate 31 (CHR ''x''))\<rparr> # drop 1 sample_chain) GENESIS (Some 0) =
   Inr (failed 0 0 (row_ts (sample_row 0 9)) 0 Modified)"
proof -
  obtain c where c: "canonical (sample_row 0 9) = Inr c" using canonical_sample_row by blast
  have "sample_chain = [] @ sample_chain ! 0 # drop 1 sample_chain"
    using Cons_nth_drop_Suc [of 0 sample_chain] sample_chain_length by simp
  then have ch: "chained sample_mac ''key'' GENESIS (Some 0) ([] @ sample_chain ! 0 # drop 1 sample_chain)"
    using sample_chain_chained by metis
  have "row_seq (sample_chain ! 0) = Some 0"
    using chained_seq [OF sample_chain_chained, of 0] sample_chain_length by simp
  with modification_located [OF ch, of "(sample_row 0 9)\<lparr>row_sig := Some (replicate 31 (CHR ''x''))\<rparr>" c
      "replicate 31 (CHR ''x'')" "drop 1 sample_chain"] c sample_changed
  show ?thesis by (simp add: head_sig_def)
qed

text \<open>
  Every chain the ingester signs, all under one key: a building's rows are chained from
  \<open>GENESIS\<close> with sequence numbers from 0.
\<close>

definition honest_chains :: "mac_fn \<Rightarrow> bytes \<Rightarrow> (string \<times> row list) list \<Rightarrow> bool" where
  "honest_chains mac key ledger =
     (distinct (map fst ledger) \<and>
      list_all (\<lambda>(b, rows). list_all (\<lambda>r. row_building_id r = Some b) rows \<and>
                             chained mac key GENESIS (Some 0) rows) ledger)"

definition issued :: "(string \<times> row list) list \<Rightarrow> bytes list" where
  "issued ledger = concat (map (\<lambda>(b, rows). messages GENESIS rows) ledger)"

lemma honest_chainsD:
  "honest_chains mac key ledger \<Longrightarrow> (b, rows) \<in> set ledger \<Longrightarrow>
     chained mac key GENESIS (Some 0) rows \<and> (\<forall>r \<in> set rows. row_building_id r = Some b)"
  by (auto simp: honest_chains_def list_all_iff)

lemma signed_content_fields:
  "signed_content r = signed_content r' \<Longrightarrow> signed_content r \<noteq> None \<Longrightarrow>
     row_building_id r = row_building_id r' \<and> row_seq r = row_seq r'"
  by (auto simp: signed_content_def split: option.splits)

text \<open>A signed message determines its row: signatures have one length, contents are injective.\<close>

lemma message_determines_row:
  assumes "mac_contract mac" and "honest_chains mac key ledger"
    and "chained mac key GENESIS (Some 0) rows'" and "i < length rows'"
    and "list_all (\<lambda>r. row_building_id r = Some b) rows'"
    and "messages GENESIS rows' ! i \<in> set (issued ledger)"
  shows "i < length (dict_get ledger b []) \<and>
         signed_content (rows' ! i) = signed_content (dict_get ledger b [] ! i)"
proof -
  obtain p c where i: "messages GENESIS rows' ! i = p @ c" "length p = 32" "canonical (rows' ! i) = Inr c"
    using messages_nth [OF assms(1,3) _ assms(4)] by auto
  obtain b' rows where rows: "(b', rows) \<in> set ledger"
    and "messages GENESIS rows' ! i \<in> set (messages GENESIS rows)"
    using assms(6) by (auto simp: issued_def)
  then obtain j where j: "j < length rows" "messages GENESIS rows ! j = messages GENESIS rows' ! i"
    by (auto simp: in_set_conv_nth)
  note h = honest_chainsD [OF assms(2) rows]
  obtain p' c' where j': "messages GENESIS rows ! j = p' @ c'" "length p' = 32"
    "canonical (rows ! j) = Inr c'"
    using messages_nth [OF assms(1) conjunct1 [OF h] _ j(1)] by auto
  have "c = c'" using i(1,2) j(2) j'(1,2) by (metis append_eq_append_conv)
  then have same: "signed_content (rows' ! i) = signed_content (rows ! j)"
    "signed_content (rows' ! i) \<noteq> None"
    using canonical_injective_aux [OF i(3), of "rows ! j"] j'(3) by blast+
  from signed_content_fields [OF this]
  have ids: "row_building_id (rows' ! i) = row_building_id (rows ! j)"
    and seqs: "row_seq (rows' ! i) = row_seq (rows ! j)" by auto
  have "i = j"
    using seqs chained_seq [OF assms(3,4)] chained_seq [OF conjunct1 [OF h] j(1)] by simp
  moreover have "b = b'"
    using ids h j(1) assms(4,5) by (auto simp: list_all_length)
  moreover have "dict_get ledger b' [] = rows"
    using rows assms(2) by (simp add: honest_chains_def dict_get_def)
  ultimately show ?thesis using same(1) j(1) by simp
qed

text \<open>A chain that is accepted and in which every message was signed is a prefix of what was written.\<close>

lemma accepted_prefix:
  assumes "mac_contract mac" and "honest_chains mac key ledger"
    and ch: "chained mac key GENESIS (Some 0) rows"
    and "list_all (\<lambda>r. row_building_id r = Some b) rows"
    and "set (messages GENESIS rows) \<subseteq> set (issued ledger)"
  shows "map signed_content rows =
         take (length rows) (map signed_content (dict_get ledger b []))"
proof -
  have row: "i < length (dict_get ledger b []) \<and>
      signed_content (rows ! i) = signed_content (dict_get ledger b [] ! i)" if "i < length rows" for i
  proof -
    have "messages GENESIS rows ! i \<in> set (issued ledger)"
      using assms(5) that nth_mem [of i "messages GENESIS rows"] by auto
    then show ?thesis
      by (rule message_determines_row [OF assms(1,2) ch that assms(4)])
  qed
  have "length rows \<le> length (dict_get ledger b [])"
    using row [of "length rows - 1"] by (cases rows) auto
  then show ?thesis using row by (intro nth_equalityI) auto
qed

text \<open>
  C5: tamper evidence without the key. Take any rows offered as one building's
  table. If the walk from \<open>GENESIS\<close> with first sequence number 0 accepts them, and every message
  it checked is one the ingester signed (for any building, under the same key; that is, nothing
  was forged), then their signed contents are a prefix of what was written: nothing was
  modified, removed from the middle, reordered, inserted or moved from another building.
\<close>
theorem tamper_evident:
  assumes "mac_contract mac" and "honest_chains mac key ledger"
    and "verify_chain mac key rows GENESIS (Some 0) = Inr v" and "vr_ok v"
    and "list_all (\<lambda>r. row_building_id r = Some b) rows"
    and "set (messages GENESIS rows) \<subseteq> set (issued ledger)"
  shows "map signed_content rows =
         take (length rows) (map signed_content (dict_get ledger b []))"
  by (rule accepted_prefix [OF assms(1,2) _ assms(5,6)])
     (use assms(3,4) verify_from_ok in \<open>unfold verify_chain_def, blast\<close>)

definition sample_ledger :: "(string \<times> row list) list" where
  "sample_ledger = [(''b001'', sample_chain)]"

lemma sample_chain_building: "list_all (\<lambda>r. row_building_id r = Some ''b001'') sample_chain"
  by (auto simp: sample_chain_def store_sigs_def sample_rows_def sample_row_def list_all_iff
      dest!: set_zip_leftD)

lemma sample_ledger_honest: "honest_chains sample_mac ''key'' sample_ledger"
  using sample_chain_chained sample_chain_building by (simp add: honest_chains_def sample_ledger_def)

lemma messages_take: "set (messages start (take k rows)) \<subseteq> set (messages start rows)"
  by (induction rows arbitrary: start k) (auto simp: take_Cons' split: if_splits)

lemma chained_take: "chained mac key start (Some n) rows \<Longrightarrow> chained mac key start (Some n) (take k rows)"
  using chained_append [of mac key start n "take k rows" "drop k rows"] by simp

theorem tamper_evident_witness:
  "map signed_content (take 2 sample_chain) =
     take (length (take 2 sample_chain)) (map signed_content (dict_get sample_ledger ''b001'' []))"
proof (rule tamper_evident [OF sample_mac_contract sample_ledger_honest])
  show "verify_chain sample_mac ''key'' (take 2 sample_chain) GENESIS (Some 0) =
      Inr (passed (length (take 2 sample_chain)))"
    using verify_from_chained [OF chained_take [OF sample_chain_chained]] by (simp add: verify_chain_def)
  show "vr_ok (passed (length (take 2 sample_chain)))" by (simp add: passed_def)
  show "list_all (\<lambda>r. row_building_id r = Some ''b001'') (take 2 sample_chain)"
    using sample_chain_building by (auto simp: list_all_iff dest: in_set_takeD)
  show "set (messages GENESIS (take 2 sample_chain)) \<subseteq> set (issued sample_ledger)"
    using messages_take by (auto simp: issued_def sample_ledger_def)
qed

text \<open>
  C32: truncation is what the anchor adds. With the walk and the checkpoint check both
  passing, nothing forged, and a checkpoint taken from the written chain, the offered
  rows still hold every reading up to the checkpoint; and conversely a table cut below an
  anchored sequence number is reported \<open>deleted\<close>, although the walk alone accepts it.
\<close>
theorem checkpoint_detects_truncation:
  assumes "chained mac key GENESIS (Some 0) rows" and "k \<le> N" and "N < length rows"
    and "row_sig (rows ! N) = Some head"
  shows "verify_chain mac key (take k rows) GENESIS (Some 0) = Inr (passed k) \<and>
         (\<exists>v. verify_against_checkpoint (take k rows) (int N) head = Inr v \<and> \<not> vr_ok v \<and>
              (\<exists>br. vr_first_break v = Some br \<and> brk_reason br = Deleted)) \<and>
         verify_against_checkpoint rows (int N) head = Inr (passed (length rows))"
proof -
  have walk: "verify_chain mac key (take k rows) GENESIS (Some 0) = Inr (passed k)"
    using verify_from_chained [OF chained_take [OF assms(1), of k], of 0] assms(2,3)
    by (simp add: verify_chain_def min_def)
  have lst: "row_seq (last (take k rows)) = Some (int k - 1)" if "0 < k"
  proof -
    have "take k rows \<noteq> []" using that assms(2,3) by auto
    then show ?thesis
      using chained_last_seq [OF chained_take [OF assms(1), of k]] assms(2,3) by (simp add: min_def)
  qed
  have cut: "\<exists>v. verify_against_checkpoint (take k rows) (int N) head = Inr v \<and> \<not> vr_ok v \<and>
              (\<exists>br. vr_first_break v = Some br \<and> brk_reason br = Deleted)"
  proof (cases "k = 0")
    case True
    then show ?thesis by (simp add: verify_against_checkpoint_def failed_def)
  next
    case False
    then have "take k rows \<noteq> []" using assms(2,3) by auto
    then show ?thesis using lst False assms(2)
      by (simp add: verify_against_checkpoint_def Let_def failed_def)
  qed
  have "rows \<noteq> []" using assms(3) by auto
  moreover have "row_seq (last rows) = Some (int (length rows) - 1)"
    using chained_last_seq [OF assms(1) \<open>rows \<noteq> []\<close>] by simp
  moreover have "last rows = rows ! N" if "int (length rows) - 1 = int N"
  proof -
    have "length rows - 1 = N" using that by simp
    then show ?thesis using \<open>rows \<noteq> []\<close> by (simp add: last_conv_nth)
  qed
  ultimately have "verify_against_checkpoint rows (int N) head = Inr (passed (length rows))"
    using assms(3,4) by (auto simp: verify_against_checkpoint_def Let_def)
  then show ?thesis using walk cut by blast
qed

theorem checkpoint_detects_truncation_witness:
  "\<exists>v. verify_against_checkpoint (take 1 sample_chain) 2 (the (row_sig (sample_chain ! 2))) = Inr v \<and>
       \<not> vr_ok v"
proof -
  have "row_sig (sample_chain ! 2) = Some (the (row_sig (sample_chain ! 2)))"
    using sign_chain_chained [OF sample_sigs sample_rows_seq]
    by (simp add: sample_chain_def sample_rows_def store_sigs_def)
  from checkpoint_detects_truncation [OF sample_chain_chained _ _ this, of 1]
  show ?thesis using sample_chain_length by auto
qed

end
