(* ===== verification/LiveAnomaly.thy ===== *)
theory LiveAnomaly
  imports Canonical "HOL-Library.List_Lexorder" "HOL-Library.Char_ord" "HOL-Library.Product_Lexorder"
begin

text \<open>
  \<open>src/gemp/ingest/live_anomaly.py\<close>: the streaming detector. Per building a bounded ring
  of readings and of residuals, the stuck-meter counter, and a dictionary of buildings kept
  in least-recently-scored order; scoring, and the undo of a batch that was not stored.
  Severity grading comes from \<open>src/gemp/ml/anomaly.py\<close>.
\<close>

section \<open>Constants\<close>

definition SEASONAL_LAG :: int where
  "SEASONAL_LAG = 168 * 3600 * 1000000"

definition RESIDUAL_WINDOW :: nat where "RESIDUAL_WINDOW = 2880"
definition HISTORY_READINGS :: nat where "HISTORY_READINGS = 700"
definition MIN_RESIDUALS :: nat where "MIN_RESIDUALS = 200"
definition FLATLINE_RUN :: nat where "FLATLINE_RUN = 12"
definition MAX_TRACKED_BUILDINGS :: nat where "MAX_TRACKED_BUILDINGS = 512"

definition MAD_TO_SIGMA :: rat where "MAD_TO_SIGMA = 14826 / 10000"
definition MIN_RELATIVE_SPREAD :: rat where "MIN_RELATIVE_SPREAD = 1 / 100"
definition HIGH_SEVERITY_MULTIPLE :: rat where "HIGH_SEVERITY_MULTIPLE = 14 / 10"
definition CRITICAL_SEVERITY_MULTIPLE :: rat where "CRITICAL_SEVERITY_MULTIPLE = 2"

definition flatline_z :: "rat \<Rightarrow> rat" where
  "flatline_z threshold_k = HIGH_SEVERITY_MULTIPLE * threshold_k"

definition severity :: "rat \<Rightarrow> rat \<Rightarrow> string" where
  "severity k z =
     (let magnitude = \<bar>z\<bar>
      in if magnitude \<ge> CRITICAL_SEVERITY_MULTIPLE * k then ''critical''
         else if magnitude \<ge> HIGH_SEVERITY_MULTIPLE * k then ''high''
         else ''medium'')"

section \<open>One building's memory\<close>

text \<open>\<open>deque(maxlen=n).append\<close>: the oldest element leaves a full deque.\<close>

definition push :: "nat \<Rightarrow> 'a \<Rightarrow> 'a list \<Rightarrow> 'a list" where
  "push n x xs = drop (length xs + 1 - n) (xs @ [x])"

record building_state =
  bs_readings :: "(datetime \<times> rat) list"
  bs_order :: "datetime list"
  bs_residuals :: "rat list"
  bs_flat_run :: nat
  bs_last_kw :: "rat option"

definition fresh_state :: building_state where
  "fresh_state = \<lparr>bs_readings = [], bs_order = [], bs_residuals = [], bs_flat_run = 0, bs_last_kw = None\<rparr>"

definition remember :: "datetime \<Rightarrow> rat \<Rightarrow> building_state \<Rightarrow> building_state" where
  "remember ts kw st =
     (let kept = (if length (bs_order st) = HISTORY_READINGS \<and> bs_order st \<noteq> []
                  then AList.delete (hd (bs_order st)) (bs_readings st) else bs_readings st)
      in st\<lparr>bs_order := push HISTORY_READINGS ts (bs_order st),
            bs_readings := AList.update ts kw kept\<rparr>)"

record live_anomaly =
  la_building_id :: string
  la_ts :: datetime
  la_observed_kw :: rat
  la_expected_kw :: rat
  la_residual :: rat
  la_robust_z :: rat
  la_severity :: string
  la_kind :: string

text \<open>\<open>np.median\<close>: the middle element, or the mean of the two middle ones.\<close>

definition median :: "rat list \<Rightarrow> rat" where
  "median xs =
     (let s = sort xs; n = length xs
      in if odd n then s ! (n div 2) else (s ! (n div 2 - 1) + s ! (n div 2)) / 2)"

definition robust_z :: "rat list \<Rightarrow> rat \<Rightarrow> rat" where
  "robust_z sample residual =
     (let m = median sample;
          scale = max (median (map (\<lambda>r. \<bar>r - m\<bar>) sample) * MAD_TO_SIGMA) MIN_RELATIVE_SPREAD
      in (residual - m) / scale)"

fun before :: "datetime \<Rightarrow> int \<Rightarrow> datetime" where
  "before (Naive wall) d = Naive (wall - d)"
| "before (Aware wall offset) d = Aware (wall - d) offset"

definition score_flatline ::
  "rat \<Rightarrow> string \<Rightarrow> datetime \<Rightarrow> rat \<Rightarrow> building_state \<Rightarrow> live_anomaly option \<times> building_state" where
  "score_flatline k building_id ts kw st =
     (let same = (case bs_last_kw st of None \<Rightarrow> False | Some l \<Rightarrow> \<bar>kw - l\<bar> \<le> 1 / 1000000000);
          st' = st\<lparr>bs_flat_run := (if same then bs_flat_run st + 1 else 0)\<rparr>
      in (if bs_flat_run st' \<noteq> FLATLINE_RUN then None
          else Some \<lparr>la_building_id = building_id, la_ts = ts, la_observed_kw = kw,
                     la_expected_kw = kw, la_residual = 0, la_robust_z = flatline_z k,
                     la_severity = severity k (flatline_z k), la_kind = ''flatline''\<rparr>,
          st'))"

definition score_residual ::
  "rat \<Rightarrow> string \<Rightarrow> datetime \<Rightarrow> rat \<Rightarrow> building_state \<Rightarrow> live_anomaly option \<times> building_state" where
  "score_residual k building_id ts kw st =
     (case map_of (bs_readings st) (before ts SEASONAL_LAG) of
        None \<Rightarrow> (None, st)
      | Some expected \<Rightarrow>
          if \<bar>expected\<bar> < 1 / 1000000 then (None, st)
          else
            let residual = (kw - expected) / \<bar>expected\<bar>;
                st' = st\<lparr>bs_residuals := push RESIDUAL_WINDOW residual (bs_residuals st)\<rparr>
            in if length (bs_residuals st) < MIN_RESIDUALS then (None, st')
               else
                 let z = robust_z (bs_residuals st) residual
                 in if \<bar>z\<bar> \<le> k then (None, st')
                    else (Some \<lparr>la_building_id = building_id, la_ts = ts, la_observed_kw = kw,
                                la_expected_kw = expected, la_residual = kw - expected,
                                la_robust_z = z, la_severity = severity k z,
                                la_kind = ''residual''\<rparr>, st'))"

text \<open>\<open>score\<close> on the state of the reading's building.\<close>

definition score_state ::
  "rat \<Rightarrow> string \<Rightarrow> datetime \<Rightarrow> rat \<Rightarrow> building_state \<Rightarrow> live_anomaly option \<times> building_state" where
  "score_state k building_id ts kw st =
     (let (flat, st1) = score_flatline k building_id ts kw st;
          (anomaly, st2) = (case flat of Some a \<Rightarrow> (Some a, st1)
                            | None \<Rightarrow> score_residual k building_id ts kw st1)
      in (anomaly, (remember ts kw st2)\<lparr>bs_last_kw := Some kw\<rparr>))"

section \<open>The detector\<close>

record detector =
  det_k :: rat
  det_state :: "(string \<times> building_state) list"
  det_evicted :: nat
  det_flagged :: nat
  det_scored :: nat
  det_saved :: "(string \<times> building_state option) list option"

definition new_detector :: "rat \<Rightarrow> detector" where
  "new_detector k = \<lparr>det_k = k, det_state = [], det_evicted = 0, det_flagged = 0, det_scored = 0,
                     det_saved = None\<rparr>"

definition remember_for_rollback :: "string \<Rightarrow> building_state option \<Rightarrow> detector \<Rightarrow> detector" where
  "remember_for_rollback building_id st det =
     (case det_saved det of
        None \<Rightarrow> det
      | Some saved \<Rightarrow>
          if map_of saved building_id \<noteq> None then det
          else det\<lparr>det_saved := Some (AList.update building_id st saved)\<rparr>)"

text \<open>\<open>_state_for\<close>: take the building's state out, put it back last; a new one may evict the first.\<close>

definition state_for :: "string \<Rightarrow> detector \<Rightarrow> building_state \<times> detector" where
  "state_for building_id det =
     (let old = map_of (det_state det) building_id;
          rest = AList.delete building_id (det_state det);
          det1 = remember_for_rollback building_id old (det\<lparr>det_state := rest\<rparr>)
      in case old of
           Some st \<Rightarrow> (st, det1\<lparr>det_state := AList.update building_id st rest\<rparr>)
         | None \<Rightarrow>
             if length rest \<ge> MAX_TRACKED_BUILDINGS
             then (fresh_state,
                   det1\<lparr>det_state := AList.update building_id fresh_state (AList.delete (fst (hd rest)) rest),
                        det_evicted := det_evicted det1 + 1\<rparr>)
             else (fresh_state, det1\<lparr>det_state := AList.update building_id fresh_state rest\<rparr>))"

definition score :: "string \<Rightarrow> datetime \<Rightarrow> rat \<Rightarrow> detector \<Rightarrow> live_anomaly option \<times> detector" where
  "score building_id ts kw det =
     (let (st, det1) = state_for building_id det;
          (anomaly, st') = score_state (det_k det) building_id ts kw st
      in (anomaly,
          det1\<lparr>det_state := AList.update building_id st' (det_state det1),
               det_scored := det_scored det1 + 1,
               det_flagged := det_flagged det1 + (if anomaly = None then 0 else 1)\<rparr>))"

text \<open>Warm start: every stored reading of the window is remembered, none is scored.\<close>

definition warm_reading :: "string \<times> datetime \<times> rat \<Rightarrow> detector \<Rightarrow> detector" where
  "warm_reading r det =
     (case r of (building_id, ts, kw) \<Rightarrow>
       let (st, det1) = state_for building_id det
       in det1\<lparr>det_state := AList.update building_id (remember (as_utc ts) kw st) (det_state det1)\<rparr>)"

definition warm_from_db :: "(string \<times> datetime \<times> rat) list \<Rightarrow> int \<Rightarrow> detector \<Rightarrow> nat \<times> detector" where
  "warm_from_db stored days det =
     (case py_max_by (\<lambda>(_, ts, _). instant ts) stored of
        None \<Rightarrow> (0, det)
      | Some (_, newest, _) \<Rightarrow>
          let cutoff = instant newest - days * 86400 * 1000000;
              rows = sort_key (\<lambda>(b, ts, _). (b, instant ts)) (filter (\<lambda>(_, ts, _). instant ts \<ge> cutoff) stored)
          in (length rows, fold warm_reading rows det))"

definition score_all :: "(string \<times> datetime \<times> rat) list \<Rightarrow> detector \<Rightarrow> live_anomaly list \<times> detector" where
  "score_all rows det =
     foldl (\<lambda>(found, det) (b, ts, kw).
              let (a, det') = score b ts kw det
              in (found @ (case a of None \<Rightarrow> [] | Some x \<Rightarrow> [x]), det')) ([], det) rows"

section \<open>Undoing a batch\<close>

definition begin_batch :: "detector \<Rightarrow> detector" where
  "begin_batch det = det\<lparr>det_saved := Some []\<rparr>"

definition restore_one ::
  "(string \<times> building_state) list \<Rightarrow> string \<times> building_state option \<Rightarrow> (string \<times> building_state) list" where
  "restore_one states s =
     (case s of (building_id, None) \<Rightarrow> AList.delete building_id states
              | (building_id, Some snapshot) \<Rightarrow> AList.update building_id snapshot states)"

text \<open>The exception branch of \<open>rollback_on_error\<close>; the counters are those at entry.\<close>

definition rollback :: "nat \<times> nat \<times> nat \<Rightarrow> detector \<Rightarrow> detector" where
  "rollback counters det =
     (case counters of (scored, flagged, evicted) \<Rightarrow>
       det\<lparr>det_state := foldl restore_one (det_state det)
                          (case det_saved det of None \<Rightarrow> [] | Some s \<Rightarrow> s),
           det_scored := scored, det_flagged := flagged, det_evicted := evicted,
           det_saved := None\<rparr>)"

definition end_batch :: "detector \<Rightarrow> detector" where
  "end_batch det = det\<lparr>det_saved := None\<rparr>"

section \<open>Memory is bounded\<close>

lemma length_push: "0 < n \<Longrightarrow> length xs \<le> n \<Longrightarrow> length (push n x xs) \<le> n"
  by (simp add: push_def)

lemma push_full: "length xs = n \<Longrightarrow> 0 < n \<Longrightarrow> push n x xs = tl xs @ [x]"
  by (cases xs) (simp_all add: push_def)

lemma push_room: "length xs < n \<Longrightarrow> push n x xs = xs @ [x]"
  by (simp add: push_def)

definition bounded_state :: "building_state \<Rightarrow> bool" where
  "bounded_state st =
     (length (bs_order st) \<le> HISTORY_READINGS \<and> length (bs_residuals st) \<le> RESIDUAL_WINDOW \<and>
      distinct (map fst (bs_readings st)) \<and> set (map fst (bs_readings st)) \<subseteq> set (bs_order st))"

definition bounded :: "detector \<Rightarrow> bool" where
  "bounded det =
     (length (det_state det) \<le> MAX_TRACKED_BUILDINGS \<and> distinct (map fst (det_state det)) \<and>
      list_all (\<lambda>(_, st). bounded_state st) (det_state det))"

lemma keys_dict_update: "set (map fst (AList.update k v d)) = insert k (set (map fst d))"
  by (simp add: dom_update)

lemma keys_dict_delete: "set (map fst (AList.delete k d)) = set (map fst d) - {k}"
  by (simp add: delete_keys)

lemma bounded_readings:
  assumes "bounded_state st"
  shows "length (bs_readings st) \<le> HISTORY_READINGS"
proof -
  have "length (bs_readings st) = card (set (map fst (bs_readings st)))"
    using assms distinct_card [of "map fst (bs_readings st)"] by (simp add: bounded_state_def)
  also have "\<dots> \<le> card (set (bs_order st))"
    using assms by (intro card_mono) (auto simp: bounded_state_def)
  also have "\<dots> \<le> length (bs_order st)" by (rule card_length)
  finally show ?thesis using assms by (simp add: bounded_state_def)
qed

lemma remember_bounded:
  assumes "bounded_state st"
  shows "bounded_state (remember ts kw st)"
proof -
  let ?o = "bs_order st" and ?r = "bs_readings st"
  have pos: "0 < HISTORY_READINGS" by (simp add: HISTORY_READINGS_def)
  have len: "length (push HISTORY_READINGS ts ?o) \<le> HISTORY_READINGS"
    by (rule length_push [OF pos]) (use assms in \<open>simp add: bounded_state_def\<close>)
  show ?thesis
  proof (cases "length ?o = HISTORY_READINGS")
    case True
    then obtain t o' where o: "?o = t # o'" using pos by (cases ?o) auto
    have "set (map fst (AList.delete t ?r)) \<subseteq> set o'"
      using assms o unfolding keys_dict_delete by (auto simp: bounded_state_def)
    then show ?thesis using assms len True o push_full [OF True pos]
      by (auto simp: bounded_state_def remember_def Let_def keys_dict_update [simplified]
          distinct_delete)
  next
    case False
    then show ?thesis using assms len push_room [of ?o HISTORY_READINGS ts]
      by (auto simp: bounded_state_def remember_def Let_def keys_dict_update [simplified])
  qed
qed

lemma bounded_residuals:
  "bounded_state st \<Longrightarrow> bounded_state (st\<lparr>bs_residuals := push RESIDUAL_WINDOW x (bs_residuals st)\<rparr>)"
  using length_push [of RESIDUAL_WINDOW "bs_residuals st" x]
  by (simp add: bounded_state_def RESIDUAL_WINDOW_def)

lemma score_residual_bounded:
  "bounded_state st \<Longrightarrow> bounded_state (snd (score_residual k b ts kw st))"
  by (auto simp: score_residual_def Let_def bounded_residuals split: option.splits)

lemma score_flatline_bounded:
  "bounded_state st \<Longrightarrow> bounded_state (snd (score_flatline k b ts kw st))"
  by (simp add: score_flatline_def Let_def bounded_state_def)

lemma bounded_last_kw: "bounded_state (st\<lparr>bs_last_kw := x\<rparr>) = bounded_state st"
  by (simp add: bounded_state_def)

lemma score_state_bounded:
  assumes "bounded_state st"
  shows "bounded_state (snd (score_state k b ts kw st))"
proof -
  obtain flat st1 where 1: "score_flatline k b ts kw st = (flat, st1)" by force
  have b1: "bounded_state st1" using score_flatline_bounded [OF assms, of k b ts kw] 1 by simp
  obtain a st2 where 2: "(case flat of Some a \<Rightarrow> (Some a, st1)
      | None \<Rightarrow> score_residual k b ts kw st1) = (a, st2)" by force
  have "bounded_state st2"
    using b1 2 score_residual_bounded [OF b1, of k b ts kw] by (cases flat) auto
  then show ?thesis using 1 2 remember_bounded by (simp add: score_state_def bounded_last_kw)
qed

lemma bounded_fresh: "bounded_state fresh_state"
  by (simp add: bounded_state_def fresh_state_def)

lemma det_state_remember [simp]: "det_state (remember_for_rollback b s det) = det_state det"
  by (simp add: remember_for_rollback_def split: option.splits)

lemma length_dict_update: "length (AList.update k v d) \<le> length d + 1"
  by (induction d) auto

lemma list_all_delete: "list_all P d \<Longrightarrow> list_all P (AList.delete k d)"
  by (auto simp: list_all_iff AList.delete_eq)

lemma list_all_update: "list_all P d \<Longrightarrow> P (k, v) \<Longrightarrow> list_all P (AList.update k v d)"
  using set_dict_update_subset [of k v d] by (auto simp: list_all_iff)

text \<open>Storing a bounded state at a key that is present, or while there is room.\<close>

lemma states_store:
  assumes "distinct (map fst d)" and "list_all (\<lambda>(_, st). bounded_state st) d" and "bounded_state st"
    and "length d < n \<or> map_of d b \<noteq> None \<and> length d \<le> n"
  shows "length (AList.update b st d) \<le> n \<and> distinct (map fst (AList.update b st d)) \<and>
         list_all (\<lambda>(_, st). bounded_state st) (AList.update b st d)"
proof -
  have "length (AList.update b st d) \<le> n"
  proof (cases "map_of d b")
    case None
    then show ?thesis using assms(4) length_dict_update [of b st d] by simp
  next
    case (Some w)
    have "length (map fst (AList.update b st d)) = length (map fst d)"
      by (simp only: dict_update_same_keys [OF Some])
    then show ?thesis using assms(4) by auto
  qed
  then show ?thesis using assms list_all_update [of _ d b st] by simp
qed

lemma length_delete_present:
  "distinct (map fst d) \<Longrightarrow> map_of d b \<noteq> None \<Longrightarrow> length (AList.delete b d) < length d"
proof (induction d)
  case (Cons p d)
  show ?case
  proof (cases "fst p = b")
    case True
    then show ?thesis using length_delete_le [of b d] by (cases p) (auto simp: le_imp_less_Suc)
  next
    case False
    then show ?thesis using Cons by (cases p) auto
  qed
qed simp

lemma state_for_bounded:
  assumes "bounded det"
  shows "bounded (snd (state_for b det)) \<and> bounded_state (fst (state_for b det)) \<and>
         map_of (det_state (snd (state_for b det))) b \<noteq> None"
proof -
  let ?d = "det_state det"
  let ?rest = "AList.delete b ?d"
  have rest: "distinct (map fst ?rest)" "list_all (\<lambda>(_, st). bounded_state st) ?rest"
    "length ?rest \<le> MAX_TRACKED_BUILDINGS"
    using assms list_all_delete length_delete_le [of b ?d]
    by (auto simp: bounded_def distinct_delete)
  show ?thesis
  proof (cases "map_of ?d b")
    case (Some st)
    have "bounded_state st" using assms map_of_SomeD [OF Some] by (auto simp: bounded_def list_all_iff)
    moreover have "length ?rest < MAX_TRACKED_BUILDINGS"
      using length_delete_present [of ?d b] Some assms by (simp add: bounded_def)
    ultimately show ?thesis
      using states_store [OF rest(1,2), of st MAX_TRACKED_BUILDINGS b] Some
      by (simp add: state_for_def Let_def bounded_def dict_simps)
  next
    case None
    show ?thesis
    proof (cases "length ?rest \<ge> MAX_TRACKED_BUILDINGS")
      case True
      then obtain p r where r: "?rest = p # r" by (cases ?rest) (auto simp: MAX_TRACKED_BUILDINGS_def)
      let ?cut = "AList.delete (fst (hd ?rest)) ?rest"
      have "length ?cut < MAX_TRACKED_BUILDINGS"
        using length_delete_present [of ?rest "fst (hd ?rest)"] rest(1,3) r by (cases p) auto
      moreover have "distinct (map fst ?cut)" "list_all (\<lambda>(_, st). bounded_state st) ?cut"
        using rest list_all_delete by (auto simp: distinct_delete)
      ultimately show ?thesis
        using states_store [of ?cut fresh_state MAX_TRACKED_BUILDINGS b] True None bounded_fresh
        by (simp add: state_for_def Let_def bounded_def dict_simps)
    next
      case False
      then show ?thesis
        using states_store [OF rest(1,2) bounded_fresh, of MAX_TRACKED_BUILDINGS b] None bounded_fresh
        by (simp add: state_for_def Let_def bounded_def dict_simps)
    qed
  qed
qed

lemma bounded_store:
  assumes "bounded det" and "bounded_state st" and "map_of (det_state det) b \<noteq> None"
  shows "bounded (det\<lparr>det_state := AList.update b st (det_state det)\<rparr>)"
  using states_store [of "det_state det" st MAX_TRACKED_BUILDINGS b] assms by (simp add: bounded_def)

lemma bounded_counters [simp]:
  "bounded (det\<lparr>det_scored := n\<rparr>) = bounded det" "bounded (det\<lparr>det_flagged := n\<rparr>) = bounded det"
  "bounded (det\<lparr>det_saved := s\<rparr>) = bounded det" "bounded (det\<lparr>det_evicted := n\<rparr>) = bounded det"
  by (simp_all add: bounded_def)

lemma score_bounded:
  assumes "bounded det"
  shows "bounded (snd (score b ts kw det))"
proof -
  obtain st det1 where 1: "state_for b det = (st, det1)" by force
  obtain a st' where 2: "score_state (det_k det) b ts kw st = (a, st')" by force
  note s = state_for_bounded [OF assms, of b]
  have "bounded_state st'" using score_state_bounded [of st "det_k det" b ts kw] s 1 2 by simp
  then show ?thesis using bounded_store [of det1 st' b] s by (simp add: score_def 1 2)
qed

lemma warm_bounded:
  assumes "bounded det"
  shows "bounded (warm_reading r det)"
proof -
  obtain b ts kw where r: "r = (b, ts, kw)" by (metis prod_cases3)
  obtain st det1 where 1: "state_for b det = (st, det1)" by force
  note s = state_for_bounded [OF assms, of b]
  then show ?thesis
    using bounded_store [of det1 "remember (as_utc ts) kw st" b] remember_bounded [of st "as_utc ts" kw]
    by (simp add: warm_reading_def r 1)
qed

text \<open>Everything that can happen to a detector between two commits.\<close>

datatype detector_event =
    Warm "string \<times> datetime \<times> rat"
  | Score string datetime rat
  | Begin_Batch
  | End_Batch

fun detector_step :: "detector_event \<Rightarrow> detector \<Rightarrow> detector" where
  "detector_step (Warm r) det = warm_reading r det"
| "detector_step (Score b ts kw) det = snd (score b ts kw det)"
| "detector_step Begin_Batch det = begin_batch det"
| "detector_step End_Batch det = end_batch det"

text \<open>
  C34: the detector's memory is bounded whatever is published. After any sequence of
  warm-up readings, scored readings and batch boundaries, with any building ids,
  timestamps and values, at most 512 buildings are tracked, each once, and each keeps at
  most 700 readings and 2880 residuals.
\<close>
theorem detector_bounded:
  "bounded (fold detector_step events (new_detector k)) \<and>
   list_all (\<lambda>(_, st). length (bs_readings st) \<le> HISTORY_READINGS)
     (det_state (fold detector_step events (new_detector k)))"
proof -
  have step: "bounded det \<Longrightarrow> bounded (detector_step e det)" for e det
    by (cases e) (simp_all add: warm_bounded score_bounded begin_batch_def end_batch_def)
  have "bounded det \<Longrightarrow> bounded (fold detector_step events det)" for det
    by (induction events arbitrary: det) (simp_all add: step)
  moreover have "bounded (new_detector k)" by (simp add: bounded_def new_detector_def)
  ultimately have b: "bounded (fold detector_step events (new_detector k))" by simp
  then show ?thesis using bounded_readings by (auto simp: bounded_def list_all_iff)
qed

section \<open>Severity and the stuck meter\<close>

text \<open>
  A stuck meter is graded \<open>high\<close> at every sensitivity, never lower and never
  \<open>critical\<close>; the flag itself is at least the threshold that a residual must exceed.
\<close>
theorem flatline_graded_high:
  assumes "0 < k"
  shows "severity k (flatline_z k) = ''high'' \<and> k < flatline_z k"
  using assms
  by (simp add: severity_def flatline_z_def Let_def HIGH_SEVERITY_MULTIPLE_def
      CRITICAL_SEVERITY_MULTIPLE_def)

theorem flatline_graded_high_witness: "severity 8 (flatline_z 8) = ''high'' \<and> 8 < flatline_z 8"
  by (rule flatline_graded_high) simp

text \<open>The alerts of a building that reports one value over and over.\<close>

fun repeated_alerts :: "rat \<Rightarrow> string \<Rightarrow> rat \<Rightarrow> datetime list \<Rightarrow> building_state \<Rightarrow> live_anomaly list" where
  "repeated_alerts k b kw [] st = []"
| "repeated_alerts k b kw (ts # stamps) st =
     (let (a, st') = score_state k b ts kw st
      in (case a of None \<Rightarrow> [] | Some x \<Rightarrow> [x]) @ repeated_alerts k b kw stamps st')"

definition flatlines :: "live_anomaly list \<Rightarrow> nat" where
  "flatlines found = length (filter (\<lambda>a. la_kind a = ''flatline'') found)"

lemma flat_run_remember [simp]: "bs_flat_run (remember ts kw st) = bs_flat_run st"
  by (simp add: remember_def Let_def)

lemma residual_not_flatline:
  "fst (score_residual k b ts kw st) = Some a \<Longrightarrow> la_kind a = ''residual''"
  by (auto simp: score_residual_def Let_def split: option.splits if_splits)

lemma residual_flat_run: "bs_flat_run (snd (score_residual k b ts kw st)) = bs_flat_run st"
  by (simp add: score_residual_def Let_def split: option.splits)

lemma score_state_run:
  "score_state k b ts kw st = (a, st') \<Longrightarrow>
     bs_last_kw st' = Some kw \<and>
     bs_flat_run st' = bs_flat_run (snd (score_flatline k b ts kw st)) \<and>
     (case a of None \<Rightarrow> 0 | Some x \<Rightarrow> if la_kind x = ''flatline'' then 1 else 0) =
       (if bs_flat_run st' = FLATLINE_RUN then 1 else (0::nat))"
  using residual_not_flatline [of k b ts kw "snd (score_flatline k b ts kw st)"]
    residual_flat_run [of k b ts kw "snd (score_flatline k b ts kw st)"]
  by (auto simp: score_state_def Let_def case_prod_beta score_flatline_def
      split: option.splits if_splits)

lemma repeated_alerts_count:
  assumes "bs_last_kw st = Some kw"
  shows "flatlines (repeated_alerts k b kw stamps st) =
           (if bs_flat_run st < FLATLINE_RUN \<and> FLATLINE_RUN \<le> bs_flat_run st + length stamps then 1 else 0)"
  using assms
proof (induction stamps arbitrary: st)
  case Nil
  then show ?case by (simp add: flatlines_def)
next
  case (Cons ts stamps)
  obtain a st' where s: "score_state k b ts kw st = (a, st')" by force
  note r = score_state_run [OF s]
  have run: "bs_flat_run st' = bs_flat_run st + 1"
    using r Cons.prems by (simp add: score_flatline_def Let_def)
  have "flatlines (repeated_alerts k b kw (ts # stamps) st) =
      (case a of None \<Rightarrow> 0 | Some x \<Rightarrow> if la_kind x = ''flatline'' then 1 else 0) +
      flatlines (repeated_alerts k b kw stamps st')"
    by (simp add: s flatlines_def split: option.splits)
  also have "\<dots> = (if bs_flat_run st' = FLATLINE_RUN then 1 else 0) +
      (if bs_flat_run st' < FLATLINE_RUN \<and> FLATLINE_RUN \<le> bs_flat_run st' + length stamps then 1 else 0)"
    using r Cons.IH [of st'] by simp
  finally show ?case using run by auto
qed

text \<open>
  A frozen meter raises exactly one flatline alert. From any state, a reading that
  differs from the last one followed by any number of identical readings gives one flatline
  alert if there are at least twelve of them and none otherwise, however long the meter
  stays frozen and whatever the residual test says about the same readings.
\<close>
theorem flatline_alert_once:
  assumes "bs_last_kw st = None \<or> \<bar>kw - the (bs_last_kw st)\<bar> > 1 / 1000000000"
  shows "flatlines (repeated_alerts k b kw (first # stamps) st) =
         (if 12 \<le> length stamps then 1 else 0)"
proof -
  obtain a st' where s: "score_state k b first kw st = (a, st')" by force
  note r = score_state_run [OF s]
  have run: "bs_flat_run st' = 0"
    using r assms by (auto simp: score_flatline_def Let_def split: option.splits)
  have "flatlines (repeated_alerts k b kw (first # stamps) st) =
      (case a of None \<Rightarrow> 0 | Some x \<Rightarrow> if la_kind x = ''flatline'' then 1 else 0) +
      flatlines (repeated_alerts k b kw stamps st')"
    by (simp add: s flatlines_def split: option.splits)
  then show ?thesis
    using r run repeated_alerts_count [of st' kw k b stamps] by (simp add: FLATLINE_RUN_def)
qed

theorem flatline_alert_once_witness:
  "flatlines (repeated_alerts 8 ''b001'' 5 (map (\<lambda>i. Aware (900000000 * int i) 0) [0..<20]) fresh_state) = 1"
  using flatline_alert_once [of fresh_state 5 8 "''b001''" "Aware 0 0"
      "map (\<lambda>i. Aware (900000000 * int i) 0) [1..<20]"]
  by (simp add: fresh_state_def upt_conv_Cons)

section \<open>A batch that is not stored leaves no trace\<close>

definition batch_inv :: "string set \<Rightarrow> detector \<Rightarrow> detector \<Rightarrow> bool" where
  "batch_inv U det0 det \<longleftrightarrow>
     (\<exists>saved. det_saved det = Some saved \<and> distinct (map fst saved) \<and>
        distinct (map fst (det_state det)) \<and> set (map fst (det_state det)) \<subseteq> U \<and>
        det_evicted det = det_evicted det0 \<and> det_k det = det_k det0 \<and>
        (\<forall>b. (case map_of saved b of None \<Rightarrow> map_of (det_state det) b | Some old \<Rightarrow> old) =
             map_of (det_state det0) b))"

lemma batch_inv_store:
  assumes "batch_inv U det0 det" and "map_of (the (det_saved det)) b \<noteq> None" and "b \<in> U"
  shows "batch_inv U det0 (det\<lparr>det_state := AList.update b st (det_state det)\<rparr>)"
proof -
  obtain saved where saved: "det_saved det = Some saved" "distinct (map fst saved)"
    "distinct (map fst (det_state det))" "set (map fst (det_state det)) \<subseteq> U"
    "det_evicted det = det_evicted det0" "det_k det = det_k det0"
    "\<And>b. (case map_of saved b of None \<Rightarrow> map_of (det_state det) b | Some old \<Rightarrow> old) =
           map_of (det_state det0) b"
    using assms(1) unfolding batch_inv_def by blast
  have "map_of saved b \<noteq> None" using assms(2) saved(1) by simp
  then have "(case map_of saved x of None \<Rightarrow> map_of (AList.update b st (det_state det)) x | Some old \<Rightarrow> old) =
      map_of (det_state det0) x" for x
    using saved(7) [of x] by (cases "x = b") (auto simp: dict_simps split: option.splits)
  moreover have "set (map fst (AList.update b st (det_state det))) \<subseteq> U"
    using saved(4) assms(3) unfolding keys_dict_update by blast
  ultimately show ?thesis
    unfolding batch_inv_def using saved by (intro exI [of _ saved]) (simp cong: option.case_cong)
qed

lemma state_for_batch:
  assumes inv: "batch_inv U det0 det" and U: "finite U" "card U \<le> MAX_TRACKED_BUILDINGS" "b \<in> U"
  shows "batch_inv U det0 (snd (state_for b det)) \<and>
         map_of (the (det_saved (snd (state_for b det)))) b \<noteq> None"
proof -
  obtain saved where saved: "det_saved det = Some saved" "distinct (map fst saved)"
    "distinct (map fst (det_state det))" "set (map fst (det_state det)) \<subseteq> U"
    "det_evicted det = det_evicted det0" "det_k det = det_k det0"
    "\<And>b. (case map_of saved b of None \<Rightarrow> map_of (det_state det) b | Some old \<Rightarrow> old) =
           map_of (det_state det0) b"
    using inv unfolding batch_inv_def by blast
  let ?d = "det_state det"
  let ?rest = "AList.delete b ?d"
  let ?saved' = "if map_of saved b \<noteq> None then saved else AList.update b (map_of ?d b) saved"
  have s': "det_saved (remember_for_rollback b (map_of ?d b) (det\<lparr>det_state := ?rest\<rparr>)) = Some ?saved'"
    using saved(1) by (auto simp: remember_for_rollback_def)
  have keys: "map_of ?saved' b \<noteq> None" by (simp add: dict_simps)
  have dist': "distinct (map fst ?saved')" using saved(2) by auto
  have look: "(case map_of ?saved' x of None \<Rightarrow> map_of (AList.update b st ?rest) x | Some old \<Rightarrow> old) =
      map_of (det_state det0) x" for x st
    using saved(7) [of x] by (auto simp: dict_simps split: option.splits if_splits)
  have rest: "distinct (map fst ?rest)" "set (map fst ?rest) \<subseteq> U - {b}"
    using saved(3,4) by (auto simp: distinct_delete keys_dict_delete [simplified])
  then have "length ?rest = card (set (map fst ?rest))"
    using distinct_card [OF rest(1)] by simp
  also have "\<dots> \<le> card (U - {b})" using rest(2) U(1) by (intro card_mono) auto
  also have "\<dots> < card U" using U by (intro card_Diff1_less) auto
  finally have room: "\<not> length ?rest \<ge> MAX_TRACKED_BUILDINGS" using U(2) by simp
  have inv': "batch_inv U det0 ((remember_for_rollback b (map_of ?d b) (det\<lparr>det_state := ?rest\<rparr>))
      \<lparr>det_state := AList.update b st ?rest\<rparr>)" for st
    unfolding batch_inv_def
  proof (intro exI [of _ ?saved'] conjI allI)
    show "det_saved ((remember_for_rollback b (map_of ?d b) (det\<lparr>det_state := ?rest\<rparr>))
      \<lparr>det_state := AList.update b st ?rest\<rparr>) = Some ?saved'" using s' by simp
    show "distinct (map fst ?saved')" by (rule dist')
    show "set (map fst (det_state ((remember_for_rollback b (map_of ?d b) (det\<lparr>det_state := ?rest\<rparr>))
      \<lparr>det_state := AList.update b st ?rest\<rparr>))) \<subseteq> U"
      using rest(2) U(3) by (auto simp: keys_dict_update [simplified])
    show "(case map_of ?saved' x of None \<Rightarrow> map_of (det_state ((remember_for_rollback b (map_of ?d b)
      (det\<lparr>det_state := ?rest\<rparr>))\<lparr>det_state := AList.update b st ?rest\<rparr>)) x | Some old \<Rightarrow> old) =
      map_of (det_state det0) x" for x using look [where st = st and x = x] by (simp cong: option.case_cong if_cong)
  qed (use rest saved(5,6) in \<open>simp_all add: remember_for_rollback_def split: option.splits\<close>)
  show ?thesis
    using inv' s' keys room
    by (cases "map_of ?d b") (simp_all add: state_for_def Let_def)
qed

lemma batch_inv_counters [simp]:
  "batch_inv U d0 (det\<lparr>det_scored := n\<rparr>) = batch_inv U d0 det"
  "batch_inv U d0 (det\<lparr>det_flagged := n\<rparr>) = batch_inv U d0 det"
  unfolding batch_inv_def by (simp_all cong: option.case_cong)

lemma score_batch:
  assumes "batch_inv U det0 det" and U: "finite U" "card U \<le> MAX_TRACKED_BUILDINGS" "b \<in> U"
  shows "batch_inv U det0 (snd (score b ts kw det))"
proof -
  obtain st det1 where 1: "state_for b det = (st, det1)" by force
  obtain a st' where 2: "score_state (det_k det) b ts kw st = (a, st')" by force
  have "batch_inv U det0 det1 \<and> map_of (the (det_saved det1)) b \<noteq> None"
    using state_for_batch [OF assms] 1 by simp
  then show ?thesis using batch_inv_store [of U det0 det1 b st'] U(3) by (simp add: score_def 1 2)
qed

definition score_rows :: "(string \<times> datetime \<times> rat) list \<Rightarrow> detector \<Rightarrow> detector" where
  "score_rows rows det = fold (\<lambda>(b, ts, kw) det. snd (score b ts kw det)) rows det"

lemma score_all_rows: "snd (score_all rows det) = score_rows rows det"
proof -
  have "snd (foldl (\<lambda>(found, det) (b, ts, kw). let (a, det') = score b ts kw det
              in (found @ (case a of None \<Rightarrow> [] | Some x \<Rightarrow> [x]), det')) (found, det) rows) =
        score_rows rows det" for found
    by (induction rows arbitrary: found det) (auto simp: score_rows_def case_prod_beta Let_def)
  then show ?thesis by (simp add: score_all_def)
qed

lemma score_rows_batch:
  assumes "batch_inv U det0 det" and "finite U" "card U \<le> MAX_TRACKED_BUILDINGS"
    and "set (map fst rows) \<subseteq> U"
  shows "batch_inv U det0 (score_rows rows det)"
  using assms(1,4)
proof (induction rows arbitrary: det)
  case Nil
  then show ?case by (simp add: score_rows_def)
next
  case (Cons r rows)
  obtain b ts kw where r: "r = (b, ts, kw)" by (metis prod_cases3)
  have "batch_inv U det0 (snd (score b ts kw det))"
    using score_batch [OF Cons.prems(1) assms(2,3)] Cons.prems(2) by (simp add: r)
  then show ?case using Cons by (simp add: score_rows_def r)
qed

lemma map_of_restore:
  "distinct (map fst saved) \<Longrightarrow>
     map_of (foldl restore_one d saved) b = (case map_of saved b of None \<Rightarrow> map_of d b | Some old \<Rightarrow> old)"
proof (induction saved arbitrary: d)
  case Nil
  then show ?case by simp
next
  case (Cons p saved)
  obtain k old where p: "p = (k, old)" by (cases p)
  have "map_of saved k = None" using Cons.prems p by (simp add: map_of_eq_None_iff)
  then show ?case using Cons p
    by (cases old) (auto simp: restore_one_def dict_simps split: option.splits)
qed

text \<open>The undo, for the proofs that use it.\<close>

lemma rollback_maps:
  assumes "distinct (map fst (det_state det))"
    and "card (set (map fst (det_state det)) \<union> set (map fst rows)) \<le> MAX_TRACKED_BUILDINGS"
  defines "det' \<equiv> rollback (det_scored det, det_flagged det, det_evicted det)
                     (score_rows rows (begin_batch det))"
  shows "map_of (det_state det') = map_of (det_state det) \<and> det_k det' = det_k det \<and>
         det_scored det' = det_scored det \<and> det_flagged det' = det_flagged det \<and>
         det_evicted det' = det_evicted det \<and> det_saved det' = None"
proof -
  let ?U = "set (map fst (det_state det)) \<union> set (map fst rows)"
  have "batch_inv ?U det (begin_batch det)"
    using assms(1) by (auto simp: batch_inv_def begin_batch_def)
  then have inv: "batch_inv ?U det (score_rows rows (begin_batch det))"
    by (rule score_rows_batch) (use assms(2) in auto)
  then obtain saved where saved: "det_saved (score_rows rows (begin_batch det)) = Some saved"
    "distinct (map fst saved)" "det_k (score_rows rows (begin_batch det)) = det_k det"
    "\<And>b. (case map_of saved b of None \<Rightarrow> map_of (det_state (score_rows rows (begin_batch det))) b
           | Some old \<Rightarrow> old) = map_of (det_state det) b"
    unfolding batch_inv_def by blast
  have "map_of (det_state det') b = map_of (det_state det) b" for b
    using saved map_of_restore [OF saved(2)] by (simp add: det'_def rollback_def)
  then show ?thesis using saved(3) by (auto simp: det'_def rollback_def)
qed

text \<open>
  C35: scoring a batch that is then not stored changes nothing the detector will ever read.
  As long as the buildings tracked before together with those of the batch fit in the 512
  slots, rolling back after any batch gives every building exactly the memory it had,
  removes the ones the batch created and restores the counters.
\<close>
theorem rollback_restores:
  assumes "distinct (map fst (det_state det))"
    and "card (set (map fst (det_state det)) \<union> set (map fst rows)) \<le> MAX_TRACKED_BUILDINGS"
  defines "det' \<equiv> rollback (det_scored det, det_flagged det, det_evicted det)
                     (score_rows rows (begin_batch det))"
  shows "map_of (det_state det') = map_of (det_state det) \<and> det_k det' = det_k det \<and>
         det_scored det' = det_scored det \<and> det_flagged det' = det_flagged det \<and>
         det_evicted det' = det_evicted det \<and> det_saved det' = None"
  unfolding det'_def by (rule rollback_maps [OF assms(1,2)])

lemma new_detector_fields [simp]:
  "det_state (new_detector k) = []" "det_scored (new_detector k) = 0" "det_flagged (new_detector k) = 0"
  "det_evicted (new_detector k) = 0"
  by (simp_all add: new_detector_def)

theorem rollback_restores_witness:
  "map_of (det_state (rollback (0, 0, 0)
      (score_rows [(''b001'', Aware 0 0, 5), (''b002'', Aware 0 0, 6), (''b001'', Aware 900000000 0, 7)]
        (begin_batch (new_detector 8))))) ''b001'' = None"
proof -
  let ?rows = "[(''b001'', Aware 0 0, 5), (''b002'', Aware 0 0, 6), (''b001'', Aware 900000000 0, 7)]"
  have "card (set (map fst (det_state (new_detector 8))) \<union> set (map fst ?rows)) \<le> MAX_TRACKED_BUILDINGS"
    by (simp add: MAX_TRACKED_BUILDINGS_def card_insert_if)
  from rollback_restores [OF _ this] show ?thesis by simp
qed

lemma delete_absent: "k \<notin> fst ` set d \<Longrightarrow> AList.delete k d = d"
  by (induction d) auto

text \<open>
  The undo has a hole when the detector is full. A batch that fails after scoring one
  building that was not tracked, with 512 tracked, loses the memory of the least recently
  scored building for good: eviction is not part of what the snapshot remembers.
\<close>
theorem rollback_loses_evicted:
  fixes ts :: datetime and kw :: rat
  assumes "det_state det = (stale, st) # rest" and "length (det_state det) = MAX_TRACKED_BUILDINGS"
    and "distinct (map fst (det_state det))" and "map_of (det_state det) b = None"
  defines "det' \<equiv> rollback (det_scored det, det_flagged det, det_evicted det)
                     (score_rows [(b, ts, kw)] (begin_batch det))"
  shows "map_of (det_state det) stale = Some st \<and> map_of (det_state det') stale = None"
proof -
  have ne: "b \<noteq> stale" and new: "map_of rest b = None" using assms(1,4) by (auto split: if_splits)
  have del: "AList.delete b (det_state det) = det_state det"
    using assms(4) by (simp add: map_of_eq_None_iff delete_absent)
  have gone: "map_of rest stale = None" using assms(1,3) by (simp add: map_of_eq_None_iff)
  have full: "MAX_TRACKED_BUILDINGS \<le> Suc (length rest)" using assms(1,2) by simp
  obtain a st' where s: "score_state (det_k det) b ts kw fresh_state = (a, st')" by force
  have "map_of (det_state det') stale = None"
    using ne new gone full del assms(1,4) s
    by (simp add: det'_def rollback_def score_rows_def score_def state_for_def Let_def begin_batch_def
        remember_for_rollback_def restore_one_def dict_simps)
  then show ?thesis using assms(1) by simp
qed

definition tracked :: "nat \<Rightarrow> (string \<times> building_state) list" where
  "tracked n = map (\<lambda>i. (replicate i (CHR ''a''), fresh_state)) [0..<n]"

lemma tracked_facts:
  "length (tracked n) = n" "distinct (map fst (tracked n))" "map_of (tracked n) ''junk'' = None"
  "0 < n \<Longrightarrow> \<exists>rest. tracked n = ([], fresh_state) # rest"
proof -
  show "length (tracked n) = n" by (simp add: tracked_def)
  show "distinct (map fst (tracked n))"
    by (simp add: tracked_def distinct_map comp_def inj_on_def)
  have "''junk'' \<notin> set (map fst (tracked n))"
  proof
    assume "''junk'' \<in> set (map fst (tracked n))"
    then obtain i where "''junk'' = replicate i (CHR ''a'')" by (auto simp: tracked_def)
    then have "CHR ''j'' \<in> set (replicate i (CHR ''a''))" by (metis list.set_intros(1))
    then show False by (simp add: in_set_replicate)
  qed
  then show "map_of (tracked n) ''junk'' = None" by (simp add: map_of_eq_None_iff)
  show "0 < n \<Longrightarrow> \<exists>rest. tracked n = ([], fresh_state) # rest"
    by (simp add: tracked_def upt_conv_Cons)
qed

definition full_detector :: detector where
  "full_detector = (new_detector 8)\<lparr>det_state := tracked MAX_TRACKED_BUILDINGS\<rparr>"

theorem rollback_loses_evicted_witness:
  "map_of (det_state full_detector) [] = Some fresh_state \<and>
   map_of (det_state (rollback (0, 0, 0)
      (score_rows [(''junk'', Aware 0 0, 1)] (begin_batch full_detector)))) [] = None"
proof -
  obtain rest where st: "det_state full_detector = ([], fresh_state) # rest"
    using tracked_facts(4) [of MAX_TRACKED_BUILDINGS]
    by (auto simp: full_detector_def MAX_TRACKED_BUILDINGS_def)
  have f: "length (det_state full_detector) = MAX_TRACKED_BUILDINGS"
    "distinct (map fst (det_state full_detector))" "map_of (det_state full_detector) ''junk'' = None"
    by (simp_all add: full_detector_def tracked_facts)
  show ?thesis
    using rollback_loses_evicted [OF st f, of "Aware 0 0" 1] by (simp add: full_detector_def)
qed

end
