(* ===== verification/Webhook.thy ===== *)
theory Webhook
  imports LiveAnomaly
begin

text \<open>
  \<open>src/gemp/ingest/webhook.py\<close>: the outbound notifier as a state machine. The ingester
  notifies, a worker takes from a bounded queue and posts. \<open>urllib.parse.urlparse\<close> is the
  parameter \<open>urlparse\<close> (a text to its scheme and network location).
\<close>

definition SEVERITY_ORDER :: "(string \<times> nat) list" where
  "SEVERITY_ORDER = [(''medium'', 0), (''high'', 1), (''critical'', 2)]"

definition QUEUE_DEPTH :: nat where "QUEUE_DEPTH = 256"

definition ALLOWED_SCHEMES :: "string list" where
  "ALLOWED_SCHEMES = [''http'', ''https'']"

definition http_url_or_none :: "(string \<Rightarrow> string \<times> string) \<Rightarrow> string option \<Rightarrow> string" where
  "http_url_or_none urlparse url =
     (let candidate = strip (case url of None \<Rightarrow> [] | Some u \<Rightarrow> u)
      in if candidate = [] then []
         else let (scheme, netloc) = urlparse candidate
              in if lower scheme \<notin> set ALLOWED_SCHEMES \<or> netloc = [] then [] else candidate)"

record webhook =
  wh_url :: string
  wh_min_severity :: nat
  wh_sent :: nat
  wh_failed :: nat
  wh_dropped :: nat
  wh_suppressed :: nat
  wh_queue :: "live_anomaly list"

definition new_webhook :: "(string \<Rightarrow> string \<times> string) \<Rightarrow> string option \<Rightarrow> string \<Rightarrow> webhook" where
  "new_webhook urlparse url min_severity =
     \<lparr>wh_url = http_url_or_none urlparse url,
      wh_min_severity = dict_get SEVERITY_ORDER (lower min_severity) 2,
      wh_sent = 0, wh_failed = 0, wh_dropped = 0, wh_suppressed = 0, wh_queue = []\<rparr>"

definition enabled :: "webhook \<Rightarrow> bool" where
  "enabled w = (wh_url w \<noteq> [])"

definition notify :: "live_anomaly \<Rightarrow> webhook \<Rightarrow> webhook" where
  "notify a w =
     (if \<not> enabled w then w
      else if dict_get SEVERITY_ORDER (la_severity a) 0 < wh_min_severity w
      then w\<lparr>wh_suppressed := wh_suppressed w + 1\<rparr>
      else if length (wh_queue w) < QUEUE_DEPTH then w\<lparr>wh_queue := wh_queue w @ [a]\<rparr>
      else w\<lparr>wh_dropped := wh_dropped w + 1\<rparr>)"

text \<open>The worker takes the oldest notification and posts it; the post succeeds or fails.\<close>

definition post_next :: "bool \<Rightarrow> webhook \<Rightarrow> webhook" where
  "post_next delivered w =
     (case wh_queue w of
        [] \<Rightarrow> w
      | _ # rest \<Rightarrow>
          if delivered then w\<lparr>wh_queue := rest, wh_sent := wh_sent w + 1\<rparr>
          else w\<lparr>wh_queue := rest, wh_failed := wh_failed w + 1\<rparr>)"

datatype webhook_event = Notify live_anomaly | Post bool

fun webhook_step :: "webhook_event \<Rightarrow> webhook \<Rightarrow> webhook" where
  "webhook_step (Notify a) w = notify a w"
| "webhook_step (Post delivered) w = post_next delivered w"

definition notified :: "webhook_event list \<Rightarrow> nat" where
  "notified es = length (filter (\<lambda>e. case e of Notify _ \<Rightarrow> True | Post _ \<Rightarrow> False) es)"

definition accounted :: "webhook \<Rightarrow> nat" where
  "accounted w = wh_sent w + wh_failed w + wh_dropped w + wh_suppressed w + length (wh_queue w)"

lemma fold_accounted:
  assumes "enabled w" and "length (wh_queue w) \<le> QUEUE_DEPTH"
  shows "accounted (fold webhook_step es w) = accounted w + notified es \<and>
         length (wh_queue (fold webhook_step es w)) \<le> QUEUE_DEPTH"
  using assms
proof (induction es arbitrary: w)
  case Nil
  then show ?case by (simp add: notified_def)
next
  case (Cons e es)
  have s: "enabled (webhook_step e w) \<and> length (wh_queue (webhook_step e w)) \<le> QUEUE_DEPTH \<and>
      accounted (webhook_step e w) = accounted w + notified [e]"
    using Cons.prems
    by (cases e) (auto simp: notify_def post_next_def accounted_def enabled_def notified_def
        split: list.splits)
  have "notified (e # es) = notified [e] + notified es" by (simp add: notified_def)
  then show ?case using Cons.IH [of "webhook_step e w"] s by simp
qed


definition sample_urlparse :: "string \<Rightarrow> string \<times> string" where
  "sample_urlparse u = (takeWhile (\<lambda>c. c \<noteq> CHR '':'') u, drop 3 (dropWhile (\<lambda>c. c \<noteq> CHR '':'') u))"


end
