(* ===== verification/Consumer.thy ===== *)
theory Consumer
  imports Integrity Webhook
begin

text \<open>
  \<open>src/gemp/ingest/consumer.py\<close>: from an MQTT message to a signed row. The ingester's memory
  and the database are two records; every operation takes both and the fate of the
  transactions it opens, and returns both. The parameters are what the code does not
  contain: \<open>mac\<close> (HMAC), \<open>iso\<close> (\<open>datetime.fromisoformat\<close> on text), \<open>parse_float\<close> and
  \<open>py_str\<close> (\<open>float\<close> on text and \<open>str\<close> on what is not text).
\<close>

section \<open>Messages\<close>

text \<open>A decoded JSON value; a number is kept as the integer or the finite float it is.\<close>

datatype json =
    JNull
  | JBool bool
  | JInteger int
  | JFloat rat
  | JText string
  | JArray "json list"
  | JObject "(string \<times> json) list"

record stdlib =
  iso :: "string \<Rightarrow> datetime option"
  parse_float :: "string \<Rightarrow> rat option"
  py_str :: "json \<Rightarrow> string"

record reading =
  rd_building_id :: string
  rd_ts :: datetime
  rd_kw :: rat
  rd_source :: string

definition get_item :: "json \<Rightarrow> string \<Rightarrow> json result" where
  "get_item payload k =
     (case payload of
        JObject d \<Rightarrow> (case map_of d k of None \<Rightarrow> Inl (KeyError k) | Some v \<Rightarrow> Inr v)
      | _ \<Rightarrow> Inl (TypeError k))"

definition to_str :: "stdlib \<Rightarrow> json \<Rightarrow> string" where
  "to_str lib v = (case v of JText s \<Rightarrow> s | _ \<Rightarrow> py_str lib v)"

text \<open>\<open>float(v)\<close>; an integer that rounds past the largest double does not fit.\<close>

definition to_float :: "stdlib \<Rightarrow> json \<Rightarrow> rat result" where
  "to_float lib v =
     (case v of
        JInteger i \<Rightarrow> if \<bar>i\<bar> \<ge> 2 ^ 1024 - 2 ^ 970 then Inl (OverflowError ''float'') else Inr (of_int i)
      | JFloat x \<Rightarrow> Inr x
      | JBool b \<Rightarrow> Inr (if b then 1 else 0)
      | JText s \<Rightarrow> (case parse_float lib s of None \<Rightarrow> Inl (ValueError ''float'') | Some x \<Rightarrow> Inr x)
      | _ \<Rightarrow> Inl (TypeError ''float''))"

text \<open>\<open>as_utc(v)\<close>: text is parsed, anything else is taken for a \<open>datetime\<close>, which it is not.\<close>

definition to_utc :: "stdlib \<Rightarrow> json \<Rightarrow> datetime result" where
  "to_utc lib v =
     (case v of
        JText s \<Rightarrow> (case iso lib s of None \<Rightarrow> Inl (ValueError ''fromisoformat'') | Some t \<Rightarrow> Inr (as_utc t))
      | _ \<Rightarrow> Inl (AttributeError ''tzinfo''))"

definition decode_reading :: "stdlib \<Rightarrow> json \<Rightarrow> reading result" where
  "decode_reading lib payload =
     rbind (get_item payload ''building_id'') (\<lambda>b.
     rbind (rbind (get_item payload ''ts'') (to_utc lib)) (\<lambda>ts.
     rbind (rbind (get_item payload ''kw'') (to_float lib)) (\<lambda>kw.
       Inr \<lparr>rd_building_id = to_str lib b, rd_ts = ts, rd_kw = kw,
            rd_source = (case get_item payload ''source'' of
                           Inr s \<Rightarrow> to_str lib s | Inl _ \<Rightarrow> ''unknown'')\<rparr>)))"

section \<open>Memory and database\<close>

definition MAX_QUEUED_READINGS :: nat where "MAX_QUEUED_READINGS = 100000"

record chain_state =
  cs_last_seq :: int
  cs_last_sig :: bytes
  cs_last_ts :: "datetime option"

definition new_chain :: chain_state where
  "new_chain = \<lparr>cs_last_seq = - 1, cs_last_sig = GENESIS, cs_last_ts = None\<rparr>"

record ingester =
  ing_queue :: "reading list"
  ing_chains :: "(string \<times> chain_state) list"
  ing_written :: nat
  ing_anomalies :: nat
  ing_duplicates :: nat
  ing_malformed :: nat
  ing_overflowed :: nat
  ing_rejected :: nat
  ing_detector :: detector
  ing_webhook :: webhook

record checkpoint =
  cp_building_id :: string
  cp_ts :: datetime
  cp_last_seq :: int
  cp_head_sig :: bytes

record database =
  db_buildings :: "string list"
  db_readings :: "row list"
  db_anomalies :: "(live_anomaly \<times> bool) list"
  db_checkpoints :: "checkpoint list"

text \<open>
  The fate of a transaction: it reaches the commit, the connection fails before anything is
  read, the commit fails, or the database refuses it for a reason the model does not derive.
\<close>

datatype tx = Tx_Commit | Tx_No_Connection | Tx_Commit_Fails | Tx_Refused

datatype write_error = Integrity_Violation | Other_Failure

section \<open>Receiving\<close>

text \<open>
  The handler's outcome: \<open>None\<close> when it returns, the exception when one escapes its
  \<open>except (ValueError, KeyError, TypeError)\<close>.
\<close>

definition caught :: "py_error \<Rightarrow> bool" where
  "caught e = (case e of ValueError _ \<Rightarrow> True | KeyError _ \<Rightarrow> True | TypeError _ \<Rightarrow> True
                 | IntegrityError _ \<Rightarrow> True | SavingsError _ \<Rightarrow> True | _ \<Rightarrow> False)"

definition on_message ::
  "stdlib \<Rightarrow> json option \<Rightarrow> ingester \<Rightarrow> py_error option \<times> ingester" where
  "on_message lib msg ing =
     (case msg of
        None \<Rightarrow> (None, ing\<lparr>ing_malformed := ing_malformed ing + 1\<rparr>)
      | Some payload \<Rightarrow>
          let ing1 = (if length (ing_queue ing) = MAX_QUEUED_READINGS
                      then ing\<lparr>ing_overflowed := ing_overflowed ing + 1\<rparr> else ing)
          in case decode_reading lib payload of
               Inr r \<Rightarrow> (None, ing1\<lparr>ing_queue := push MAX_QUEUED_READINGS r (ing_queue ing1)\<rparr>)
             | Inl e \<Rightarrow>
                 if caught e then (None, ing1\<lparr>ing_malformed := ing_malformed ing1 + 1\<rparr>)
                 else (Some e, ing1))"

section \<open>Chain heads\<close>

definition rows_of :: "string \<Rightarrow> row list \<Rightarrow> row list" where
  "rows_of b rows = filter (\<lambda>r. row_building_id r = Some b) rows"

text \<open>
  \<open>load_chain_heads\<close>: for each building the row of greatest sequence. A join on the
  greatest sequence number; the last of the joined rows stays in the dictionary.
\<close>

definition head_rows :: "row list \<Rightarrow> row list" where
  "head_rows rows =
     filter (\<lambda>r. list_all (\<lambda>x. row_building_id x = row_building_id r \<longrightarrow>
                                the (row_seq x) \<le> the (row_seq r)) rows) rows"

definition load_chain_heads :: "database \<Rightarrow> ingester \<Rightarrow> ingester" where
  "load_chain_heads db ing =
     ing\<lparr>ing_chains := foldl (\<lambda>d r. AList.update (the (row_building_id r))
             \<lparr>cs_last_seq = the (row_seq r), cs_last_sig = the (row_sig r),
              cs_last_ts = Some (as_utc (the (row_ts r)))\<rparr> d)
           (ing_chains ing) (head_rows (db_readings db))\<rparr>"

section \<open>Writing\<close>

text \<open>\<open>_already_stored\<close>: the stored (building, timestamp) pairs among those of the batch.\<close>

definition already_stored :: "database \<Rightarrow> reading list \<Rightarrow> (string \<times> int) list" where
  "already_stored db pending =
     map (\<lambda>r. (the (row_building_id r), instant (the (row_ts r))))
       (filter (\<lambda>r. the (row_building_id r) \<in> set (map rd_building_id pending) \<and>
                     instant (the (row_ts r)) \<in> set (map (instant \<circ> rd_ts) pending)) (db_readings db))"

record batch =
  ba_chains :: "(string \<times> chain_state) list"
  ba_heads :: "(string \<times> chain_state) list"
  ba_rows :: "row list"
  ba_duplicates :: nat

text \<open>\<open>self.chains.setdefault(b, ChainState())\<close>.\<close>

definition set_default :: "string \<Rightarrow> (string \<times> chain_state) list \<Rightarrow> (string \<times> chain_state) list" where
  "set_default b chs = (if map_of chs b = None then AList.update b new_chain chs else chs)"

definition unsigned_row :: "reading \<Rightarrow> int \<Rightarrow> row" where
  "unsigned_row r seq =
     \<lparr>row_building_id = Some (rd_building_id r), row_ts = Some (rd_ts r), row_kw = Some (rd_kw r),
      row_source = Some (rd_source r), row_seq = Some seq, row_sig = None\<rparr>"

text \<open>
  One round of the signing loop: the head the building has in this batch, and what is done
  with the reading. All signed fields are present, so \<open>sign\<close> does not raise.
\<close>

definition sign_after ::
  "mac_fn \<Rightarrow> bytes \<Rightarrow> (string \<times> int) list \<Rightarrow> chain_state \<Rightarrow> reading \<Rightarrow> batch \<Rightarrow> batch" where
  "sign_after mac key stored head r ba =
     (if cs_last_ts head \<noteq> None \<and> instant (rd_ts r) \<le> instant (the (cs_last_ts head))
      then ba\<lparr>ba_duplicates := ba_duplicates ba + 1\<rparr>
      else if (rd_building_id r, instant (rd_ts r)) \<in> set stored
      then ba\<lparr>ba_duplicates := ba_duplicates ba + 1\<rparr>
      else
        let seq = cs_last_seq head + 1; signed = unsigned_row r seq
        in case sign mac key signed (cs_last_sig head) of
             Inl _ \<Rightarrow> ba
           | Inr s \<Rightarrow>
               ba\<lparr>ba_rows := ba_rows ba @ [signed\<lparr>row_sig := Some s\<rparr>],
                  ba_heads := AList.update (rd_building_id r)
                    \<lparr>cs_last_seq = seq, cs_last_sig = s, cs_last_ts = Some (rd_ts r)\<rparr> (ba_heads ba)\<rparr>)"

definition sign_one ::
  "mac_fn \<Rightarrow> bytes \<Rightarrow> (string \<times> int) list \<Rightarrow> batch \<Rightarrow> reading \<Rightarrow> batch" where
  "sign_one mac key stored ba r =
     (let b = rd_building_id r;
          chs = set_default b (ba_chains ba);
          head = (case map_of (ba_heads ba) b of Some h \<Rightarrow> h | None \<Rightarrow> the (map_of chs b))
      in sign_after mac key stored head r (ba\<lparr>ba_chains := chs\<rparr>))"

definition sign_batch ::
  "mac_fn \<Rightarrow> bytes \<Rightarrow> (string \<times> int) list \<Rightarrow> (string \<times> chain_state) list \<Rightarrow> reading list \<Rightarrow> batch" where
  "sign_batch mac key stored chs pending =
     foldl (sign_one mac key stored)
       \<lparr>ba_chains = chs, ba_heads = [], ba_rows = [], ba_duplicates = 0\<rparr> pending"

text \<open>\<open>ON CONFLICT DO NOTHING\<close> on the primary key (building, timestamp).\<close>

definition same_key :: "row \<Rightarrow> row \<Rightarrow> bool" where
  "same_key a b = (row_building_id a = row_building_id b \<and>
                   instant (the (row_ts a)) = instant (the (row_ts b)))"

definition insert_readings :: "row list \<Rightarrow> row list \<Rightarrow> row list" where
  "insert_readings rows table =
     foldl (\<lambda>t r. if list_ex (same_key r) t then t else t @ [r]) table rows"

definition insert_anomalies :: "live_anomaly list \<Rightarrow> (live_anomaly \<times> bool) list \<Rightarrow> (live_anomaly \<times> bool) list" where
  "insert_anomalies found table =
     foldl (\<lambda>t a. if list_ex (\<lambda>(x, _). la_building_id x = la_building_id a \<and>
                                      instant (la_ts x) = instant (la_ts a)) t
                  then t else t @ [(a, False)]) table found"

text \<open>
  What the insert raises: a value longer than its column (\<open>String(32)\<close>, \<open>String(16)\<close>) is a
  data error, a building without a row violates the foreign key.
\<close>

definition oversized :: "row \<Rightarrow> bool" where
  "oversized r = (length (the (row_building_id r)) > 32 \<or> length (the (row_source r)) > 16)"

definition insert_error :: "tx \<Rightarrow> database \<Rightarrow> row list \<Rightarrow> write_error option" where
  "insert_error fate db rows =
     (if list_ex oversized rows then Some Other_Failure
      else if list_ex (\<lambda>r. the (row_building_id r) \<notin> set (db_buildings db)) rows
      then Some Integrity_Violation
      else case fate of
             Tx_Commit \<Rightarrow> None
           | Tx_Refused \<Rightarrow> Some Integrity_Violation
           | _ \<Rightarrow> Some Other_Failure)"

definition scored_reading :: "row \<Rightarrow> string \<times> datetime \<times> rat" where
  "scored_reading r = (the (row_building_id r), the (row_ts r), the (row_kw r))"

definition advance_heads ::
  "(string \<times> chain_state) list \<Rightarrow> (string \<times> chain_state) list \<Rightarrow> (string \<times> chain_state) list" where
  "advance_heads heads chs = foldl (\<lambda>d (b, h). AList.update b h d) chs heads"

definition write_batch ::
  "mac_fn \<Rightarrow> bytes \<Rightarrow> tx \<Rightarrow> reading list \<Rightarrow> ingester \<times> database \<Rightarrow>
     (write_error + nat \<times> live_anomaly list \<times> nat) \<times> ingester \<times> database" where
  "write_batch mac key fate pending st =
     (let (ing, db) = st in
      if fate = Tx_No_Connection then (Inl Other_Failure, ing, db)
      else
        let ba = sign_batch mac key (already_stored db pending) (ing_chains ing) pending;
            ing1 = ing\<lparr>ing_chains := ba_chains ba\<rparr>
        in if ba_rows ba = [] then
             (if fate = Tx_Commit_Fails then (Inl Other_Failure, ing1, db)
              else (Inr (0, [], ba_duplicates ba), ing1, db))
           else
             let det = ing_detector ing;
                 (detected, det') = score_all (map scored_reading (ba_rows ba)) (begin_batch det)
             in case insert_error fate db (ba_rows ba) of
                  Some e \<Rightarrow>
                    (Inl e, ing1\<lparr>ing_detector :=
                        rollback (det_scored det, det_flagged det, det_evicted det) det'\<rparr>, db)
                | None \<Rightarrow>
                    (Inr (length (ba_rows ba), detected, ba_duplicates ba),
                     ing1\<lparr>ing_detector := end_batch det',
                          ing_chains := advance_heads (ba_heads ba) (ba_chains ba)\<rparr>,
                     db\<lparr>db_readings := insert_readings (ba_rows ba) (db_readings db),
                        db_anomalies := insert_anomalies detected (db_anomalies db)\<rparr>))"

text \<open>
  \<open>_write_without_unknown\<close>: \<open>known_ok\<close> says whether the query for the known ids succeeded.
\<close>

definition known_ids :: "bool \<Rightarrow> database \<Rightarrow> string list" where
  "known_ids known_ok db = (if known_ok then db_buildings db else [])"

definition write_without_unknown ::
  "mac_fn \<Rightarrow> bytes \<Rightarrow> bool \<Rightarrow> tx \<Rightarrow> reading list \<Rightarrow> ingester \<times> database \<Rightarrow>
     (write_error + nat \<times> live_anomaly list \<times> nat) \<times> ingester \<times> database" where
  "write_without_unknown mac key known_ok fate pending st =
     (let (ing, db) = st;
          usable = filter (\<lambda>r. rd_building_id r \<in> set (known_ids known_ok db)) pending;
          refused = length pending - length usable;
          ing1 = ing\<lparr>ing_rejected := ing_rejected ing + refused\<rparr>
      in if usable = [] then
           (Inr (0, [], 0),
            (if refused = 0 then ing1\<lparr>ing_rejected := ing_rejected ing1 + length pending\<rparr> else ing1), db)
         else case write_batch mac key fate usable (ing1, db) of
                (Inl Integrity_Violation, ing2, db2) \<Rightarrow>
                  (Inr (0, [], 0), ing2\<lparr>ing_rejected := ing_rejected ing2 + length usable\<rparr>, db2)
              | other \<Rightarrow> other)"

text \<open>The end of \<open>flush\<close>, after a batch is stored.\<close>

definition account :: "nat \<times> live_anomaly list \<times> nat \<Rightarrow> ingester \<Rightarrow> ingester" where
  "account res ing =
     (case res of (written, detected, duplicates) \<Rightarrow>
       ing\<lparr>ing_duplicates := ing_duplicates ing + duplicates,
           ing_webhook := fold notify detected (ing_webhook ing),
           ing_written := ing_written ing + written,
           ing_anomalies := ing_anomalies ing + length detected\<rparr>)"

text \<open>The outcome of \<open>flush\<close>: the count it returns, or \<open>None\<close> when it raises.\<close>

definition flush ::
  "mac_fn \<Rightarrow> bytes \<Rightarrow> nat \<Rightarrow> tx \<Rightarrow> bool \<Rightarrow> tx \<Rightarrow> ingester \<times> database \<Rightarrow>
     nat option \<times> ingester \<times> database" where
  "flush mac key batch_rows fate known_ok fate2 st =
     (let (ing, db) = st in
      if ing_queue ing = [] then (Some 0, ing, db)
      else
        let pending = take batch_rows (ing_queue ing);
            ing0 = ing\<lparr>ing_queue := drop batch_rows (ing_queue ing)\<rparr>
        in case write_batch mac key fate pending (ing0, db) of
             (Inr res, ing1, db1) \<Rightarrow> (Some (fst res), account res ing1, db1)
           | (Inl Other_Failure, ing1, db1) \<Rightarrow>
               (None, ing1\<lparr>ing_queue := take MAX_QUEUED_READINGS (pending @ ing_queue ing1)\<rparr>, db1)
           | (Inl Integrity_Violation, ing1, db1) \<Rightarrow>
               (case write_without_unknown mac key known_ok fate2 pending (ing1, db1) of
                  (Inl _, ing2, db2) \<Rightarrow> (None, ing2, db2)
                | (Inr res, ing2, db2) \<Rightarrow>
                    if fst res = 0 \<and> fst (snd res) = [] then (Some 0, ing2, db2)
                    else (Some (fst res), account res ing2, db2)))"

section \<open>Anchoring\<close>

definition checkpoint_records :: "datetime \<Rightarrow> ingester \<Rightarrow> checkpoint list" where
  "checkpoint_records now ing =
     map (\<lambda>(b, c). \<lparr>cp_building_id = b, cp_ts = now, cp_last_seq = cs_last_seq c,
                     cp_head_sig = cs_last_sig c\<rparr>)
       (filter (\<lambda>(_, c). cs_last_seq c \<ge> 0) (ing_chains ing))"

definition insert_checkpoints :: "checkpoint list \<Rightarrow> checkpoint list \<Rightarrow> checkpoint list" where
  "insert_checkpoints records table =
     foldl (\<lambda>t c. if list_ex (\<lambda>x. cp_building_id x = cp_building_id c \<and>
                                   instant (cp_ts x) = instant (cp_ts c)) t then t else t @ [c])
       table records"

text \<open>
  \<open>write_checkpoint\<close>: the database first, the file outside its volume after the commit; the
  result is \<open>False\<close> when the transaction raised.
\<close>

definition write_checkpoint ::
  "tx \<Rightarrow> datetime \<Rightarrow> ingester \<Rightarrow> database \<times> checkpoint list \<Rightarrow> bool \<times> database \<times> checkpoint list" where
  "write_checkpoint fate now ing st =
     (let (db, anchor) = st; records = checkpoint_records now ing
      in if records = [] then (True, db, anchor)
         else if fate \<noteq> Tx_Commit then (False, db, anchor)
         else (True, db\<lparr>db_checkpoints := insert_checkpoints records (db_checkpoints db)\<rparr>,
               anchor @ records))"

end
