(* ===== verification/Ingest.thy ===== *)
theory Ingest
  imports Consumer
begin

text \<open>
  The write path of \<open>consumer.py\<close> as a state machine, and its invariant: whatever arrives,
  however transactions end and whenever the process restarts, every building's stored rows
  form one chain from \<open>GENESIS\<close> that verifies, and memory agrees with the table about
  where each chain ends.
\<close>

section \<open>The invariant\<close>

definition row_instant :: "row \<Rightarrow> int" where
  "row_instant r = instant (the (row_ts r))"

definition good_rows :: "mac_fn \<Rightarrow> bytes \<Rightarrow> row list \<Rightarrow> bool" where
  "good_rows mac key rows =
     (chained mac key GENESIS (Some 0) rows \<and> sorted_wrt (\<lambda>a b. row_instant a < row_instant b) rows)"

definition head_matches :: "chain_state \<Rightarrow> row list \<Rightarrow> bool" where
  "head_matches c rows =
     (if rows = [] then cs_last_seq c = - 1 \<and> cs_last_sig c = GENESIS \<and> cs_last_ts c = None
      else row_seq (last rows) = Some (cs_last_seq c) \<and> row_sig (last rows) = Some (cs_last_sig c) \<and>
           map_option instant (cs_last_ts c) = Some (row_instant (last rows)))"

definition heads_match :: "(string \<times> chain_state) list \<Rightarrow> row list \<Rightarrow> bool" where
  "heads_match chs table \<longleftrightarrow> distinct (map fst chs) \<and>
     (\<forall>b. case map_of chs b of None \<Rightarrow> rows_of b table = [] | Some c \<Rightarrow> head_matches c (rows_of b table))"

definition chain_inv :: "mac_fn \<Rightarrow> bytes \<Rightarrow> ingester \<Rightarrow> database \<Rightarrow> bool" where
  "chain_inv mac key ing db \<longleftrightarrow>
     (\<forall>b. good_rows mac key (rows_of b (db_readings db))) \<and>
     list_all (\<lambda>r. row_building_id r \<noteq> None) (db_readings db) \<and>
     heads_match (ing_chains ing) (db_readings db)"

text \<open>The head a building has in the middle of a batch.\<close>

definition current_head :: "batch \<Rightarrow> string \<Rightarrow> chain_state" where
  "current_head ba b =
     (case map_of (ba_heads ba) b of Some h \<Rightarrow> h
      | None \<Rightarrow> (case map_of (ba_chains ba) b of Some c \<Rightarrow> c | None \<Rightarrow> new_chain))"

definition batch_ok :: "mac_fn \<Rightarrow> bytes \<Rightarrow> row list \<Rightarrow> batch \<Rightarrow> bool" where
  "batch_ok mac key table ba \<longleftrightarrow>
     distinct (map fst (ba_heads ba)) \<and> heads_match (ba_chains ba) table \<and>
     list_all (\<lambda>r. row_building_id r \<noteq> None) (ba_rows ba) \<and>
     (\<forall>b. good_rows mac key (rows_of b (table @ ba_rows ba)) \<and>
          head_matches (current_head ba b) (rows_of b (table @ ba_rows ba)) \<and>
          (map_of (ba_heads ba) b = None \<longrightarrow> rows_of b (ba_rows ba) = []))"

section \<open>Lemmas\<close>

lemma rows_of_append [simp]: "rows_of b (xs @ ys) = rows_of b xs @ rows_of b ys"
  by (simp add: rows_of_def)

lemma rows_of_Cons:
  "rows_of b (r # rows) = (if row_building_id r = Some b then r # rows_of b rows else rows_of b rows)"
  by (simp add: rows_of_def)

lemma rows_of_Nil [simp]: "rows_of b [] = []"
  by (simp add: rows_of_def)

lemma new_chain_matches [simp]: "head_matches new_chain []"
  by (simp add: head_matches_def new_chain_def)

lemma head_seq:
  assumes "good_rows mac key rows" and "head_matches h rows"
  shows "cs_last_seq h + 1 = int (length rows)" and "cs_last_sig h = head_sig GENESIS rows"
  using assms chained_last_seq [of mac key GENESIS 0 rows]
  by (auto simp: good_rows_def head_matches_def head_sig_def split: if_splits)

lemma good_rows_snoc:
  assumes "good_rows mac key rows" and "head_matches h rows"
    and "sign mac key r (cs_last_sig h) = Inr s" and "row_sig r = Some s"
    and "row_seq r = Some (cs_last_seq h + 1)"
    and "cs_last_ts h \<noteq> None \<Longrightarrow> instant (the (cs_last_ts h)) < row_instant r"
  shows "good_rows mac key (rows @ [r])"
proof -
  note hd = head_seq [OF assms(1,2)]
  have "chained mac key GENESIS (Some 0) (rows @ [r])"
    using assms(1,3-5) hd by (simp add: good_rows_def chained_append)
  moreover have "\<forall>x \<in> set rows. row_instant x < row_instant r"
  proof (cases "rows = []")
    case False
    then have "instant (the (cs_last_ts h)) = row_instant (last rows)" "cs_last_ts h \<noteq> None"
      using assms(2) by (auto simp: head_matches_def)
    then have l: "row_instant (last rows) < row_instant r" using assms(6) by simp
    have "row_instant x \<le> row_instant (last rows)" if x: "x \<in> set rows" for x
    proof -
      have "rows = butlast rows @ [last rows]" using False by simp
      then have "sorted_wrt (\<lambda>a b. row_instant a < row_instant b) (butlast rows @ [last rows])"
        using assms(1) by (simp add: good_rows_def)
      then have "\<forall>y \<in> set (butlast rows). row_instant y < row_instant (last rows)"
        by (simp add: sorted_wrt_append)
      moreover have "x \<in> set (butlast rows) \<or> x = last rows"
        using x False by (metis append_butlast_last_id in_set_conv_decomp rotate1.simps(2) set_ConsD set_rotate1)
      ultimately show ?thesis by auto
    qed
    then show ?thesis using l by fastforce
  qed simp
  ultimately show ?thesis using assms(1) by (simp add: good_rows_def sorted_wrt_append)
qed

lemma heads_match_default:
  assumes "heads_match chs table"
  shows "heads_match (set_default b chs) table"
  unfolding heads_match_def
proof (intro conjI allI)
  show "distinct (map fst (set_default b chs))"
    using assms by (auto simp: set_default_def heads_match_def)
  fix x
  have "case map_of chs x of None \<Rightarrow> rows_of x table = [] | Some c \<Rightarrow> head_matches c (rows_of x table)"
    using assms by (simp add: heads_match_def)
  then show "case map_of (set_default b chs) x of None \<Rightarrow> rows_of x table = []
      | Some c \<Rightarrow> head_matches c (rows_of x table)"
    by (cases "x = b \<and> map_of chs b = None") (auto simp: set_default_def dict_simps)
qed

lemma set_default_some: "map_of (set_default b chs) b = Some (case map_of chs b of Some c \<Rightarrow> c | None \<Rightarrow> new_chain)"
  by (auto simp: set_default_def dict_simps split: option.splits)

lemma current_head_default:
  "current_head (ba\<lparr>ba_chains := set_default b (ba_chains ba)\<rparr>) x = current_head ba x"
  by (cases "map_of (ba_heads ba) x"; cases "map_of (ba_chains ba) x")
     (auto simp: current_head_def set_default_def dict_simps)

lemma batch_ok_default:
  "batch_ok mac key table ba \<Longrightarrow> batch_ok mac key table (ba\<lparr>ba_chains := set_default b (ba_chains ba)\<rparr>)"
  by (simp add: batch_ok_def current_head_default heads_match_default)

lemma current_head_updates [simp]:
  "current_head (ba\<lparr>ba_duplicates := n\<rparr>) b = current_head ba b"
  "current_head (ba\<lparr>ba_rows := rows\<rparr>) b = current_head ba b"
  by (simp_all add: current_head_def cong: option.case_cong)

lemma batch_ok_duplicates [simp]:
  "batch_ok mac key table (ba\<lparr>ba_duplicates := n\<rparr>) = batch_ok mac key table ba"
  by (simp add: batch_ok_def)

lemma sign_unsigned: "\<exists>s. sign mac key (unsigned_row r n) prev = Inr s"
  by (simp add: sign_def canonical_def field_def unsigned_row_def)

lemma sign_after_ok:
  assumes ok: "batch_ok mac key table ba" and h: "h = current_head ba (rd_building_id r)"
  shows "batch_ok mac key table (sign_after mac key stored h r ba)"
proof (cases "cs_last_ts h \<noteq> None \<and> instant (rd_ts r) \<le> instant (the (cs_last_ts h)) \<or>
      (rd_building_id r, instant (rd_ts r)) \<in> set stored")
  case True
  then show ?thesis using ok by (auto simp: sign_after_def)
next
  case False
  let ?b = "rd_building_id r"
  obtain s where s: "sign mac key (unsigned_row r (cs_last_seq h + 1)) (cs_last_sig h) = Inr s"
    using sign_unsigned by blast
  let ?row = "(unsigned_row r (cs_last_seq h + 1))\<lparr>row_sig := Some s\<rparr>"
  let ?new = "\<lparr>cs_last_seq = cs_last_seq h + 1, cs_last_sig = s, cs_last_ts = Some (rd_ts r)\<rparr>"
  let ?ba2 = "ba\<lparr>ba_rows := ba_rows ba @ [?row], ba_heads := AList.update ?b ?new (ba_heads ba)\<rparr>"
  have eq: "sign_after mac key stored h r ba = ?ba2"
    using False s by (auto simp: sign_after_def Let_def)
  have row: "row_building_id ?row = Some ?b" "row_seq ?row = Some (cs_last_seq h + 1)"
    "row_sig ?row = Some s" "row_instant ?row = instant (rd_ts r)"
    by (simp_all add: unsigned_row_def row_instant_def)
  have good: "good_rows mac key (rows_of ?b (table @ ba_rows ba) @ [?row])"
  proof (rule good_rows_snoc)
    show "good_rows mac key (rows_of ?b (table @ ba_rows ba))"
      and "head_matches h (rows_of ?b (table @ ba_rows ba))"
      using ok h by (simp_all add: batch_ok_def)
  qed (use s row False in auto)
  have new: "head_matches ?new (rows_of ?b (table @ ba_rows ba) @ [?row])"
    using row by (simp add: head_matches_def)
  have "good_rows mac key (rows_of x (table @ ba_rows ?ba2)) \<and>
      head_matches (current_head ?ba2 x) (rows_of x (table @ ba_rows ?ba2)) \<and>
      (map_of (ba_heads ?ba2) x = None \<longrightarrow> rows_of x (ba_rows ?ba2) = [])" for x
  proof (cases "x = ?b")
    case True
    then show ?thesis using good new row
      by (simp add: current_head_def dict_simps rows_of_Cons)
  next
    case False
    then have "rows_of x [?row] = []" using row(1) by (simp add: rows_of_Cons)
    moreover have "current_head ?ba2 x = current_head ba x"
      using False by (simp add: current_head_def dict_simps cong: option.case_cong)
    ultimately show ?thesis using ok False by (simp add: batch_ok_def dict_simps)
  qed
  then show ?thesis
    unfolding eq using ok row(1) by (simp add: batch_ok_def)
qed

lemma sign_one_ok:
  assumes "batch_ok mac key table ba"
  shows "batch_ok mac key table (sign_one mac key stored ba r)"
  unfolding sign_one_def Let_def
  by (rule sign_after_ok [OF batch_ok_default [OF assms]])
     (simp add: current_head_def set_default_some split: option.splits)

lemma sign_batch_ok:
  assumes "heads_match chs table" and "\<forall>b. good_rows mac key (rows_of b table)"
  shows "batch_ok mac key table (sign_batch mac key stored chs pending)"
proof -
  let ?start = "\<lparr>ba_chains = chs, ba_heads = [], ba_rows = [], ba_duplicates = 0\<rparr>"
  have "head_matches (current_head ?start b) (rows_of b table)" for b
    using assms(1) by (auto simp: current_head_def heads_match_def split: option.splits
        dest: spec [of _ b])
  then have "batch_ok mac key table ?start" using assms by (simp add: batch_ok_def)
  moreover have "batch_ok mac key table ba \<Longrightarrow>
      batch_ok mac key table (foldl (sign_one mac key stored) ba pending)" for ba
    by (induction pending arbitrary: ba) (simp_all add: sign_one_ok)
  ultimately show ?thesis by (simp add: sign_batch_def)
qed

section \<open>Inserting and advancing\<close>

lemma insert_all_new:
  assumes "list_all (\<lambda>r. row_building_id r \<noteq> None) rows"
    and "\<And>b. good_rows mac key (rows_of b (table @ rows))"
  shows "insert_readings rows table = table @ rows"
  using assms
proof (induction rows arbitrary: table)
  case Nil
  then show ?case by (simp add: insert_readings_def)
next
  case (Cons r rows)
  obtain b where b: "row_building_id r = Some b" using Cons.prems(1) by auto
  have "sorted_wrt (\<lambda>a b. row_instant a < row_instant b) (rows_of b table @ r # rows_of b rows)"
    using Cons.prems(2) [of b] b by (simp add: good_rows_def rows_of_Cons)
  then have before: "\<forall>x \<in> set (rows_of b table). row_instant x < row_instant r"
    by (simp add: sorted_wrt_append)
  have "\<not> same_key r x" if "x \<in> set table" for x
  proof
    assume same: "same_key r x"
    then have "x \<in> set (rows_of b table)" using that b by (simp add: same_key_def rows_of_def)
    then show False using before same by (auto simp: same_key_def row_instant_def)
  qed
  then have "\<not> list_ex (same_key r) table" by (auto simp: list_ex_iff)
  moreover have "insert_readings rows (table @ [r]) = (table @ [r]) @ rows"
    by (rule Cons.IH) (use Cons.prems in \<open>simp_all add: rows_of_Cons\<close>)
  ultimately show ?case by (simp add: insert_readings_def)
qed

lemma distinct_fold_update:
  "distinct (map fst d) \<Longrightarrow> distinct (map fst (foldl (\<lambda>d r. AList.update (k r) (f r) d) d rs))"
  by (induction rs arbitrary: d) auto

lemma advance_lookup:
  "distinct (map fst heads) \<Longrightarrow>
     map_of (advance_heads heads chs) b = (case map_of heads b of Some h \<Rightarrow> Some h | None \<Rightarrow> map_of chs b)"
proof (induction heads arbitrary: chs)
  case Nil
  then show ?case by (simp add: advance_heads_def)
next
  case (Cons p heads)
  obtain k h where p: "p = (k, h)" by (cases p)
  have "map_of heads k = None" using Cons.prems p by (simp add: map_of_eq_None_iff)
  then show ?case using Cons p
    by (auto simp: advance_heads_def dict_simps split: option.splits)
qed

lemma batch_commit:
  assumes "batch_ok mac key table ba"
  shows "insert_readings (ba_rows ba) table = table @ ba_rows ba"
    and "\<forall>b. good_rows mac key (rows_of b (table @ ba_rows ba))"
    and "heads_match (advance_heads (ba_heads ba) (ba_chains ba)) (table @ ba_rows ba)"
proof -
  show "insert_readings (ba_rows ba) table = table @ ba_rows ba"
    by (rule insert_all_new [of _ mac key]) (use assms in \<open>simp_all add: batch_ok_def\<close>)
  show "\<forall>b. good_rows mac key (rows_of b (table @ ba_rows ba))"
    using assms by (simp add: batch_ok_def)
  show "heads_match (advance_heads (ba_heads ba) (ba_chains ba)) (table @ ba_rows ba)"
    unfolding heads_match_def
  proof (intro conjI allI)
    have "distinct (map fst (ba_chains ba))" using assms by (simp add: batch_ok_def heads_match_def)
    then show "distinct (map fst (advance_heads (ba_heads ba) (ba_chains ba)))"
      unfolding advance_heads_def case_prod_beta by (rule distinct_fold_update)
    fix b
    have dist: "distinct (map fst (ba_heads ba))"
      and cur: "head_matches (current_head ba b) (rows_of b (table @ ba_rows ba))"
      and none: "map_of (ba_heads ba) b = None \<longrightarrow> rows_of b (ba_rows ba) = []"
      and chs: "case map_of (ba_chains ba) b of None \<Rightarrow> rows_of b table = []
                | Some c \<Rightarrow> head_matches c (rows_of b table)"
      using assms by (auto simp: batch_ok_def heads_match_def)
    show "case map_of (advance_heads (ba_heads ba) (ba_chains ba)) b of
        None \<Rightarrow> rows_of b (table @ ba_rows ba) = []
      | Some c \<Rightarrow> head_matches c (rows_of b (table @ ba_rows ba))"
    proof (cases "map_of (ba_heads ba) b")
      case None
      then show ?thesis using none chs
        by (cases "map_of (ba_chains ba) b") (simp_all add: advance_lookup [OF dist])
    next
      case (Some h)
      then show ?thesis using cur by (simp add: advance_lookup [OF dist] current_head_def)
    qed
  qed
qed

lemma chain_inv_batch:
  "chain_inv mac key ing db \<Longrightarrow>
     batch_ok mac key (db_readings db)
       (sign_batch mac key (already_stored db pending) (ing_chains ing) pending)"
  by (rule sign_batch_ok) (simp_all add: chain_inv_def)

section \<open>Every operation keeps the invariant\<close>

text \<open>What the write path promises about one attempt: the invariant, and nothing stored unless it returns.\<close>

lemma write_batch_inv:
  assumes inv: "chain_inv mac key ing db" and w: "write_batch mac key fate pending (ing, db) = (res, ing', db')"
  shows "chain_inv mac key ing' db' \<and> ing_queue ing' = ing_queue ing \<and>
         (\<exists>rows. db_readings db' = db_readings db @ rows \<and> (isl res \<longrightarrow> rows = [] \<and> db' = db))"
proof (cases "fate = Tx_No_Connection")
  case True
  then show ?thesis using assms by (auto simp: write_batch_def)
next
  case conn: False
  define ba where "ba = sign_batch mac key (already_stored db pending) (ing_chains ing) pending"
  have ok: "batch_ok mac key (db_readings db) ba" unfolding ba_def by (rule chain_inv_batch [OF inv])
  have idle: "chain_inv mac key (ing\<lparr>ing_chains := ba_chains ba\<rparr>) db"
    using inv ok by (simp add: chain_inv_def batch_ok_def)
  show ?thesis
  proof (cases "ba_rows ba = []")
    case True
    then show ?thesis using w conn idle
      by (auto simp: write_batch_def Let_def ba_def [symmetric] split: if_splits)
  next
    case rows: False
    obtain found det' where s: "score_all (map scored_reading (ba_rows ba)) (begin_batch (ing_detector ing)) = (found, det')"
      by force
    show ?thesis
    proof (cases "insert_error fate db (ba_rows ba)")
      case (Some e)
      have "res = Inl e" "db' = db" and i: "ing' = ing\<lparr>ing_chains := ba_chains ba, ing_detector :=
          rollback (det_scored (ing_detector ing), det_flagged (ing_detector ing), det_evicted (ing_detector ing)) det'\<rparr>"
        using w conn rows s Some by (simp_all add: write_batch_def Let_def ba_def [symmetric])
      moreover have "chain_inv mac key ing' db" using idle by (simp add: i chain_inv_def)
      ultimately show ?thesis by simp
    next
      case None
      have d: "db' = db\<lparr>db_readings := insert_readings (ba_rows ba) (db_readings db),
          db_anomalies := insert_anomalies found (db_anomalies db)\<rparr>"
        and i: "ing' = ing\<lparr>ing_chains := advance_heads (ba_heads ba) (ba_chains ba),
          ing_detector := end_batch det'\<rparr>" and r: "\<not> isl res"
        using w conn rows s None by (auto simp: write_batch_def Let_def ba_def [symmetric])
      note c = batch_commit [OF ok]
      have "list_all (\<lambda>r. row_building_id r \<noteq> None) (ba_rows ba)" using ok by (simp add: batch_ok_def)
      then have "chain_inv mac key ing' db'" using c inv by (simp add: d i chain_inv_def)
      then show ?thesis using r c(1) by (simp add: d i)
    qed
  qed
qed

lemma write_without_unknown_inv:
  assumes inv: "chain_inv mac key ing db"
    and w: "write_without_unknown mac key known_ok fate pending (ing, db) = (res, ing', db')"
  shows "chain_inv mac key ing' db' \<and> ing_queue ing' = ing_queue ing \<and>
         (\<exists>rows. db_readings db' = db_readings db @ rows)"
proof -
  let ?usable = "filter (\<lambda>r. rd_building_id r \<in> set (known_ids known_ok db)) pending"
  let ?ing1 = "ing\<lparr>ing_rejected := ing_rejected ing + (length pending - length ?usable)\<rparr>"
  have c: "chain_inv mac key (i\<lparr>ing_rejected := n\<rparr>) d = chain_inv mac key i d" for i n d
    by (simp add: chain_inv_def)
  show ?thesis
  proof (cases "?usable = []")
    case True
    then have "ing' = (if length pending - length ?usable = 0
        then ?ing1\<lparr>ing_rejected := ing_rejected ?ing1 + length pending\<rparr> else ?ing1) \<and> db' = db"
      using w by (simp add: write_without_unknown_def Let_def)
    then have "ing_chains ing' = ing_chains ing \<and> ing_queue ing' = ing_queue ing \<and> db' = db" by simp
    then show ?thesis using inv by (simp add: chain_inv_def)
  next
    case False
    obtain res1 ing1 db1 where w1: "write_batch mac key fate ?usable (?ing1, db) = (res1, ing1, db1)"
      by (metis prod_cases3)
    have "chain_inv mac key ?ing1 db" using inv c by simp
    note i = write_batch_inv [OF this w1]
    show ?thesis
    proof (cases "res1 = Inl Integrity_Violation")
      case True
      then have "ing' = ing1\<lparr>ing_rejected := ing_rejected ing1 + length ?usable\<rparr>" "db' = db1"
        using w w1 False by (simp_all add: write_without_unknown_def Let_def)
      then show ?thesis using i c by auto
    next
      case other: False
      then have "(res, ing', db') = (res1, ing1, db1)"
        using w w1 False
        by (cases res1; cases "projl res1")
           (simp_all add: write_without_unknown_def Let_def)
      then show ?thesis using i by auto
    qed
  qed
qed

lemma account_fields [simp]:
  "ing_chains (account res ing) = ing_chains ing" "ing_queue (account res ing) = ing_queue ing"
  by (simp_all add: account_def split: prod.splits)

lemma chain_inv_queue: "chain_inv mac key (ing\<lparr>ing_queue := q\<rparr>) db = chain_inv mac key ing db"
  by (simp add: chain_inv_def)

lemma chain_inv_account: "chain_inv mac key (account res ing) db = chain_inv mac key ing db"
  by (simp add: chain_inv_def)

definition after_refusal ::
  "(write_error + nat \<times> live_anomaly list \<times> nat) \<times> ingester \<times> database \<Rightarrow> nat option \<times> ingester \<times> database" where
  "after_refusal r =
     (case r of
        (Inl _, ing2, db2) \<Rightarrow> (None, ing2, db2)
      | (Inr res, ing2, db2) \<Rightarrow>
          if fst res = 0 \<and> fst (snd res) = [] then (Some 0, ing2, db2)
          else (Some (fst res), account res ing2, db2))"

lemma flush_refused:
  assumes "ing_queue ing \<noteq> []"
    and "write_batch mac key fate (take n (ing_queue ing)) (ing\<lparr>ing_queue := drop n (ing_queue ing)\<rparr>, db) =
           (Inl Integrity_Violation, ing1, db1)"
  shows "flush mac key n fate known_ok fate2 (ing, db) =
           after_refusal (write_without_unknown mac key known_ok fate2 (take n (ing_queue ing)) (ing1, db1))"
  using assms by (simp add: flush_def Let_def after_refusal_def)

lemma flush_inv:
  assumes inv: "chain_inv mac key ing db"
    and f: "flush mac key n fate known_ok fate2 (ing, db) = (out, ing', db')"
  shows "chain_inv mac key ing' db' \<and> (\<exists>rows. db_readings db' = db_readings db @ rows)"
proof (cases "ing_queue ing = []")
  case True
  then show ?thesis using assms by (simp add: flush_def)
next
  case False
  let ?pending = "take n (ing_queue ing)" and ?ing0 = "ing\<lparr>ing_queue := drop n (ing_queue ing)\<rparr>"
  obtain res1 ing1 db1 where w1: "write_batch mac key fate ?pending (?ing0, db) = (res1, ing1, db1)"
    by (metis prod_cases3)
  have "chain_inv mac key ?ing0 db" using inv chain_inv_queue by simp
  note i = write_batch_inv [OF this w1]
  show ?thesis
  proof (cases res1)
    case (Inr res)
    then show ?thesis using f w1 False i by (auto simp: flush_def Let_def chain_inv_account)
  next
    case (Inl e)
    show ?thesis
    proof (cases e)
      case Other_Failure
      then show ?thesis using f w1 False i Inl by (auto simp: flush_def Let_def chain_inv_queue)
    next
      case Integrity_Violation
      obtain res2 ing2 db2 where w2: "write_without_unknown mac key known_ok fate2 ?pending (ing1, db1) = (res2, ing2, db2)"
        by (metis prod_cases3)
      note j = write_without_unknown_inv [OF conjunct1 [OF i] w2]
      have "db1 = db" using i Inl by auto
      moreover have "(out, ing', db') = after_refusal (res2, ing2, db2)"
        using f flush_refused [OF False] w1 w2 Inl Integrity_Violation by simp
      then have "db' = db2 \<and> chain_inv mac key ing' db' = chain_inv mac key ing2 db2"
        by (cases res2) (simp_all add: after_refusal_def chain_inv_account split: if_splits)
      ultimately show ?thesis using j by metis
    qed
  qed
qed

section \<open>Resuming after a restart\<close>

lemma fold_update_lookup:
  "map_of (foldl (\<lambda>d r. AList.update (k r) (f r) d) d rs) b =
     (let g = filter (\<lambda>r. k r = b) rs in if g = [] then map_of d b else Some (f (last g)))"
proof (induction rs rule: rev_induct)
  case (snoc r rs)
  then show ?case by (simp add: dict_simps Let_def)
qed simp

lemma greatest_is_last:
  assumes "sorted_wrt (\<lambda>a b. f a < f b) xs" and "xs \<noteq> []"
  shows "filter (\<lambda>r. list_all (\<lambda>x. f x \<le> (f r :: int)) xs) xs = [last xs]"
proof -
  obtain ys z where xs: "xs = ys @ [z]" using assms(2) by (metis append_butlast_last_id)
  then have lt: "\<forall>y \<in> set ys. f y < f z" using assms(1) by (simp add: sorted_wrt_append)
  then have "filter (\<lambda>r. list_all (\<lambda>x. f x \<le> f r) xs) ys = []"
    by (auto simp: filter_empty_conv xs list_all_iff)
  moreover have "list_all (\<lambda>x. f x \<le> f z) xs" using lt by (auto simp: xs list_all_iff)
  ultimately show ?thesis by (simp add: xs)
qed

lemma chained_sorted_seq:
  assumes "chained mac key prev (Some n) rows"
  shows "sorted_wrt (\<lambda>a b. the (row_seq a) < the (row_seq b)) rows"
  using chained_seq [OF assms] by (auto simp: sorted_wrt_iff_nth_less)

lemma head_rows_of:
  assumes "good_rows mac key (rows_of b table)" and "list_all (\<lambda>r. row_building_id r \<noteq> None) table"
  shows "filter (\<lambda>r. the (row_building_id r) = b) (head_rows table) =
         (if rows_of b table = [] then [] else [last (rows_of b table)])"
proof -
  have some: "the (row_building_id r) = b \<longleftrightarrow> row_building_id r = Some b" if "r \<in> set table" for r
    using that assms(2) by (auto simp: list_all_iff)
  have "filter (\<lambda>r. the (row_building_id r) = b) (head_rows table) =
      filter (\<lambda>r. row_building_id r = Some b \<and> list_all (\<lambda>x. row_building_id x = Some b \<longrightarrow>
         the (row_seq x) \<le> the (row_seq r)) table) table"
    unfolding head_rows_def filter_filter by (rule filter_cong) (use some in auto)
  also have "\<dots> = filter (\<lambda>r. list_all (\<lambda>x. the (row_seq x) \<le> the (row_seq r)) (rows_of b table)) (rows_of b table)"
    by (auto simp: rows_of_def list_all_iff intro!: filter_cong)
  also have "\<dots> = (if rows_of b table = [] then [] else [last (rows_of b table)])"
    using greatest_is_last [OF chained_sorted_seq] assms(1) by (auto simp: good_rows_def)
  finally show ?thesis .
qed

lemma instant_as_utc [simp]: "instant (as_utc t) = instant t"
  by (cases t) simp_all

lemma load_heads_inv:
  assumes "\<forall>b. good_rows mac key (rows_of b (db_readings db))"
    and "list_all (\<lambda>r. row_building_id r \<noteq> None) (db_readings db)" and "ing_chains ing = []"
  shows "chain_inv mac key (load_chain_heads db ing) db"
proof -
  let ?t = "db_readings db"
  have "case map_of (ing_chains (load_chain_heads db ing)) b of None \<Rightarrow> rows_of b ?t = []
      | Some c \<Rightarrow> head_matches c (rows_of b ?t)" for b
  proof (cases "rows_of b ?t = []")
    case True
    then show ?thesis using head_rows_of [OF spec [OF assms(1), of b] assms(2)] assms(3)
      by (simp add: load_chain_heads_def fold_update_lookup Let_def)
  next
    case False
    note h = head_rows_of [OF spec [OF assms(1), of b] assms(2)]
    have ch: "chained mac key GENESIS (Some 0) (rows_of b ?t)"
      using assms(1) by (simp add: good_rows_def)
    obtain ys z where xs: "rows_of b ?t = ys @ [z]" using False by (metis append_butlast_last_id)
    then have "row_seq z \<noteq> None \<and> row_sig z \<noteq> None"
      using ch by (auto simp: chained_append)
    then show ?thesis using h False xs
      by (auto simp: load_chain_heads_def fold_update_lookup Let_def head_matches_def row_instant_def)
  qed
  moreover have "distinct (map fst (ing_chains (load_chain_heads db ing)))"
    using assms(3) by (simp add: load_chain_heads_def distinct_fold_update)
  ultimately show ?thesis using assms(1,2) by (simp add: chain_inv_def heads_match_def)
qed

section \<open>The state machine\<close>

text \<open>
  What can happen: a message arrives, the loop flushes with any outcome of its transactions,
  the heads are anchored, the process restarts with an empty memory, or the portfolio gains
  or loses buildings that have no readings.
\<close>

record world =
  w_ing :: ingester
  w_db :: database
  w_anchor :: "checkpoint list"

definition fresh_ingester :: "rat \<Rightarrow> webhook \<Rightarrow> ingester" where
  "fresh_ingester k hook =
     \<lparr>ing_queue = [], ing_chains = [], ing_written = 0, ing_anomalies = 0, ing_duplicates = 0,
      ing_malformed = 0, ing_overflowed = 0, ing_rejected = 0, ing_detector = new_detector k,
      ing_webhook = hook\<rparr>"

definition warm_detector :: "database \<Rightarrow> ingester \<Rightarrow> ingester" where
  "warm_detector db ing =
     ing\<lparr>ing_detector := snd (warm_from_db (map scored_reading (db_readings db)) 31 (ing_detector ing))\<rparr>"

inductive ingest_step :: "mac_fn \<Rightarrow> bytes \<Rightarrow> world \<Rightarrow> world \<Rightarrow> bool" for mac key where
  receive:
    "on_message lib msg (w_ing w) = (e, ing') \<Longrightarrow> ingest_step mac key w (w\<lparr>w_ing := ing'\<rparr>)"
| flushing:
    "flush mac key n fate known_ok fate2 (w_ing w, w_db w) = (out, ing', db') \<Longrightarrow>
       ingest_step mac key w (w\<lparr>w_ing := ing', w_db := db'\<rparr>)"
| anchoring:
    "write_checkpoint fate now (w_ing w) (w_db w, w_anchor w) = (ok, db', anchor') \<Longrightarrow>
       ingest_step mac key w (w\<lparr>w_db := db', w_anchor := anchor'\<rparr>)"
| restart:
    "ingest_step mac key w
       (w\<lparr>w_ing := warm_detector (w_db w) (load_chain_heads (w_db w) (fresh_ingester k hook))\<rparr>)"
| portfolio:
    "ingest_step mac key w (w\<lparr>w_db := (w_db w)\<lparr>db_buildings := ids\<rparr>\<rparr>)"

definition empty_world :: "rat \<Rightarrow> webhook \<Rightarrow> string list \<Rightarrow> world" where
  "empty_world k hook ids =
     \<lparr>w_ing = fresh_ingester k hook,
      w_db = \<lparr>db_buildings = ids, db_readings = [], db_anomalies = [], db_checkpoints = []\<rparr>,
      w_anchor = []\<rparr>"

inductive reachable :: "mac_fn \<Rightarrow> bytes \<Rightarrow> world \<Rightarrow> bool" for mac key where
  start: "reachable mac key (empty_world k hook ids)"
| step: "reachable mac key w \<Longrightarrow> ingest_step mac key w w' \<Longrightarrow> reachable mac key w'"

lemma on_message_chains: "ing_chains (snd (on_message lib msg ing)) = ing_chains ing"
  by (simp add: on_message_def Let_def split: option.splits sum.splits)

lemma write_checkpoint_readings:
  "write_checkpoint fate now ing (db, anchor) = (ok, db', anchor') \<Longrightarrow> db_readings db' = db_readings db"
  by (auto simp: write_checkpoint_def Let_def split: if_splits)

lemma ingest_step_inv:
  assumes "ingest_step mac key w w'" and "chain_inv mac key (w_ing w) (w_db w)"
  shows "chain_inv mac key (w_ing w') (w_db w')"
  using assms
proof (cases rule: ingest_step.cases)
  case (receive lib msg e ing')
  then have "ing_chains ing' = ing_chains (w_ing w)" using on_message_chains by (metis snd_conv)
  then show ?thesis using assms(2) receive by (simp add: chain_inv_def)
next
  case (flushing n fate known_ok fate2 out ing' db')
  then show ?thesis using flush_inv [OF assms(2)] by fastforce
next
  case (anchoring fate now ok db' anchor')
  then show ?thesis using assms(2) write_checkpoint_readings by (simp add: chain_inv_def)
next
  case (restart k hook)
  have "chain_inv mac key (load_chain_heads (w_db w) (fresh_ingester k hook)) (w_db w)"
    by (rule load_heads_inv) (use assms(2) in \<open>simp_all add: chain_inv_def fresh_ingester_def\<close>)
  then show ?thesis using restart by (simp add: chain_inv_def warm_detector_def)
next
  case (portfolio ids)
  then show ?thesis using assms(2) by (simp add: chain_inv_def)
qed

lemma reachable_inv: "reachable mac key w \<Longrightarrow> chain_inv mac key (w_ing w) (w_db w)"
proof (induction rule: reachable.induct)
  case (start k hook ids)
  then show ?case
    by (simp add: chain_inv_def empty_world_def fresh_ingester_def heads_match_def good_rows_def)
next
  case (step w w')
  then show ?case using ingest_step_inv by blast
qed


section \<open>A first reading, step by step\<close>

text \<open>A new reading of a building whose chain is known is signed behind its head.\<close>

lemma sign_one_new:
  assumes "map_of (ba_heads ba) (rd_building_id r) = None"
    and "map_of (ba_chains ba) (rd_building_id r) = None"
    and "(rd_building_id r, instant (rd_ts r)) \<notin> set stored"
  shows "\<exists>s. ba_rows (sign_one mac key stored ba r) =
               ba_rows ba @ [(unsigned_row r 0)\<lparr>row_sig := Some s\<rparr>] \<and>
             ba_duplicates (sign_one mac key stored ba r) = ba_duplicates ba"
proof -
  have h: "the (map_of (set_default (rd_building_id r) (ba_chains ba)) (rd_building_id r)) = new_chain"
    using assms(2) by (simp add: set_default_def dict_simps)
  obtain s where "sign mac key (unsigned_row r 0) GENESIS = Inr s" using sign_unsigned by blast
  then show ?thesis
    using assms h by (intro exI [of _ s]) (simp add: sign_one_def sign_after_def Let_def new_chain_def)
qed

lemma sign_one_counts:
  "length (ba_rows (sign_one mac key stored ba r)) + ba_duplicates (sign_one mac key stored ba r) =
     Suc (length (ba_rows ba) + ba_duplicates ba)"
proof -
  have "length (ba_rows (sign_after mac key stored h r b)) + ba_duplicates (sign_after mac key stored h r b) =
      Suc (length (ba_rows b) + ba_duplicates b)" for h b
    using sign_unsigned [of mac key r "cs_last_seq h + 1" "cs_last_sig h"]
    by (auto simp: sign_after_def Let_def)
  then show ?thesis by (simp add: sign_one_def Let_def)
qed

lemma sign_batch_counts:
  "length (ba_rows (sign_batch mac key stored chs pending)) +
     ba_duplicates (sign_batch mac key stored chs pending) = length pending"
proof -
  have "length (ba_rows (foldl (sign_one mac key stored) ba pending)) +
      ba_duplicates (foldl (sign_one mac key stored) ba pending) =
      length (ba_rows ba) + ba_duplicates ba + length pending" for ba
    by (induction pending arbitrary: ba) (simp_all add: sign_one_counts)
  then show ?thesis by (simp add: sign_batch_def)
qed

lemma write_batch_commits:
  assumes "fate \<noteq> Tx_No_Connection"
    and "ba = sign_batch mac key (already_stored db pending) (ing_chains ing) pending"
    and "ba_rows ba \<noteq> []"
    and "score_all (map scored_reading (ba_rows ba)) (begin_batch (ing_detector ing)) = (found, det')"
    and "insert_error fate db (ba_rows ba) = None"
  shows "write_batch mac key fate pending (ing, db) =
    (Inr (length (ba_rows ba), found, ba_duplicates ba),
     ing\<lparr>ing_chains := advance_heads (ba_heads ba) (ba_chains ba), ing_detector := end_batch det'\<rparr>,
     db\<lparr>db_readings := insert_readings (ba_rows ba) (db_readings db),
        db_anomalies := insert_anomalies found (db_anomalies db)\<rparr>)"
  using assms by (simp add: write_batch_def Let_def)

lemma write_batch_fails:
  assumes "fate \<noteq> Tx_No_Connection"
    and "ba = sign_batch mac key (already_stored db pending) (ing_chains ing) pending"
    and "ba_rows ba \<noteq> []"
    and "score_all (map scored_reading (ba_rows ba)) (begin_batch (ing_detector ing)) = (found, det')"
    and "insert_error fate db (ba_rows ba) = Some e"
  shows "write_batch mac key fate pending (ing, db) =
    (Inl e, ing\<lparr>ing_chains := ba_chains ba, ing_detector :=
        rollback (det_scored (ing_detector ing), det_flagged (ing_detector ing),
                  det_evicted (ing_detector ing)) det'\<rparr>, db)"
  using assms by (simp add: write_batch_def Let_def)

lemma write_batch_Inr:
  assumes "write_batch mac key fate pending (ing, db) = (Inr (n, found, dups), ing', db')"
    and inv: "chain_inv mac key ing db"
  shows "n + dups = length pending \<and> length (db_readings db') = length (db_readings db) + n \<and>
         ing_written ing' = ing_written ing \<and> ing_duplicates ing' = ing_duplicates ing"
proof -
  define ba where "ba = sign_batch mac key (already_stored db pending) (ing_chains ing) pending"
  have ok: "batch_ok mac key (db_readings db) ba" unfolding ba_def by (rule chain_inv_batch [OF inv])
  have count: "length (ba_rows ba) + ba_duplicates ba = length pending"
    unfolding ba_def by (rule sign_batch_counts)
  have conn: "fate \<noteq> Tx_No_Connection" using assms(1) by (auto simp: write_batch_def)
  show ?thesis
  proof (cases "ba_rows ba = []")
    case True
    then show ?thesis using assms(1) conn count
      by (auto simp: write_batch_def Let_def ba_def [symmetric] split: if_splits)
  next
    case False
    obtain fnd det' where s: "score_all (map scored_reading (ba_rows ba)) (begin_batch (ing_detector ing)) = (fnd, det')"
      by force
    have e: "insert_error fate db (ba_rows ba) = None"
      using assms(1) conn False s
      by (cases "insert_error fate db (ba_rows ba)") (simp_all add: write_batch_def Let_def ba_def [symmetric])
    then show ?thesis using assms(1) conn False s count batch_commit(1) [OF ok]
      by (auto simp: write_batch_def Let_def ba_def [symmetric])
  qed
qed


section \<open>A message and a flush, for the examples\<close>

definition sample_lib :: stdlib where
  "sample_lib =
     \<lparr>iso = (\<lambda>s. if s = ''1970-01-01T00:15'' then Some (Naive 900000000)
                  else if s = ''1970-01-01T02:30+02:00'' then Some (Aware 9000000000 7200000000) else None),
      parse_float = (\<lambda>_. None), py_str = (\<lambda>_. ''None'')\<rparr>"

definition sample_payload :: "json \<Rightarrow> string \<Rightarrow> json" where
  "sample_payload ts source =
     JObject [(''building_id'', JText ''b001''), (''ts'', ts), (''kw'', JFloat 4), (''source'', JText source)]"

definition sample_reading :: "string \<Rightarrow> reading" where
  "sample_reading source =
     \<lparr>rd_building_id = ''b001'', rd_ts = Aware 900000000 0, rd_kw = 4, rd_source = source\<rparr>"

definition sample_ingester :: ingester where
  "sample_ingester = fresh_ingester 8 (new_webhook (\<lambda>_. ([], [])) None ''critical'')"

definition sample_db :: database where
  "sample_db = \<lparr>db_buildings = [''b001''], db_readings = [], db_anomalies = [], db_checkpoints = []\<rparr>"

lemma sample_decode:
  "decode_reading sample_lib (sample_payload (JText ''1970-01-01T00:15'') source) = Inr (sample_reading source)"
  by (simp add: decode_reading_def sample_payload_def get_item_def to_utc_def to_float_def to_str_def
      sample_lib_def sample_reading_def)

definition sample_received :: "string \<Rightarrow> ingester" where
  "sample_received source = sample_ingester\<lparr>ing_queue := [sample_reading source]\<rparr>"

lemma sample_receive:
  "on_message sample_lib (Some (sample_payload (JText ''1970-01-01T00:15'') source)) sample_ingester =
     (None, sample_received source)"
  by (simp add: on_message_def sample_decode Let_def sample_ingester_def fresh_ingester_def
      sample_received_def push_def MAX_QUEUED_READINGS_def)

lemma sample_inv: "chain_inv mac key sample_ingester sample_db"
  by (simp add: chain_inv_def sample_ingester_def fresh_ingester_def sample_db_def heads_match_def
      good_rows_def)

lemma sample_signed:
  "\<exists>s. ba_rows (sign_batch mac key (already_stored sample_db [sample_reading src]) [] [sample_reading src]) =
         [(unsigned_row (sample_reading src) 0)\<lparr>row_sig := Some s\<rparr>] \<and>
       ba_duplicates (sign_batch mac key (already_stored sample_db [sample_reading src]) [] [sample_reading src]) = 0"
  using sign_one_new [of "\<lparr>ba_chains = [], ba_heads = [], ba_rows = [], ba_duplicates = 0\<rparr>" "sample_reading src"
      "already_stored sample_db [sample_reading src]" mac key]
  by (simp add: sign_batch_def already_stored_def sample_db_def)

lemma sample_write:
  assumes "length src \<le> 16"
  shows "\<exists>ing' db' found. write_batch mac key Tx_Commit [sample_reading src]
            ((sample_received src)\<lparr>ing_queue := []\<rparr>, sample_db) = (Inr (1, found, 0), ing', db') \<and>
          (\<exists>s. db_readings db' = [(unsigned_row (sample_reading src) 0)\<lparr>row_sig := Some s\<rparr>])"
proof -
  let ?ing = "(sample_received src)\<lparr>ing_queue := []\<rparr>"
  define ba where "ba = sign_batch mac key (already_stored sample_db [sample_reading src])
      (ing_chains ?ing) [sample_reading src]"
  obtain s where ba: "ba_rows ba = [(unsigned_row (sample_reading src) 0)\<lparr>row_sig := Some s\<rparr>]"
    "ba_duplicates ba = 0"
    using sample_signed [of mac key src] unfolding ba_def
    by (simp add: sample_received_def sample_ingester_def fresh_ingester_def) blast
  have e: "insert_error Tx_Commit sample_db (ba_rows ba) = None"
    using assms ba by (simp add: insert_error_def oversized_def unsigned_row_def sample_reading_def sample_db_def)
  obtain fnd det' where s: "score_all (map scored_reading (ba_rows ba)) (begin_batch (ing_detector ?ing)) = (fnd, det')"
    by force
  have "ba_rows ba \<noteq> []" using ba by simp
  note w = write_batch_commits [OF _ ba_def this s e]
  have "insert_readings (ba_rows ba) (db_readings sample_db) =
      [(unsigned_row (sample_reading src) 0)\<lparr>row_sig := Some s\<rparr>]"
    using ba by (simp add: insert_readings_def sample_db_def)
  then show ?thesis using w ba by auto
qed

lemma sample_flush:
  assumes "length src \<le> 16"
  shows "\<exists>ing' db'. flush mac key 10 Tx_Commit True Tx_Commit (sample_received src, sample_db) = (Some 1, ing', db') \<and>
           (\<exists>s. db_readings db' = [(unsigned_row (sample_reading src) 0)\<lparr>row_sig := Some s\<rparr>])"
proof -
  obtain ing' db' found where w: "write_batch mac key Tx_Commit [sample_reading src]
      ((sample_received src)\<lparr>ing_queue := []\<rparr>, sample_db) = (Inr (1, found, 0), ing', db')"
    and l: "\<exists>s. db_readings db' = [(unsigned_row (sample_reading src) 0)\<lparr>row_sig := Some s\<rparr>]"
    using sample_write [OF assms] by blast
  have q: "ing_queue (sample_received src) = [sample_reading src]" by (simp add: sample_received_def)
  have "flush mac key 10 Tx_Commit True Tx_Commit (sample_received src, sample_db) =
      (Some 1, account (1, found, 0) ing', db')"
    using w q by (simp add: flush_def Let_def)
  then show ?thesis using l by blast
qed

lemma sample_reached:
  "\<exists>w. reachable mac key w \<and> length (db_readings (w_db w)) = 1 \<and>
       rows_of ''b001'' (db_readings (w_db w)) \<noteq> []"
proof -
  let ?w0 = "empty_world 8 (new_webhook (\<lambda>_. ([], [])) None ''critical'') [''b001'']"
  have w0: "w_ing ?w0 = sample_ingester" "w_db ?w0 = sample_db"
    by (simp_all add: empty_world_def sample_ingester_def sample_db_def)
  have "ingest_step mac key ?w0 (?w0\<lparr>w_ing := sample_received ''sim''\<rparr>)"
    by (rule ingest_step.receive [OF sample_receive [folded w0(1)]])
  then have r1: "reachable mac key (?w0\<lparr>w_ing := sample_received ''sim''\<rparr>)"
    by (rule reachable.step [OF reachable.start])
  obtain ing' db' where f: "flush mac key 10 Tx_Commit True Tx_Commit (sample_received ''sim'', sample_db) = (Some 1, ing', db')"
    and l: "length (db_readings db') = 1 \<and> rows_of ''b001'' (db_readings db') \<noteq> []"
    using sample_flush [of "''sim''" mac key] by (force simp: rows_of_def unsigned_row_def sample_reading_def)
  have "flush mac key 10 Tx_Commit True Tx_Commit
      (w_ing (?w0\<lparr>w_ing := sample_received ''sim''\<rparr>), w_db (?w0\<lparr>w_ing := sample_received ''sim''\<rparr>)) = (Some 1, ing', db')"
    using f w0 by simp
  from reachable.step [OF r1 ingest_step.flushing [OF this]] l show ?thesis by fastforce
qed



section \<open>Redelivery, retry and loss\<close>

lemma sign_one_redelivered:
  assumes "batch_ok mac key table ba" and "ba_rows ba = []"
    and "x \<in> set (rows_of (rd_building_id r) table)" and "row_instant x = instant (rd_ts r)"
  shows "ba_rows (sign_one mac key stored ba r) = [] \<and>
         ba_duplicates (sign_one mac key stored ba r) = ba_duplicates ba + 1"
proof -
  let ?b = "rd_building_id r"
  let ?ba1 = "ba\<lparr>ba_chains := set_default ?b (ba_chains ba)\<rparr>"
  let ?h = "case map_of (ba_heads ba) ?b of Some h \<Rightarrow> h | None \<Rightarrow> the (map_of (set_default ?b (ba_chains ba)) ?b)"
  have h: "?h = current_head ba ?b"
    by (simp add: current_head_def set_default_some split: option.splits)
  have m: "head_matches (current_head ba ?b) (rows_of ?b table)" "good_rows mac key (rows_of ?b table)"
    using assms(1,2) by (auto simp: batch_ok_def dest!: spec [of _ ?b])
  have ne: "rows_of ?b table \<noteq> []" using assms(3) by auto
  have "row_instant x \<le> row_instant (last (rows_of ?b table))"
  proof -
    obtain ys z where xs: "rows_of ?b table = ys @ [z]" using ne by (metis append_butlast_last_id)
    then have "\<forall>y \<in> set ys. row_instant y < row_instant z"
      using m(2) by (simp add: good_rows_def sorted_wrt_append)
    then show ?thesis using assms(3) xs by auto
  qed
  then have "cs_last_ts ?h \<noteq> None \<and> instant (rd_ts r) \<le> instant (the (cs_last_ts ?h))"
    unfolding h using m(1) ne assms(4) by (auto simp: head_matches_def)
  then show ?thesis using assms(2) by (simp add: sign_one_def sign_after_def Let_def)
qed

lemma sign_batch_redelivered:
  assumes "heads_match chs table" and "\<forall>b. good_rows mac key (rows_of b table)"
    and "\<forall>r \<in> set pending. \<exists>x \<in> set (rows_of (rd_building_id r) table). row_instant x = instant (rd_ts r)"
  shows "ba_rows (sign_batch mac key stored chs pending) = []"
proof -
  have "batch_ok mac key table ba \<Longrightarrow> ba_rows ba = [] \<Longrightarrow>
      \<forall>r \<in> set rs. \<exists>x \<in> set (rows_of (rd_building_id r) table). row_instant x = instant (rd_ts r) \<Longrightarrow>
      ba_rows (foldl (sign_one mac key stored) ba rs) = []" for ba rs
  proof (induction rs arbitrary: ba)
    case (Cons r rs)
    then obtain x where "x \<in> set (rows_of (rd_building_id r) table)" "row_instant x = instant (rd_ts r)"
      by auto
    from sign_one_redelivered [OF Cons.prems(1,2) this] sign_one_ok [OF Cons.prems(1)] Cons
    show ?case by simp
  qed simp
  moreover have "batch_ok mac key table (sign_batch mac key stored chs [])"
    by (rule sign_batch_ok [OF assms(1,2)])
  ultimately show ?thesis using assms(3) by (simp add: sign_batch_def)
qed

text \<open>
  Redelivery is harmless. A batch in which every reading repeats the building and
  instant of a stored row, in any order and whatever value or source it carries, changes
  nothing in the database, allocates no sequence number and is counted as duplicates.
\<close>
theorem redelivery_ignored:
  assumes inv: "chain_inv mac key ing db" and "ing_queue ing \<noteq> []"
    and "\<forall>r \<in> set (take n (ing_queue ing)).
           \<exists>x \<in> set (rows_of (rd_building_id r) (db_readings db)). row_instant x = instant (rd_ts r)"
  shows "\<exists>ing'. flush mac key n Tx_Commit known_ok fate2 (ing, db) = (Some 0, ing', db) \<and>
           ing_queue ing' = drop n (ing_queue ing) \<and>
           ing_duplicates ing' = ing_duplicates ing + length (take n (ing_queue ing))"
proof -
  let ?p = "take n (ing_queue ing)" and ?ing0 = "ing\<lparr>ing_queue := drop n (ing_queue ing)\<rparr>"
  let ?ba = "sign_batch mac key (already_stored db ?p) (ing_chains ing) ?p"
  have rows: "ba_rows ?ba = []"
    by (rule sign_batch_redelivered [of _ "db_readings db"]) (use inv assms(3) in \<open>auto simp: chain_inv_def\<close>)
  then have dups: "ba_duplicates ?ba = length ?p"
    using sign_batch_counts [of mac key "already_stored db ?p" "ing_chains ing" ?p] by simp
  have "write_batch mac key Tx_Commit ?p (?ing0, db) =
      (Inr (0, [], length ?p), ?ing0\<lparr>ing_chains := ba_chains ?ba\<rparr>, db)"
    using rows dups by (simp add: write_batch_def Let_def)
  then show ?thesis using assms(2) by (simp add: flush_def Let_def account_def)
qed

theorem redelivery_ignored_witness:
  "\<exists>ing db ing'. db_readings db \<noteq> [] \<and>
     flush sample_mac ''key'' 10 Tx_Commit True Tx_Commit (ing, db) = (Some 0, ing', db) \<and>
     ing_duplicates ing' = ing_duplicates ing + 1"
proof -
  have inv0: "chain_inv sample_mac ''key'' (sample_received ''sim'') sample_db"
    using sample_inv by (simp add: sample_received_def chain_inv_queue)
  obtain ing db s where f: "flush sample_mac ''key'' 10 Tx_Commit True Tx_Commit (sample_received ''sim'', sample_db) = (Some 1, ing, db)"
    and rows: "db_readings db = [(unsigned_row (sample_reading ''sim'') 0)\<lparr>row_sig := Some s\<rparr>]"
    using sample_flush [of "''sim''" sample_mac "''key''"] by force
  let ?again = "ing\<lparr>ing_queue := [sample_reading ''late'']\<rparr>"
  have inv: "chain_inv sample_mac ''key'' ?again db"
    using flush_inv [OF inv0 f] chain_inv_queue by blast
  have "\<forall>r \<in> set (take 10 (ing_queue ?again)).
      \<exists>x \<in> set (rows_of (rd_building_id r) (db_readings db)). row_instant x = instant (rd_ts r)"
    by (simp add: rows rows_of_def unsigned_row_def sample_reading_def row_instant_def)
  from redelivery_ignored [OF inv _ this, of True Tx_Commit]
  obtain ing' where "flush sample_mac ''key'' 10 Tx_Commit True Tx_Commit (?again, db) = (Some 0, ing', db)"
    "ing_duplicates ing' = ing_duplicates ?again + 1" by auto
  moreover have "db_readings db \<noteq> []" using rows by simp
  ultimately show ?thesis by blast
qed

text \<open>Two memories sign alike when every building has the same head in both.\<close>

definition same_heads :: "(string \<times> chain_state) list \<Rightarrow> (string \<times> chain_state) list \<Rightarrow> bool" where
  "same_heads chs chs' \<longleftrightarrow>
     (\<forall>b. (case map_of chs b of Some c \<Rightarrow> c | None \<Rightarrow> new_chain) =
          (case map_of chs' b of Some c \<Rightarrow> c | None \<Rightarrow> new_chain))"

lemma same_heads_default: "same_heads (set_default b chs) chs'  \<longleftrightarrow> same_heads chs chs'"
proof -
  have "(case map_of (set_default b chs) x of Some c \<Rightarrow> c | None \<Rightarrow> new_chain) =
        (case map_of chs x of Some c \<Rightarrow> c | None \<Rightarrow> new_chain)" for x
    by (cases "map_of chs x") (auto simp: set_default_def dict_simps)
  then show ?thesis by (simp add: same_heads_def)
qed

lemma same_heads_sym: "same_heads a b \<Longrightarrow> same_heads b a"
  by (simp add: same_heads_def)

lemma sign_after_frame:
  "ba_chains (sign_after mac key stored h r ba) = ba_chains ba \<and>
   ba_rows (sign_after mac key stored h r (ba\<lparr>ba_chains := c\<rparr>)) = ba_rows (sign_after mac key stored h r ba) \<and>
   ba_heads (sign_after mac key stored h r (ba\<lparr>ba_chains := c\<rparr>)) = ba_heads (sign_after mac key stored h r ba)"
  by (simp add: sign_after_def Let_def split: sum.splits)

lemma sign_one_same:
  assumes "same_heads (ba_chains ba) (ba_chains ba')" and "ba_rows ba = ba_rows ba'"
    and "ba_heads ba = ba_heads ba'" and "ba_duplicates ba = ba_duplicates ba'"
  shows "same_heads (ba_chains (sign_one mac key stored ba r)) (ba_chains (sign_one mac key stored ba' r)) \<and>
         ba_rows (sign_one mac key stored ba r) = ba_rows (sign_one mac key stored ba' r) \<and>
         ba_heads (sign_one mac key stored ba r) = ba_heads (sign_one mac key stored ba' r) \<and>
         ba_duplicates (sign_one mac key stored ba r) = ba_duplicates (sign_one mac key stored ba' r)"
proof -
  let ?b = "rd_building_id r"
  have h: "(case map_of (ba_heads ba) ?b of Some h \<Rightarrow> h | None \<Rightarrow> the (map_of (set_default ?b (ba_chains ba)) ?b)) =
      (case map_of (ba_heads ba') ?b of Some h \<Rightarrow> h | None \<Rightarrow> the (map_of (set_default ?b (ba_chains ba')) ?b))"
    using assms(1,3) by (simp add: set_default_some same_heads_def split: option.splits)
  have dup: "ba_duplicates (sign_after mac key stored g r (ba\<lparr>ba_chains := c\<rparr>)) =
      ba_duplicates (sign_after mac key stored g r (ba'\<lparr>ba_chains := c'\<rparr>)) \<and>
      ba_rows (sign_after mac key stored g r (ba\<lparr>ba_chains := c\<rparr>)) =
      ba_rows (sign_after mac key stored g r (ba'\<lparr>ba_chains := c'\<rparr>)) \<and>
      ba_heads (sign_after mac key stored g r (ba\<lparr>ba_chains := c\<rparr>)) =
      ba_heads (sign_after mac key stored g r (ba'\<lparr>ba_chains := c'\<rparr>))" for g c c'
    using assms(2-4) by (simp add: sign_after_def Let_def split: sum.splits)
  have "same_heads (set_default ?b (ba_chains ba)) (set_default ?b (ba_chains ba'))"
    using assms(1) same_heads_default same_heads_sym by metis
  then show ?thesis
    using dup unfolding sign_one_def Let_def h [symmetric] by (simp add: sign_after_frame)
qed

lemma sign_batch_same:
  assumes "same_heads chs chs'"
  shows "ba_rows (sign_batch mac key stored chs pending) = ba_rows (sign_batch mac key stored chs' pending)"
proof -
  have "same_heads (ba_chains ba) (ba_chains ba') \<Longrightarrow> ba_rows ba = ba_rows ba' \<Longrightarrow>
      ba_heads ba = ba_heads ba' \<Longrightarrow> ba_duplicates ba = ba_duplicates ba' \<Longrightarrow>
      ba_rows (foldl (sign_one mac key stored) ba pending) =
      ba_rows (foldl (sign_one mac key stored) ba' pending)" for ba ba'
  proof (induction pending arbitrary: ba ba')
    case (Cons r pending)
    from sign_one_same [OF Cons.prems, of mac key stored r] Cons.IH show ?case by simp
  qed simp
  from this [of "\<lparr>ba_chains = chs, ba_heads = [], ba_rows = [], ba_duplicates = 0\<rparr>"
      "\<lparr>ba_chains = chs', ba_heads = [], ba_rows = [], ba_duplicates = 0\<rparr>"] assms
  show ?thesis by (simp add: sign_batch_def)
qed

lemma sign_batch_chains: "same_heads (ba_chains (sign_batch mac key stored chs pending)) chs"
proof -
  have "same_heads (ba_chains ba) chs \<Longrightarrow>
      same_heads (ba_chains (foldl (sign_one mac key stored) ba pending)) chs" for ba
    by (induction pending arbitrary: ba)
       (simp_all add: sign_one_def Let_def sign_after_frame same_heads_default)
  then show ?thesis by (simp add: sign_batch_def same_heads_def)
qed

lemma write_batch_Other:
  assumes "write_batch mac key fate pending (ing, db) = (Inl e, ing1, db1)"
  shows "db1 = db \<and> ing_queue ing1 = ing_queue ing \<and> same_heads (ing_chains ing1) (ing_chains ing) \<and>
         ing_written ing1 = ing_written ing \<and> ing_duplicates ing1 = ing_duplicates ing \<and>
         ing_anomalies ing1 = ing_anomalies ing \<and> ing_rejected ing1 = ing_rejected ing \<and>
         ing_webhook ing1 = ing_webhook ing \<and>
         (ing_detector ing1 = ing_detector ing \<or>
          (\<exists>rows. ing_detector ing1 = rollback (det_scored (ing_detector ing), det_flagged (ing_detector ing),
              det_evicted (ing_detector ing)) (score_rows rows (begin_batch (ing_detector ing))) \<and>
            rows = map scored_reading (ba_rows (sign_batch mac key (already_stored db pending) (ing_chains ing) pending))))"
proof (cases "fate = Tx_No_Connection")
  case True
  then show ?thesis using assms by (auto simp: write_batch_def same_heads_def)
next
  case conn: False
  define ba where "ba = sign_batch mac key (already_stored db pending) (ing_chains ing) pending"
  have heads: "same_heads (ba_chains ba) (ing_chains ing)"
    unfolding ba_def by (rule sign_batch_chains)
  show ?thesis
  proof (cases "ba_rows ba = []")
    case True
    then show ?thesis using assms conn heads
      by (auto simp: write_batch_def Let_def ba_def [symmetric] split: if_splits)
  next
    case False
    obtain found det' where s: "score_all (map scored_reading (ba_rows ba)) (begin_batch (ing_detector ing)) = (found, det')"
      by force
    then have d: "det' = score_rows (map scored_reading (ba_rows ba)) (begin_batch (ing_detector ing))"
      using score_all_rows [of "map scored_reading (ba_rows ba)" "begin_batch (ing_detector ing)"] by simp
    show ?thesis
    proof (cases "insert_error fate db (ba_rows ba)")
      case None
      then show ?thesis using write_batch_commits [OF conn ba_def False s] assms by simp
    next
      case (Some e')
      have ing1: "ing1 = ing\<lparr>ing_chains := ba_chains ba, ing_detector :=
          rollback (det_scored (ing_detector ing), det_flagged (ing_detector ing),
                    det_evicted (ing_detector ing)) det'\<rparr>" and "db1 = db"
        using write_batch_fails [OF conn ba_def False s Some] assms by simp_all
      then show ?thesis using heads unfolding ba_def [symmetric] d by auto
    qed
  qed
qed



text \<open>
  The one path that loses readings. When a batch is refused for an unknown building and
  the second write, of the readings that are fine, meets a transient failure, the flush
  raises with nothing stored and the whole batch gone from the queue.
\<close>
theorem second_failure_loses_batch:
  assumes "ing_queue ing \<noteq> []"
    and "write_batch mac key fate (take n (ing_queue ing)) (ing\<lparr>ing_queue := drop n (ing_queue ing)\<rparr>, db) =
           (Inl Integrity_Violation, ing1, db1)"
    and "r \<in> set (take n (ing_queue ing))" and "rd_building_id r \<in> set (db_buildings db)"
  shows "\<exists>ing'. flush mac key n fate True Tx_No_Connection (ing, db) = (None, ing', db) \<and>
           ing_queue ing' = drop n (ing_queue ing)"
proof -
  note w = write_batch_Other [OF assms(2)]
  have "filter (\<lambda>x. rd_building_id x \<in> set (known_ids True db)) (take n (ing_queue ing)) \<noteq> []"
    using assms(3,4) by (auto simp: known_ids_def filter_empty_conv)
  then have "write_without_unknown mac key True Tx_No_Connection (take n (ing_queue ing)) (ing1, db) =
      (Inl Other_Failure, ing1\<lparr>ing_rejected := ing_rejected ing1 + (length (take n (ing_queue ing)) -
         length (filter (\<lambda>x. rd_building_id x \<in> set (known_ids True db)) (take n (ing_queue ing))))\<rparr>, db)"
    by (simp add: write_without_unknown_def Let_def write_batch_def)
  then show ?thesis
    using flush_refused [OF assms(1,2), of True Tx_No_Connection] w by (simp add: after_refusal_def)
qed

theorem second_failure_loses_batch_witness:
  "\<exists>ing'. flush sample_mac ''key'' 10 Tx_Refused True Tx_No_Connection (sample_received ''sim'', sample_db) =
            (None, ing', sample_db) \<and> ing_queue ing' = []"
proof -
  let ?ing = "sample_received ''sim''"
  let ?emptied = "?ing\<lparr>ing_queue := []\<rparr>"
  have ing: "ing_queue ?ing = [sample_reading ''sim'']"
    by (simp add: sample_received_def)
  have chs: "ing_chains ?emptied = []"
    by (simp add: sample_received_def sample_ingester_def fresh_ingester_def)
  define ba where "ba = sign_batch sample_mac ''key'' (already_stored sample_db [sample_reading ''sim''])
      (ing_chains ?emptied) [sample_reading ''sim'']"
  obtain s where ba: "ba_rows ba = [(unsigned_row (sample_reading ''sim'') 0)\<lparr>row_sig := Some s\<rparr>]"
    using sample_signed unfolding ba_def chs by blast
  have e: "insert_error Tx_Refused sample_db (ba_rows ba) = Some Integrity_Violation"
    by (simp add: ba insert_error_def oversized_def unsigned_row_def sample_reading_def sample_db_def)
  obtain found det' where sc: "score_all (map scored_reading (ba_rows ba)) (begin_batch (ing_detector ?emptied)) = (found, det')"
    by force
  have "ba_rows ba \<noteq> []" by (simp add: ba)
  from write_batch_fails [OF _ ba_def this sc e]
  obtain ing1 where "write_batch sample_mac ''key'' Tx_Refused [sample_reading ''sim''] (?emptied, sample_db) =
      (Inl Integrity_Violation, ing1, sample_db)" by blast
  then have w: "write_batch sample_mac ''key'' Tx_Refused (take 10 (ing_queue ?ing))
      (?ing\<lparr>ing_queue := drop 10 (ing_queue ?ing)\<rparr>, sample_db) =
      (Inl Integrity_Violation, ing1, sample_db)" by (simp add: ing)
  show ?thesis
    using second_failure_loses_batch [OF _ w, of "sample_reading ''sim''"] ing
    by (simp add: sample_reading_def sample_db_def)
qed

lemma fold_rows_grow:
  "\<exists>more. ba_rows (foldl (sign_one mac key stored) ba pending) = ba_rows ba @ more"
proof (induction pending arbitrary: ba)
  case (Cons r pending)
  have "\<exists>more. ba_rows (sign_after mac key stored h r b) = ba_rows b @ more" for h b
    by (simp add: sign_after_def Let_def split: sum.splits)
  then obtain m1 where "ba_rows (sign_one mac key stored ba r) = ba_rows ba @ m1"
    unfolding sign_one_def Let_def by (metis batch.select_convs(3) batch.surjective batch.update_convs(1))
  then show ?case using Cons.IH [of "sign_one mac key stored ba r"] by auto
qed simp

lemma first_row_signed:
  assumes "heads_match chs table"
    and "rows_of (rd_building_id r) table = [] \<or>
         row_instant (last (rows_of (rd_building_id r) table)) < instant (rd_ts r)"
    and "(rd_building_id r, instant (rd_ts r)) \<notin> set stored"
  shows "\<exists>seq s more. ba_rows (sign_batch mac key stored chs (r # rest)) =
           (unsigned_row r seq)\<lparr>row_sig := Some s\<rparr> # more"
proof -
  let ?b = "rd_building_id r"
  let ?start = "\<lparr>ba_chains = chs, ba_heads = [], ba_rows = [], ba_duplicates = 0\<rparr>"
  let ?h = "the (map_of (set_default ?b chs) ?b)"
  have h: "head_matches ?h (rows_of ?b table)"
    using assms(1) unfolding heads_match_def
    by (auto simp: set_default_some split: option.splits dest: spec [of _ ?b])
  have fresh: "\<not> (cs_last_ts ?h \<noteq> None \<and> instant (rd_ts r) \<le> instant (the (cs_last_ts ?h)))"
  proof (cases "rows_of ?b table = []")
    case True
    then show ?thesis using h by (simp add: head_matches_def)
  next
    case False
    then show ?thesis using h assms(2) by (auto simp: head_matches_def)
  qed
  obtain s where s: "sign mac key (unsigned_row r (cs_last_seq ?h + 1)) (cs_last_sig ?h) = Inr s"
    using sign_unsigned by blast
  have "ba_rows (sign_one mac key stored ?start r) =
      [(unsigned_row r (cs_last_seq ?h + 1))\<lparr>row_sig := Some s\<rparr>]"
    using fresh assms(3) s by (auto simp: sign_one_def sign_after_def Let_def)
  then show ?thesis
    using fold_rows_grow [of mac key stored "sign_one mac key stored ?start r" rest]
    by (auto simp: sign_batch_def)
qed

text \<open>What flushing over and over does, with any outcome of each transaction.\<close>

fun flush_many ::
  "mac_fn \<Rightarrow> bytes \<Rightarrow> (nat \<times> tx \<times> bool \<times> tx) list \<Rightarrow> ingester \<times> database \<Rightarrow> ingester \<times> database" where
  "flush_many mac key [] st = st"
| "flush_many mac key ((n, fate, known_ok, fate2) # ps) st =
     flush_many mac key ps (snd (flush mac key n fate known_ok fate2 st))"

lemma oversized_blocks_once:
  assumes inv: "chain_inv mac key ing db" and q: "ing_queue ing = r # rest"
    and len: "length (ing_queue ing) \<le> MAX_QUEUED_READINGS" and n: "0 < n"
    and long: "16 < length (rd_source r) \<or> 32 < length (rd_building_id r)"
    and fresh: "rows_of (rd_building_id r) (db_readings db) = [] \<or>
         row_instant (last (rows_of (rd_building_id r) (db_readings db))) < instant (rd_ts r)"
  shows "\<exists>ing'. flush mac key n fate known_ok fate2 (ing, db) = (None, ing', db) \<and>
           ing_queue ing' = ing_queue ing \<and> chain_inv mac key ing' db"
proof -
  let ?p = "take n (ing_queue ing)" and ?ing0 = "ing\<lparr>ing_queue := drop n (ing_queue ing)\<rparr>"
  obtain p' where p: "?p = r # p'" using q n by (cases n) auto
  define ba where "ba = sign_batch mac key (already_stored db ?p) (ing_chains ?ing0) ?p"
  have "(rd_building_id r, instant (rd_ts r)) \<notin> set (already_stored db ?p)"
  proof
    assume "(rd_building_id r, instant (rd_ts r)) \<in> set (already_stored db ?p)"
    then obtain x where x: "x \<in> set (db_readings db)" "the (row_building_id x) = rd_building_id r"
      "row_instant x = instant (rd_ts r)" by (auto simp: already_stored_def row_instant_def)
    then have "row_building_id x = Some (rd_building_id r)"
      using inv by (auto simp: chain_inv_def list_all_iff)
    then have xr: "x \<in> set (rows_of (rd_building_id r) (db_readings db))" using x(1) by (simp add: rows_of_def)
    have g: "good_rows mac key (rows_of (rd_building_id r) (db_readings db))" using inv by (simp add: chain_inv_def)
    obtain ys z where xs: "rows_of (rd_building_id r) (db_readings db) = ys @ [z]"
      using xr by (metis append_butlast_last_id empty_iff empty_set)
    then have "\<forall>y \<in> set ys. row_instant y < row_instant z"
      using g by (simp add: good_rows_def sorted_wrt_append)
    then show False using xr xs x(3) fresh by auto
  qed
  from first_row_signed [OF _ fresh this, of "ing_chains ing" mac key p']
  obtain seq s more where rows: "ba_rows ba = (unsigned_row r seq)\<lparr>row_sig := Some s\<rparr> # more"
    using inv unfolding ba_def p by (auto simp: chain_inv_def)
  then have err: "insert_error fate db (ba_rows ba) = Some Other_Failure"
    using long by (auto simp: insert_error_def oversized_def unsigned_row_def)
  have "\<exists>ing1. write_batch mac key fate ?p (?ing0, db) = (Inl Other_Failure, ing1, db)"
  proof (cases "fate = Tx_No_Connection")
    case True
    then show ?thesis by (simp add: write_batch_def)
  next
    case False
    obtain found det' where "score_all (map scored_reading (ba_rows ba)) (begin_batch (ing_detector ?ing0)) = (found, det')"
      by force
    from write_batch_fails [OF False ba_def _ this err] rows show ?thesis by auto
  qed
  then obtain ing1 where w: "write_batch mac key fate ?p (?ing0, db) = (Inl Other_Failure, ing1, db)" by blast
  let ?ing' = "ing1\<lparr>ing_queue := take MAX_QUEUED_READINGS (?p @ ing_queue ing1)\<rparr>"
  have f: "flush mac key n fate known_ok fate2 (ing, db) = (None, ?ing', db)"
    using q w by (simp add: flush_def Let_def)
  moreover have "ing_queue ?ing' = ing_queue ing" using write_batch_Other [OF w] len by simp
  moreover have "chain_inv mac key ?ing' db" using flush_inv [OF inv f] by simp
  ultimately show ?thesis by blast
qed




end
