(* ===== verification/Anchor.thy ===== *)
theory Anchor
  imports Ingest
begin

text \<open>
  \<open>src/gemp/ingest/anchor.py\<close>: the append-only file of checkpoints outside the database
  volume, and the search for the newest entry of a building in its tail. \<open>json.loads\<close>
  is the parameter \<open>loads\<close>; a missing file is \<open>None\<close>.
\<close>

section \<open>Parsing a line\<close>

text \<open>\<open>int(v)\<close> of a decoded JSON value.\<close>

definition to_int :: "json \<Rightarrow> int option" where
  "to_int v =
     (case v of
        JInteger i \<Rightarrow> Some i
      | JBool b \<Rightarrow> Some (if b then 1 else 0)
      | JFloat x \<Rightarrow> Some (if x \<ge> 0 then \<lfloor>x\<rfloor> else \<lceil>x\<rceil>)
      | JText s \<Rightarrow> py_int s
      | _ \<Rightarrow> None)"

text \<open>
  \<open>_parse\<close>: every exception of a half-written line is the absence of a checkpoint. An
  identifier that is not text equals no building and is treated the same.
\<close>

definition parse_checkpoint :: "stdlib \<Rightarrow> (string \<Rightarrow> json option) \<Rightarrow> string \<Rightarrow> checkpoint option" where
  "parse_checkpoint lib loads line =
     (case loads line of
        Some (JObject d) \<Rightarrow>
          (case (map_of d ''building_id'', map_of d ''ts'', map_of d ''last_seq'', map_of d ''head_sig'') of
             (Some (JText b), Some (JText t), Some n, Some (JText h)) \<Rightarrow>
               (case (iso lib t, to_int n, from_hex h) of
                  (Some ts, Some seq, Some sig) \<Rightarrow>
                    Some \<lparr>cp_building_id = b, cp_ts = ts, cp_last_seq = seq, cp_head_sig = sig\<rparr>
                | _ \<Rightarrow> None)
           | _ \<Rightarrow> None)
      | _ \<Rightarrow> None)"

section \<open>Scanning\<close>

fun contains :: "string \<Rightarrow> string \<Rightarrow> bool" where
  "contains pat [] = (pat = [])"
| "contains pat (c # cs) = (take (length pat) (c # cs) = pat \<or> contains pat cs)"

text \<open>The lines of a scan that hold a checkpoint of the building.\<close>

definition line_checkpoint :: "(string \<Rightarrow> checkpoint option) \<Rightarrow> string \<Rightarrow> string \<Rightarrow> checkpoint option" where
  "line_checkpoint parse building_id line =
     (let line = strip line
      in if line = [] \<or> \<not> contains building_id line then None
         else case parse line of
                None \<Rightarrow> None
              | Some c \<Rightarrow> if cp_building_id c \<noteq> building_id then None else Some c)"

definition scan_step ::
  "(string \<Rightarrow> checkpoint option) \<Rightarrow> string \<Rightarrow> checkpoint option \<Rightarrow> string \<Rightarrow> checkpoint option" where
  "scan_step parse building_id best line =
     (case line_checkpoint parse building_id line of
        None \<Rightarrow> best
      | Some c \<Rightarrow> (case best of None \<Rightarrow> Some c
                  | Some b \<Rightarrow> if cp_last_seq c > cp_last_seq b then Some c else best))"

definition scan :: "(string \<Rightarrow> checkpoint option) \<Rightarrow> string list \<Rightarrow> string \<Rightarrow> checkpoint option" where
  "scan parse lines building_id = foldl (scan_step parse building_id) None lines"

definition newline :: char where "newline = CHR 0x0A"

text \<open>\<open>readlines\<close>, without the terminators, which \<open>strip\<close> removes anyway.\<close>

fun split_lines :: "string \<Rightarrow> string list" where
  "split_lines [] = []"
| "split_lines (c # cs) =
     (if c = newline then [] # split_lines cs
      else case split_lines cs of
             [] \<Rightarrow> [[c]]
           | l # ls \<Rightarrow> (c # l) # ls)"

definition after_partial_line :: "string \<Rightarrow> string" where
  "after_partial_line s = drop 1 (dropWhile (\<lambda>c. c \<noteq> newline) s)"

definition TAIL_BYTES :: nat where "TAIL_BYTES = 512 * 1024"

text \<open>\<open>latest_checkpoint\<close> with the size of the slice as a parameter.\<close>

definition latest_in ::
  "nat \<Rightarrow> (string \<Rightarrow> checkpoint option) \<Rightarrow> string \<Rightarrow> string option \<Rightarrow> checkpoint option" where
  "latest_in tail parse building_id file =
     (case file of
        None \<Rightarrow> None
      | Some content \<Rightarrow>
          let size = length content;
              slice = (if size > tail then after_partial_line (drop (size - tail) content) else content);
              found = scan parse (split_lines slice) building_id
          in if found \<noteq> None \<or> size \<le> tail then found
             else scan parse (split_lines content) building_id)"

definition latest_checkpoint ::
  "(string \<Rightarrow> checkpoint option) \<Rightarrow> string \<Rightarrow> string option \<Rightarrow> checkpoint option" where
  "latest_checkpoint = latest_in TAIL_BYTES"

section \<open>Lemmas\<close>

fun best_of :: "checkpoint option \<Rightarrow> checkpoint list \<Rightarrow> checkpoint option" where
  "best_of best [] = best"
| "best_of best (c # cs) =
     best_of (case best of None \<Rightarrow> Some c
              | Some b \<Rightarrow> if cp_last_seq c > cp_last_seq b then Some c else best) cs"

definition checkpoints_in :: "(string \<Rightarrow> checkpoint option) \<Rightarrow> string \<Rightarrow> string list \<Rightarrow> checkpoint list" where
  "checkpoints_in parse building_id lines = List.map_filter (line_checkpoint parse building_id) lines"

lemma map_filter_Cons:
  "List.map_filter f (x # xs) = (case f x of None \<Rightarrow> List.map_filter f xs | Some y \<Rightarrow> y # List.map_filter f xs)"
  by (simp add: List.map_filter_simps)

lemma map_filter_append: "List.map_filter f (xs @ ys) = List.map_filter f xs @ List.map_filter f ys"
  by (induction xs) (simp_all add: map_filter_Cons List.map_filter_simps split: option.splits)

lemma scan_best: "scan parse lines b = best_of None (checkpoints_in parse b lines)"
proof -
  have "foldl (scan_step parse b) best lines = best_of best (checkpoints_in parse b lines)" for best
    by (induction lines arbitrary: best)
       (auto simp: checkpoints_in_def scan_step_def map_filter_Cons List.map_filter_simps split: option.splits)
  then show ?thesis by (simp add: scan_def)
qed

lemma best_of_max:
  "best_of best cs = Some m \<Longrightarrow>
     (m \<in> set cs \<or> best = Some m) \<and> (\<forall>c \<in> set cs. cp_last_seq c \<le> cp_last_seq m) \<and>
     (\<forall>b. best = Some b \<longrightarrow> cp_last_seq b \<le> cp_last_seq m)"
proof (induction best cs rule: best_of.induct)
  case (2 best c cs)
  then show ?case by (cases best) (auto split: if_splits)
qed simp

lemma best_of_None: "best_of best cs = None \<longleftrightarrow> best = None \<and> cs = []"
  by (induction best cs rule: best_of.induct) (auto split: option.splits)

text \<open>A line break splits the lines.\<close>

lemma split_lines_append: "split_lines (xs @ newline # ys) = split_lines (xs @ [newline]) @ split_lines ys"
proof (induction xs)
  case Nil
  then show ?case by simp
next
  case (Cons c xs)
  have "split_lines (xs @ [newline]) \<noteq> []" by (cases xs) (auto split: list.splits)
  then obtain l ls where "split_lines (xs @ [newline]) = l # ls" by (cases "split_lines (xs @ [newline])") auto
  then show ?case using Cons by simp
qed

lemma after_partial_suffix:
  "\<exists>pre. split_lines (xs @ s) = pre @ split_lines (after_partial_line s)"
proof (cases "newline \<in> set s")
  case True
  then obtain us vs where s: "s = us @ newline # vs" and us: "newline \<notin> set us"
    by (metis split_list_first)
  have "dropWhile (\<lambda>c. c \<noteq> newline) (us @ newline # vs) = newline # vs"
    using us by (induction us) auto
  then have "after_partial_line s = vs" by (simp add: after_partial_line_def s)
  then show ?thesis
    using split_lines_append [of "xs @ us" vs] by (intro exI [of _ "split_lines ((xs @ us) @ [newline])"]) (simp add: s)
next
  case False
  then have "dropWhile (\<lambda>c. c \<noteq> newline) s = []" by (induction s) auto
  then have "split_lines (after_partial_line s) = []"
    by (simp only: after_partial_line_def drop_Nil split_lines.simps)
  then show ?thesis by simp
qed

lemma tail_lines_suffix:
  "\<exists>pre. split_lines content = pre @ split_lines (after_partial_line (drop k content))"
  using after_partial_suffix [of "take k content" "drop k content"] by simp


definition sample_parse :: "string \<Rightarrow> checkpoint option" where
  "sample_parse line =
     (if length line = 6
      then Some \<lparr>cp_building_id = take 4 line, cp_ts = Aware 0 0,
                 cp_last_seq = int (undigit (line ! 5)), cp_head_sig = []\<rparr>
      else None)"


end
