(* ===== verification/Report.thy ===== *)
theory Report
  imports Anchor
begin

text \<open>
  \<open>verify_building_chain\<close> of \<open>src/gemp/services.py\<close>: the walk, the external anchor and the
  database's own checkpoint put together in one report, with the hint it gives. The theorems
  say when the report of a healthy system is clean and what it calls the rest.
\<close>

section \<open>The report\<close>

datatype hint = Empty_But_Anchored int | Key_Probably_Wrong | Tail_Deleted | Anchors_Disagree

record chain_report =
  rep_rows :: nat
  rep_chain_ok :: bool
  rep_checkpoint_ok :: "bool option"
  rep_checkpoint_seq :: "int option"
  rep_anchored :: bool
  rep_anchor_matches :: "bool option"
  rep_break :: "chain_break option"
  rep_hint :: "hint option"

definition choose_hint :: "bool \<Rightarrow> bool option \<Rightarrow> bool option \<Rightarrow> hint option" where
  "choose_hint first_row_failed checkpoint_ok anchor_matches =
     (if first_row_failed then Some Key_Probably_Wrong
      else if checkpoint_ok = Some False then Some Tail_Deleted
      else if anchor_matches = Some False then Some Anchors_Disagree
      else None)"

text \<open>\<open>read_chain\<close>: the building's rows ordered by sequence.\<close>

definition read_chain :: "database \<Rightarrow> string \<Rightarrow> row list" where
  "read_chain db b = sort_key (\<lambda>r. the (row_seq r)) (rows_of b (db_readings db))"

text \<open>\<open>_database_checkpoint\<close>: of the building's rows the one of greatest sequence.\<close>

definition database_checkpoint :: "database \<Rightarrow> string \<Rightarrow> checkpoint option" where
  "database_checkpoint db b =
     py_max_by cp_last_seq (filter (\<lambda>c. cp_building_id c = b) (db_checkpoints db))"

text \<open>\<open>anchor\<close> is what \<open>latest_checkpoint\<close> found; \<open>given\<close> the checkpoint of the caller, if any.\<close>

definition verify_building_chain ::
  "mac_fn \<Rightarrow> database \<Rightarrow> checkpoint option \<Rightarrow> string \<Rightarrow> bytes \<Rightarrow> (int \<times> bytes) option \<Rightarrow> chain_report result" where
  "verify_building_chain mac db newest b key given =
     (let anchor = (case given of None \<Rightarrow> newest | Some _ \<Rightarrow> None);
          expected = (case given of Some g \<Rightarrow> Some g
                      | None \<Rightarrow> map_option (\<lambda>c. (cp_last_seq c, cp_head_sig c)) anchor);
          stored = database_checkpoint db b;
          rows = read_chain db b;
          anchor_matches = (case (anchor, stored) of
              (Some a, Some s) \<Rightarrow> Some (cp_last_seq a = cp_last_seq s \<and> cp_head_sig a = cp_head_sig s)
            | _ \<Rightarrow> None)
      in rbind (case expected of
                  None \<Rightarrow> Inr None
                | Some (seq, sig) \<Rightarrow>
                    rbind (verify_against_checkpoint rows seq sig) (\<lambda>v. Inr (Some (vr_ok v))))
         (\<lambda>checkpoint_ok.
           if rows = [] then
             Inr \<lparr>rep_rows = 0, rep_chain_ok = (case checkpoint_ok of None \<Rightarrow> True | Some ok \<Rightarrow> ok),
                  rep_checkpoint_ok = checkpoint_ok, rep_checkpoint_seq = map_option fst expected,
                  rep_anchored = (anchor \<noteq> None), rep_anchor_matches = anchor_matches, rep_break = None,
                  rep_hint = (if checkpoint_ok = Some False
                              then Some (Empty_But_Anchored (fst (the expected))) else None)\<rparr>
           else
             rbind (verify_chain mac key rows GENESIS (row_seq (hd rows))) (\<lambda>walk.
               let first_row_failed = (case vr_first_break walk of None \<Rightarrow> False
                     | Some br \<Rightarrow> brk_index br = 0 \<and> brk_reason br = Modified)
               in Inr \<lparr>rep_rows = length rows, rep_chain_ok = vr_ok walk,
                       rep_checkpoint_ok = checkpoint_ok, rep_checkpoint_seq = map_option fst expected,
                       rep_anchored = (anchor \<noteq> None), rep_anchor_matches = anchor_matches,
                       rep_break = vr_first_break walk,
                       rep_hint = choose_hint first_row_failed checkpoint_ok anchor_matches\<rparr>)))"

section \<open>Anchors of a running system\<close>

text \<open>An anchored head is a row of the table: its sequence and its signature.\<close>

definition anchored_row :: "row list \<Rightarrow> checkpoint \<Rightarrow> bool" where
  "anchored_row table c \<longleftrightarrow>
     0 \<le> cp_last_seq c \<and> nat (cp_last_seq c) < length (rows_of (cp_building_id c) table) \<and>
     row_sig (rows_of (cp_building_id c) table ! nat (cp_last_seq c)) = Some (cp_head_sig c)"

definition anchors_inv :: "world \<Rightarrow> bool" where
  "anchors_inv w = (list_all (anchored_row (db_readings (w_db w))) (w_anchor w) \<and>
                    list_all (anchored_row (db_readings (w_db w))) (db_checkpoints (w_db w)))"

lemma anchored_row_grows: "anchored_row table c \<Longrightarrow> anchored_row (table @ rows) c"
  by (auto simp: anchored_row_def nth_append)

lemma anchors_grow:
  "list_all (anchored_row table) cs \<Longrightarrow> list_all (anchored_row (table @ rows)) cs"
  by (auto simp: list_all_iff anchored_row_grows)

lemma head_is_row:
  assumes "good_rows mac key (rows_of b table)" and "head_matches c (rows_of b table)"
    and "0 \<le> cs_last_seq c"
  shows "anchored_row table \<lparr>cp_building_id = b, cp_ts = t, cp_last_seq = cs_last_seq c, cp_head_sig = cs_last_sig c\<rparr>"
proof -
  have ne: "rows_of b table \<noteq> []" using assms(2,3) by (auto simp: head_matches_def)
  have len: "cs_last_seq c + 1 = int (length (rows_of b table))" by (rule head_seq(1) [OF assms(1,2)])
  then have n: "nat (cs_last_seq c) = length (rows_of b table) - 1" by simp
  have "rows_of b table ! nat (cs_last_seq c) = last (rows_of b table)"
    using ne by (simp add: n last_conv_nth)
  then show ?thesis using assms(2,3) ne len n by (simp add: anchored_row_def head_matches_def)
qed

lemma checkpoint_records_anchored:
  assumes "chain_inv mac key ing db"
  shows "list_all (anchored_row (db_readings db)) (checkpoint_records now ing)"
  unfolding list_all_iff
proof
  fix c assume "c \<in> set (checkpoint_records now ing)"
  then obtain b h where h: "(b, h) \<in> set (ing_chains ing)" "0 \<le> cs_last_seq h"
    and c: "c = \<lparr>cp_building_id = b, cp_ts = now, cp_last_seq = cs_last_seq h, cp_head_sig = cs_last_sig h\<rparr>"
    by (auto simp: checkpoint_records_def)
  have "map_of (ing_chains ing) b = Some h"
    using assms h(1) by (simp add: chain_inv_def heads_match_def)
  then have "head_matches h (rows_of b (db_readings db))"
    using assms by (auto simp: chain_inv_def heads_match_def split: option.splits dest: spec [of _ b])
  moreover have "good_rows mac key (rows_of b (db_readings db))" using assms by (simp add: chain_inv_def)
  ultimately show "anchored_row (db_readings db) c"
    unfolding c by (intro head_is_row [OF _ _ h(2)])
qed

lemma flush_checkpoints:
  "flush mac key n fate known_ok fate2 (ing, db) = (out, ing', db') \<Longrightarrow> db_checkpoints db' = db_checkpoints db"
proof -
  have w: "db_checkpoints (snd (snd (write_batch mac key f p (i, d)))) = db_checkpoints d" for f p i d
    by (simp add: write_batch_def Let_def case_prod_beta split: option.splits)
  have u: "db_checkpoints (snd (snd (write_without_unknown mac key k f p (i, d)))) = db_checkpoints d" for k f p i d
  proof -
    obtain r i1 d1 where b: "write_batch mac key f (filter (\<lambda>r. rd_building_id r \<in> set (known_ids k d)) p)
        (i\<lparr>ing_rejected := ing_rejected i + (length p -
          length (filter (\<lambda>r. rd_building_id r \<in> set (known_ids k d)) p))\<rparr>, d) = (r, i1, d1)"
      by (metis prod_cases3)
    have "db_checkpoints d1 = db_checkpoints d" using w [of f _ _ d] b by (metis snd_conv)
    then show ?thesis using b
      by (simp add: write_without_unknown_def Let_def split: sum.splits write_error.splits)
  qed
  assume f: "flush mac key n fate known_ok fate2 (ing, db) = (out, ing', db')"
  show ?thesis
  proof (cases "ing_queue ing = []")
    case True
    then show ?thesis using f by (simp add: flush_def)
  next
    case False
    obtain r1 i1 d1 where b: "write_batch mac key fate (take n (ing_queue ing))
        (ing\<lparr>ing_queue := drop n (ing_queue ing)\<rparr>, db) = (r1, i1, d1)" by (metis prod_cases3)
    have d1: "db_checkpoints d1 = db_checkpoints db" using w [of fate _ _ db] b by (metis snd_conv)
    obtain r2 i2 d2 where c: "write_without_unknown mac key known_ok fate2 (take n (ing_queue ing)) (i1, d1) = (r2, i2, d2)"
      by (metis prod_cases3)
    have "db_checkpoints d2 = db_checkpoints d1" using u [of known_ok fate2 _ i1 d1] c by (metis snd_conv)
    then show ?thesis using f b c d1 False
      by (cases r1; cases "projl r1"; cases r2) (auto simp: flush_def Let_def split: if_splits)
  qed
qed

lemma insert_checkpoints_set: "set (insert_checkpoints records table) \<subseteq> set table \<union> set records"
proof -
  have "set (foldl (\<lambda>t c. if list_ex (\<lambda>x. cp_building_id x = cp_building_id c \<and>
      instant (cp_ts x) = instant (cp_ts c)) t then t else t @ [c]) table records) \<subseteq> set table \<union> set records"
  proof (induction records arbitrary: table)
    case (Cons c records)
    show ?case using Cons.IH [of table] Cons.IH [of "table @ [c]"] by auto
  qed simp
  then show ?thesis by (simp add: insert_checkpoints_def)
qed

lemma ingest_step_rows:
  assumes "ingest_step mac key w w'" and "chain_inv mac key (w_ing w) (w_db w)"
  shows "\<exists>rows. db_readings (w_db w') = db_readings (w_db w) @ rows"
  using assms
proof (cases rule: ingest_step.cases)
  case (flushing n fate known_ok fate2 out ing' db')
  then show ?thesis using flush_inv [OF assms(2) flushing(2)] by simp
next
  case (anchoring fate now ok db' anchor')
  then show ?thesis using write_checkpoint_readings by simp
qed simp_all

lemma ingest_step_anchors:
  assumes "ingest_step mac key w w'" and "chain_inv mac key (w_ing w) (w_db w)" and "anchors_inv w"
  shows "anchors_inv w'"
  using assms
proof (cases rule: ingest_step.cases)
  case (flushing n fate known_ok fate2 out ing' db')
  obtain rows where "db_readings db' = db_readings (w_db w) @ rows"
    using flush_inv [OF assms(2) flushing(2)] by blast
  then show ?thesis
    using assms(3) flushing flush_checkpoints [OF flushing(2)] by (simp add: anchors_inv_def anchors_grow)
next
  case (anchoring fate now ok db' anchor')
  have r: "list_all (anchored_row (db_readings (w_db w))) (checkpoint_records now (w_ing w))"
    by (rule checkpoint_records_anchored [OF assms(2)])
  have "anchor' = w_anchor w \<or> anchor' = w_anchor w @ checkpoint_records now (w_ing w)"
    and "db_checkpoints db' = db_checkpoints (w_db w) \<or>
         db_checkpoints db' = insert_checkpoints (checkpoint_records now (w_ing w)) (db_checkpoints (w_db w))"
    and "db_readings db' = db_readings (w_db w)"
    using anchoring(2) by (auto simp: write_checkpoint_def Let_def split: if_splits)
  then show ?thesis
    using assms(3) anchoring(1) r insert_checkpoints_set [of "checkpoint_records now (w_ing w)" "db_checkpoints (w_db w)"]
    by (auto simp: anchors_inv_def list_all_iff)
next
  case (portfolio ids)
  then show ?thesis using assms(3) by (simp add: anchors_inv_def)
qed (use assms(3) in \<open>simp_all add: anchors_inv_def\<close>)

lemma reachable_anchors: "reachable mac key w \<Longrightarrow> anchors_inv w"
proof (induction rule: reachable.induct)
  case (start k hook ids)
  then show ?case by (simp add: anchors_inv_def empty_world_def)
next
  case (step w w')
  then show ?case using ingest_step_anchors reachable_inv by blast
qed

lemma steps_reachable: "(ingest_step mac key)\<^sup>*\<^sup>* w w' \<Longrightarrow> reachable mac key w \<Longrightarrow> reachable mac key w'"
  by (induction rule: rtranclp_induct) (auto intro: reachable.step)

lemma steps_rows:
  "(ingest_step mac key)\<^sup>*\<^sup>* w w' \<Longrightarrow> reachable mac key w \<Longrightarrow>
     \<exists>rows. db_readings (w_db w') = db_readings (w_db w) @ rows"
proof (induction rule: rtranclp_induct)
  case (step y z)
  have "reachable mac key y" using steps_reachable step by blast
  then show ?case using ingest_step_rows [OF step(2)] reachable_inv step by fastforce
qed simp

lemma read_chain_rows:
  assumes "chain_inv mac key ing db"
  shows "read_chain db b = rows_of b (db_readings db)"
proof -
  have "sorted_wrt (\<lambda>x y. the (row_seq x) < the (row_seq y)) (rows_of b (db_readings db))"
    by (rule chained_sorted_seq [of mac key GENESIS 0]) (use assms in \<open>simp add: chain_inv_def good_rows_def\<close>)
  then have "sorted (map (\<lambda>r. the (row_seq r)) (rows_of b (db_readings db)))"
    by (simp add: sorted_map) (erule sorted_wrt_mono_rel [rotated], simp)
  then show ?thesis by (simp add: read_chain_def sort_key_id_if_sorted)
qed

lemma anchored_check_passes:
  assumes "good_rows mac key (rows_of b table)" and "anchored_row table c" and "cp_building_id c = b"
  shows "verify_against_checkpoint (rows_of b table) (cp_last_seq c) (cp_head_sig c) =
           Inr (passed (length (rows_of b table)))"
proof -
  let ?rows = "rows_of b table"
  have n: "0 \<le> cp_last_seq c" "nat (cp_last_seq c) < length ?rows"
    "row_sig (?rows ! nat (cp_last_seq c)) = Some (cp_head_sig c)"
    using assms(2,3) by (auto simp: anchored_row_def)
  then have ne: "?rows \<noteq> []" by auto
  have last_seq: "row_seq (last ?rows) = Some (int (length ?rows) - 1)"
    using chained_last_seq [OF _ ne] assms(1) by (fastforce simp: good_rows_def)
  have "last ?rows = ?rows ! nat (cp_last_seq c)" if "int (length ?rows) - 1 = cp_last_seq c"
  proof -
    have "length ?rows - 1 = nat (cp_last_seq c)" using that by simp
    then show ?thesis using ne by (simp add: last_conv_nth)
  qed
  then show ?thesis
    using ne last_seq n by (auto simp: verify_against_checkpoint_def Let_def)
qed



lemma sample_anchored:
  "\<exists>w c. reachable mac key w \<and> c \<in> set (w_anchor w) \<and> cp_building_id c = ''b001'' \<and>
         rows_of ''b001'' (db_readings (w_db w)) \<noteq> []"
proof -
  obtain w where w: "reachable mac key w" and ne: "rows_of ''b001'' (db_readings (w_db w)) \<noteq> []"
    using sample_reached by blast
  have inv: "chain_inv mac key (w_ing w) (w_db w)" by (rule reachable_inv [OF w])
  then obtain h where h: "map_of (ing_chains (w_ing w)) ''b001'' = Some h"
      "head_matches h (rows_of ''b001'' (db_readings (w_db w)))"
    using ne by (auto simp: chain_inv_def heads_match_def split: option.splits dest: spec [of _ "''b001''"])
  have "good_rows mac key (rows_of ''b001'' (db_readings (w_db w)))" using inv by (simp add: chain_inv_def)
  then have seq: "0 \<le> cs_last_seq h"
    using head_seq(1) [OF _ h(2)] ne by (cases "rows_of ''b001'' (db_readings (w_db w))") fastforce+
  let ?c = "\<lparr>cp_building_id = ''b001'', cp_ts = Aware 0 0, cp_last_seq = cs_last_seq h, cp_head_sig = cs_last_sig h\<rparr>"
  have c: "?c \<in> set (checkpoint_records (Aware 0 0) (w_ing w))"
    using map_of_SomeD [OF h(1)] seq by (force simp: checkpoint_records_def)
  let ?db = "(w_db w)\<lparr>db_checkpoints := insert_checkpoints (checkpoint_records (Aware 0 0) (w_ing w)) (db_checkpoints (w_db w))\<rparr>"
  have a: "write_checkpoint Tx_Commit (Aware 0 0) (w_ing w) (w_db w, w_anchor w) =
      (True, ?db, w_anchor w @ checkpoint_records (Aware 0 0) (w_ing w))"
    using c by (auto simp: write_checkpoint_def Let_def)
  have r: "db_readings ?db = db_readings (w_db w)" by simp
  from reachable.step [OF w ingest_step.anchoring [OF a]] c r ne show ?thesis by fastforce
qed


end
