(* ===== verification/Loop.thy ===== *)
theory Loop
  imports Report
begin

text \<open>
  \<open>Ingester.run\<close> of \<open>src/gemp/ingest/consumer.py\<close>: the loop that decides when to flush and
  when to anchor, what it does with an operation that raised, and its shutdown. The loop
  refines the step relation of \<open>Ingest\<close>, so every theorem on reachable states is one on runs.
  An iteration is given what the outside contributes to it: the messages the broker thread
  handled since the last one, the two clocks, the fate of the transactions, and whether a
  signal asked for the end.
\<close>

section \<open>One iteration\<close>

definition CHECKPOINT_EVERY_S :: rat where "CHECKPOINT_EVERY_S = 60"

record iteration =
  it_messages :: "json option list"
  it_now :: rat
  it_wall :: datetime
  it_fate :: tx
  it_known_ok :: bool
  it_fate2 :: tx
  it_anchor_fate :: tx
  it_stop :: bool

record loop =
  lp_world :: world
  lp_last_flush :: rat
  lp_last_checkpoint :: rat
  lp_write_failures :: nat
  lp_running :: bool

record loop_settings =
  ls_batch_rows :: nat
  ls_batch_seconds :: rat
  ls_started :: rat
  ls_max_seconds :: "rat option"

definition receive_all :: "stdlib \<Rightarrow> json option list \<Rightarrow> world \<Rightarrow> world" where
  "receive_all lib msgs w = foldl (\<lambda>v m. v\<lparr>w_ing := snd (on_message lib m (w_ing v))\<rparr>) w msgs"

definition flush_due :: "loop_settings \<Rightarrow> rat \<Rightarrow> loop \<Rightarrow> bool" where
  "flush_due s now l =
     (length (ing_queue (w_ing (lp_world l))) \<ge> ls_batch_rows s \<or>
      now - lp_last_flush l \<ge> ls_batch_seconds s)"

text \<open>
  The body of the \<open>try\<close>: \<open>False\<close> when an exception left it. What ran before the exception
  stays done.
\<close>

definition try_flush ::
  "mac_fn \<Rightarrow> bytes \<Rightarrow> loop_settings \<Rightarrow> iteration \<Rightarrow> loop \<Rightarrow> bool \<times> loop" where
  "try_flush mac key s i l =
     (if flush_due s (it_now i) l then
        (case flush mac key (ls_batch_rows s) (it_fate i) (it_known_ok i) (it_fate2 i)
                (w_ing (lp_world l), w_db (lp_world l)) of
           (out, ing, db) \<Rightarrow>
             let l1 = l\<lparr>lp_world := (lp_world l)\<lparr>w_ing := ing, w_db := db\<rparr>\<rparr>
             in if out = None then (False, l1)
                else (True, l1\<lparr>lp_last_flush := it_now i, lp_write_failures := 0\<rparr>))
      else (True, l))"

definition try_checkpoint :: "iteration \<Rightarrow> loop \<Rightarrow> bool \<times> loop" where
  "try_checkpoint i l =
     (if it_now i - lp_last_checkpoint l \<ge> CHECKPOINT_EVERY_S then
        (case write_checkpoint (it_anchor_fate i) (it_wall i) (w_ing (lp_world l))
                (w_db (lp_world l), w_anchor (lp_world l)) of
           (ok, db, anchor) \<Rightarrow>
             let l1 = l\<lparr>lp_world := (lp_world l)\<lparr>w_db := db, w_anchor := anchor\<rparr>\<rparr>
             in if ok then (True, l1\<lparr>lp_last_checkpoint := it_now i\<rparr>) else (False, l1))
      else (True, l))"

definition caught_failure :: "iteration \<Rightarrow> loop \<Rightarrow> loop" where
  "caught_failure i l =
     l\<lparr>lp_write_failures := lp_write_failures l + 1, lp_last_flush := it_now i\<rparr>"

definition try_work :: "mac_fn \<Rightarrow> bytes \<Rightarrow> loop_settings \<Rightarrow> iteration \<Rightarrow> loop \<Rightarrow> loop" where
  "try_work mac key s i l =
     (case try_flush mac key s i l of
        (False, l1) \<Rightarrow> caught_failure i l1
      | (True, l1) \<Rightarrow>
          (case try_checkpoint i l1 of
             (False, l2) \<Rightarrow> caught_failure i l2
           | (True, l2) \<Rightarrow> l2))"

definition over_time :: "loop_settings \<Rightarrow> rat \<Rightarrow> bool" where
  "over_time s now = (case ls_max_seconds s of None \<Rightarrow> False | Some m \<Rightarrow> now - ls_started s \<ge> m)"

definition run_pass ::
  "mac_fn \<Rightarrow> bytes \<Rightarrow> stdlib \<Rightarrow> loop_settings \<Rightarrow> iteration \<Rightarrow> loop \<Rightarrow> loop" where
  "run_pass mac key lib s i l =
     (let l0 = l\<lparr>lp_world := receive_all lib (it_messages i) (lp_world l)\<rparr>;
          l1 = try_work mac key s i l0
      in if it_stop i \<or> over_time s (it_now i) then l1\<lparr>lp_running := False\<rparr> else l1)"

text \<open>The loop over the iterations the outside offers; it ends with them at the latest.\<close>

fun run_passes ::
  "mac_fn \<Rightarrow> bytes \<Rightarrow> stdlib \<Rightarrow> loop_settings \<Rightarrow> iteration list \<Rightarrow> loop \<Rightarrow> loop" where
  "run_passes mac key lib s [] l = l"
| "run_passes mac key lib s (i # is) l =
     (if lp_running l then run_passes mac key lib s is (run_pass mac key lib s i l) else l)"

text \<open>The shutdown: a last flush and a last anchor, each tried whatever the other did.\<close>

definition shutdown :: "mac_fn \<Rightarrow> bytes \<Rightarrow> loop_settings \<Rightarrow> iteration \<Rightarrow> world \<Rightarrow> world" where
  "shutdown mac key s i w =
     (case flush mac key (ls_batch_rows s) (it_fate i) (it_known_ok i) (it_fate2 i) (w_ing w, w_db w) of
        (_, ing, db) \<Rightarrow>
          (case write_checkpoint (it_anchor_fate i) (it_wall i) ing (db, w_anchor w) of
             (_, db2, anchor) \<Rightarrow> w\<lparr>w_ing := ing, w_db := db2, w_anchor := anchor\<rparr>))"

definition start_loop :: "loop_settings \<Rightarrow> world \<Rightarrow> loop" where
  "start_loop s w =
     \<lparr>lp_world = w\<lparr>w_ing := warm_detector (w_db w) (load_chain_heads (w_db w) (w_ing w))\<rparr>,
      lp_last_flush = ls_started s, lp_last_checkpoint = ls_started s, lp_write_failures = 0,
      lp_running = True\<rparr>"

definition run ::
  "mac_fn \<Rightarrow> bytes \<Rightarrow> stdlib \<Rightarrow> loop_settings \<Rightarrow> iteration list \<Rightarrow> iteration \<Rightarrow> world \<Rightarrow> world" where
  "run mac key lib s is last_iteration w =
     shutdown mac key s last_iteration
       (lp_world (run_passes mac key lib s is (start_loop s w)))"

section \<open>The loop refines the step relation\<close>

abbreviation steps :: "mac_fn \<Rightarrow> bytes \<Rightarrow> world \<Rightarrow> world \<Rightarrow> bool" where
  "steps mac key \<equiv> (ingest_step mac key)\<^sup>*\<^sup>*"

lemma receive_all_steps: "steps mac key w (receive_all lib msgs w)"
proof (induction msgs arbitrary: w)
  case (Cons m msgs)
  have "ingest_step mac key w (w\<lparr>w_ing := snd (on_message lib m (w_ing w))\<rparr>)"
    by (rule ingest_step.receive [of lib m w "fst (on_message lib m (w_ing w))"]) simp
  then show ?case using Cons.IH by (simp add: receive_all_def converse_rtranclp_into_rtranclp)
qed (simp add: receive_all_def)

lemma flush_step:
  "flush mac key n fate known_ok fate2 (w_ing w, w_db w) = (out, ing, db) \<Longrightarrow>
     steps mac key w (w\<lparr>w_ing := ing, w_db := db\<rparr>)"
  by (rule r_into_rtranclp, rule ingest_step.flushing)

lemma checkpoint_step:
  "write_checkpoint fate now (w_ing w) (w_db w, w_anchor w) = (ok, db, anchor) \<Longrightarrow>
     steps mac key w (w\<lparr>w_db := db, w_anchor := anchor\<rparr>)"
  by (rule r_into_rtranclp, rule ingest_step.anchoring)

lemma try_flush_steps: "steps mac key (lp_world l) (lp_world (snd (try_flush mac key s i l)))"
  using flush_step [of mac key "ls_batch_rows s" "it_fate i" "it_known_ok i" "it_fate2 i" "lp_world l"]
  by (auto simp: try_flush_def Let_def split: prod.splits)

lemma try_checkpoint_steps: "steps mac key (lp_world l) (lp_world (snd (try_checkpoint i l)))"
  using checkpoint_step [of "it_anchor_fate i" "it_wall i" "lp_world l" _ _ _ mac key]
  by (auto simp: try_checkpoint_def Let_def split: prod.splits)

lemma try_work_steps: "steps mac key (lp_world l) (lp_world (try_work mac key s i l))"
proof -
  obtain ok l1 where f: "try_flush mac key s i l = (ok, l1)" by (rule prod.exhaust)
  obtain ok2 l2 where c: "try_checkpoint i l1 = (ok2, l2)" by (rule prod.exhaust)
  have "steps mac key (lp_world l) (lp_world l1)" "steps mac key (lp_world l1) (lp_world l2)"
    using try_flush_steps [of mac key l s i] try_checkpoint_steps [of mac key l1 i] f c by simp_all
  then show ?thesis using f c
    by (cases ok; cases ok2) (auto simp: try_work_def caught_failure_def)
qed

lemma run_pass_steps: "steps mac key (lp_world l) (lp_world (run_pass mac key lib s i l))"
  using receive_all_steps [of mac key "lp_world l" lib "it_messages i"]
    try_work_steps [of mac key "l\<lparr>lp_world := receive_all lib (it_messages i) (lp_world l)\<rparr>" s i]
  by (auto simp: run_pass_def Let_def intro: rtranclp_trans)

lemma run_passes_steps: "steps mac key (lp_world l) (lp_world (run_passes mac key lib s is l))"
proof (induction "is" arbitrary: l)
  case (Cons i "is")
  then show ?case using run_pass_steps [of mac key l lib s i] by (simp add: rtranclp_trans)
qed simp

lemma shutdown_steps: "steps mac key w (shutdown mac key s i w)"
proof -
  obtain out ing db where f: "flush mac key (ls_batch_rows s) (it_fate i) (it_known_ok i) (it_fate2 i) (w_ing w, w_db w) =
    (out, ing, db)" by (metis prod_cases3)
  let ?w = "w\<lparr>w_ing := ing, w_db := db\<rparr>"
  obtain ok db2 anchor where c: "write_checkpoint (it_anchor_fate i) (it_wall i) (w_ing ?w) (w_db ?w, w_anchor ?w) =
    (ok, db2, anchor)" by (metis prod_cases3)
  show ?thesis using rtranclp_trans [OF flush_step [OF f] checkpoint_step [OF c]] f c
    by (simp add: shutdown_def)
qed

lemma run_reachable:
  assumes "reachable mac key w"
  shows "reachable mac key (run mac key lib s is i (w\<lparr>w_ing := fresh_ingester k hook\<rparr>))"
proof -
  let ?l = "start_loop s (w\<lparr>w_ing := fresh_ingester k hook\<rparr>)"
  have "reachable mac key (lp_world ?l)"
    using reachable.step [OF assms ingest_step.restart [of mac key w k hook]] by (simp add: start_loop_def)
  from steps_reachable [OF run_passes_steps this]
  have "reachable mac key (lp_world (run_passes mac key lib s is ?l))" .
  from steps_reachable [OF shutdown_steps this] show ?thesis by (simp add: run_def)
qed


section \<open>What a pass leaves anchored\<close>

lemma newest_record:
  assumes "chain_inv mac key ing db" and "rows_of b (db_readings db) \<noteq> []"
  shows "\<lparr>cp_building_id = b, cp_ts = now, cp_last_seq = the (row_seq (last (rows_of b (db_readings db)))),
          cp_head_sig = the (row_sig (last (rows_of b (db_readings db))))\<rparr> \<in> set (checkpoint_records now ing)"
proof -
  obtain h where h: "map_of (ing_chains ing) b = Some h" "head_matches h (rows_of b (db_readings db))"
    using assms by (auto simp: chain_inv_def heads_match_def split: option.splits dest: spec [of _ b])
  have good: "good_rows mac key (rows_of b (db_readings db))" using assms(1) by (simp add: chain_inv_def)
  have seq: "cs_last_seq h \<ge> 0"
    using head_seq(1) [OF good h(2)] assms(2) by (cases "rows_of b (db_readings db)") simp_all
  then show ?thesis
    using map_of_SomeD [OF h(1)] h(2) assms(2) by (force simp: checkpoint_records_def head_matches_def)
qed


definition sample_iteration :: iteration where
  "sample_iteration =
     \<lparr>it_messages = [Some (sample_payload (JText ''1970-01-01T00:15'') ''sim'')], it_now = 60, it_wall = Aware 0 0,
      it_fate = Tx_Commit, it_known_ok = True, it_fate2 = Tx_Commit, it_anchor_fate = Tx_Commit, it_stop = False\<rparr>"

definition sample_settings :: loop_settings where
  "sample_settings = \<lparr>ls_batch_rows = 10, ls_batch_seconds = 2, ls_started = 0, ls_max_seconds = None\<rparr>"

definition sample_world :: world where
  "sample_world = empty_world 8 (new_webhook (\<lambda>_. ([], [])) None ''critical'') [''b001'']"

definition sample_loop :: loop where
  "sample_loop =
     \<lparr>lp_world = sample_world, lp_last_flush = 0, lp_last_checkpoint = 0, lp_write_failures = 0, lp_running = True\<rparr>"

lemma sample_world_reached: "reachable mac key sample_world"
  by (simp add: sample_world_def reachable.start)

lemma sample_received_world:
  "receive_all sample_lib (it_messages sample_iteration) sample_world = sample_world\<lparr>w_ing := sample_received ''sim''\<rparr>"
proof -
  have "w_ing sample_world = sample_ingester" by (simp add: sample_world_def empty_world_def sample_ingester_def)
  then show ?thesis using sample_receive by (simp add: receive_all_def sample_iteration_def)
qed

lemma sample_pass:
  "lp_write_failures (run_pass mac key sample_lib sample_settings sample_iteration sample_loop) = 0 \<and>
   rows_of ''b001'' (db_readings (w_db (lp_world
     (run_pass mac key sample_lib sample_settings sample_iteration sample_loop)))) \<noteq> []"
proof -
  let ?l0 = "sample_loop\<lparr>lp_world := sample_world\<lparr>w_ing := sample_received ''sim''\<rparr>\<rparr>"
  have db: "w_db sample_world = sample_db" by (simp add: sample_world_def empty_world_def sample_db_def)
  obtain ing db1 where f: "flush mac key 10 Tx_Commit True Tx_Commit (sample_received ''sim'', sample_db) = (Some 1, ing, db1)"
    and r: "rows_of ''b001'' (db_readings db1) \<noteq> []"
    using sample_flush [of "''sim''" mac key] by (force simp: rows_of_def unsigned_row_def sample_reading_def)
  let ?l1 = "?l0\<lparr>lp_world := (lp_world ?l0)\<lparr>w_ing := ing, w_db := db1\<rparr>, lp_last_flush := 60, lp_write_failures := 0\<rparr>"
  have tf: "try_flush mac key sample_settings sample_iteration ?l0 = (True, ?l1)"
    using f db by (simp add: try_flush_def flush_due_def sample_settings_def sample_iteration_def sample_loop_def Let_def)
  obtain db2 anchor where c: "write_checkpoint Tx_Commit (Aware 0 0) ing (db1, w_anchor sample_world) = (True, db2, anchor)"
    by (cases "checkpoint_records (Aware 0 0) ing = []") (simp_all add: write_checkpoint_def Let_def)
  have d: "db_readings db2 = db_readings db1" by (rule write_checkpoint_readings [OF c])
  have tc: "try_checkpoint sample_iteration ?l1 =
      (True, ?l1\<lparr>lp_world := (lp_world ?l1)\<lparr>w_db := db2, w_anchor := anchor\<rparr>, lp_last_checkpoint := 60\<rparr>)"
    using c by (simp add: try_checkpoint_def CHECKPOINT_EVERY_S_def sample_iteration_def sample_loop_def Let_def)
  have w: "lp_world sample_loop = sample_world" by (simp add: sample_loop_def)
  show ?thesis using tf tc d r
    by (simp add: run_pass_def try_work_def w sample_received_world Let_def)
qed



end
