(* ===== verification/Throttle.thy ===== *)
theory Throttle
  imports Text
begin

text \<open>
  The login throttle of \<open>src/gemp/auth/service.py\<close>: failed attempts counted per key in
  windows that age out. \<open>_failures\<close> is a dictionary from keys to the times of failures,
  oldest first; \<open>now\<close> is the reading of the monotonic clock an operation makes. The
  operations are serialised by \<open>_throttle_lock\<close>.
\<close>

section \<open>Constants\<close>

definition MAX_FAILURES :: nat where "MAX_FAILURES = 5"
definition FAILURE_WINDOW :: rat where "FAILURE_WINDOW = 15 * 60"
definition LOCKOUT :: rat where "LOCKOUT = 15 * 60"
definition SHARED_IP_KEY :: string where "SHARED_IP_KEY = ''ip:_shared''"
definition MAX_SHARED_FAILURES :: nat where "MAX_SHARED_FAILURES = MAX_FAILURES * 10"
definition SHARED_DELAY_S :: rat where "SHARED_DELAY_S = 1"
definition MAX_CONCURRENT_SHARED_DELAYS :: nat where "MAX_CONCURRENT_SHARED_DELAYS = 8"
definition SWEEP_ABOVE_KEYS :: nat where "SWEEP_ABOVE_KEYS = 512"

section \<open>Which addresses name one client\<close>

text \<open>
  \<open>ipaddress.ip_address\<close> on text without a colon: a dotted quad of decimal octets without
  leading zeros. An address with a colon is the parameter \<open>v6\<close>: whether it is one, and
  whether any of the six tests of \<open>_distinguishing_ip\<close> holds of it.
\<close>

definition parse_octet :: "string \<Rightarrow> nat option" where
  "parse_octet s =
     (if s = [] \<or> list_ex (\<lambda>c. \<not> is_digit c) s \<or> length s > 3 then None
      else if length s > 1 \<and> hd s = CHR ''0'' then None
      else if read_nat s > 255 then None else Some (read_nat s))"

definition parse_ipv4 :: "string \<Rightarrow> nat option" where
  "parse_ipv4 s =
     (case map parse_octet (split_on CHR ''.'' s) of
        [Some a, Some b, Some c, Some d] \<Rightarrow> Some (((a * 256 + b) * 256 + c) * 256 + d)
      | _ \<Rightarrow> None)"

definition quad :: "nat \<Rightarrow> nat \<Rightarrow> nat \<Rightarrow> nat \<Rightarrow> nat" where
  "quad a b c d = ((a * 256 + b) * 256 + c) * 256 + d"

definition in_net :: "nat \<Rightarrow> nat \<times> nat \<Rightarrow> bool" where
  "in_net a net = (case net of (base, bits) \<Rightarrow> a div 2 ^ (32 - bits) = base div 2 ^ (32 - bits))"

definition private_networks :: "(nat \<times> nat) list" where
  "private_networks =
     [(quad 0 0 0 0, 8), (quad 10 0 0 0, 8), (quad 127 0 0 0, 8), (quad 169 254 0 0, 16),
      (quad 172 16 0 0, 12), (quad 192 0 0 0, 24), (quad 192 0 0 170, 31), (quad 192 0 2 0, 24),
      (quad 192 168 0 0, 16), (quad 198 18 0 0, 15), (quad 198 51 100 0, 24), (quad 203 0 113 0, 24),
      (quad 240 0 0 0, 4), (quad 255 255 255 255, 32)]"

definition private_exceptions :: "(nat \<times> nat) list" where
  "private_exceptions = [(quad 192 0 0 9, 32), (quad 192 0 0 10, 32)]"

definition shared_ipv4 :: "nat \<Rightarrow> bool" where
  "shared_ipv4 a =
     (list_ex (in_net a) private_networks \<and> \<not> list_ex (in_net a) private_exceptions \<or>
      in_net a (quad 127 0 0 0, 8) \<or> in_net a (quad 169 254 0 0, 16) \<or> a = 0 \<or>
      in_net a (quad 240 0 0 0, 4) \<or> in_net a (quad 224 0 0 0, 4))"

definition distinguishing_ip :: "(string \<Rightarrow> bool option) \<Rightarrow> string \<Rightarrow> bool" where
  "distinguishing_ip v6 ip =
     (if ip = [] then False
      else case (if CHR '':'' \<in> set ip then v6 ip else map_option shared_ipv4 (parse_ipv4 ip)) of
             None \<Rightarrow> False
           | Some shared \<Rightarrow> \<not> shared)"

section \<open>Windows\<close>

type_synonym failures = "(string \<times> rat list) list"

definition trim :: "rat list \<Rightarrow> rat \<Rightarrow> rat list" where
  "trim window now = dropWhile (\<lambda>t. t < now - FAILURE_WINDOW) window"

text \<open>\<open>_sweep\<close>: trims every window in place and forgets the keys whose window is empty.\<close>

definition sweep :: "rat \<Rightarrow> failures \<Rightarrow> failures" where
  "sweep now fs = filter (\<lambda>(_, w). w \<noteq> []) (map (\<lambda>(k, w). (k, trim w now)) fs)"

definition record_failure :: "string \<Rightarrow> rat \<Rightarrow> failures \<Rightarrow> failures" where
  "record_failure key now fs =
     (let fs1 = (if length fs > SWEEP_ABOVE_KEYS then sweep now fs else fs)
      in AList.update key (trim (dict_get fs1 key []) now @ [now]) fs1)"

definition retry_after :: "string \<Rightarrow> nat \<Rightarrow> rat \<Rightarrow> failures \<Rightarrow> int \<times> failures" where
  "retry_after key limit now fs =
     (case map_of fs key of
        None \<Rightarrow> (0, fs)
      | Some window \<Rightarrow>
          if window = [] then (0, fs)
          else let w = trim window now in
            if w = [] then (0, AList.delete key fs)
            else (if length w < limit then 0 else max 1 \<lfloor>LOCKOUT - (now - last w)\<rfloor>,
                  AList.update key w fs))"

definition clear_failures :: "string \<Rightarrow> failures \<Rightarrow> failures" where
  "clear_failures key fs = AList.delete key fs"

definition reset_throttle :: "failures \<Rightarrow> failures" where "reset_throttle fs = []"

section \<open>Keys\<close>

definition normalise_username :: "string \<Rightarrow> string" where
  "normalise_username username = lower (strip username)"

definition user_key :: "string \<Rightarrow> string" where
  "user_key username = ''user:'' @ normalise_username username"

definition lockout_keys :: "(string \<Rightarrow> bool option) \<Rightarrow> string \<Rightarrow> string \<Rightarrow> string list" where
  "lockout_keys v6 username ip =
     user_key username # (if distinguishing_ip v6 ip then [''ip:'' @ ip] else [])"

definition login_throttle_keys :: "(string \<Rightarrow> bool option) \<Rightarrow> string \<Rightarrow> string \<Rightarrow> string list" where
  "login_throttle_keys v6 username ip =
     lockout_keys v6 username ip @ (if distinguishing_ip v6 ip then [] else [SHARED_IP_KEY])"

text \<open>\<open>login_throttled\<close> asks every key, in order.\<close>

fun retry_all :: "string list \<Rightarrow> rat \<Rightarrow> failures \<Rightarrow> int list \<times> failures" where
  "retry_all [] now fs = ([], fs)"
| "retry_all (k # ks) now fs =
     (let (w, fs1) = retry_after k MAX_FAILURES now fs; (ws, fs2) = retry_all ks now fs1
      in (w # ws, fs2))"

definition login_throttled ::
  "(string \<Rightarrow> bool option) \<Rightarrow> string \<Rightarrow> string \<Rightarrow> rat \<Rightarrow> failures \<Rightarrow> int \<times> failures" where
  "login_throttled v6 username ip now fs =
     (let (ws, fs1) = retry_all (lockout_keys v6 username ip) now fs
      in (if ws = [] then 0 else Max (set ws), fs1))"

definition record_login_failure ::
  "(string \<Rightarrow> bool option) \<Rightarrow> string \<Rightarrow> string \<Rightarrow> rat \<Rightarrow> failures \<Rightarrow> failures" where
  "record_login_failure v6 username ip now fs =
     foldl (\<lambda>f k. record_failure k now f) fs (login_throttle_keys v6 username ip)"

text \<open>
  \<open>shared_spray_delay\<close>, and \<open>_pay_shared_delay\<close> as what it does to the bounded semaphore:
  it takes a slot and sleeps, or skips the delay when all slots are taken.
\<close>

definition shared_spray_delay :: "rat \<Rightarrow> failures \<Rightarrow> rat \<times> failures" where
  "shared_spray_delay now fs =
     (case map_of fs SHARED_IP_KEY of
        None \<Rightarrow> (0, fs)
      | Some window \<Rightarrow>
          if window = [] then (0, fs)
          else let w = trim window now
               in (if length w \<ge> MAX_SHARED_FAILURES then SHARED_DELAY_S else 0,
                   AList.update SHARED_IP_KEY w fs))"

definition acquire_delay :: "rat \<Rightarrow> nat \<Rightarrow> bool \<times> nat" where
  "acquire_delay delay sleeping =
     (if delay = 0 then (False, sleeping)
      else if sleeping < MAX_CONCURRENT_SHARED_DELAYS then (True, sleeping + 1)
      else (False, sleeping))"

definition release_delay :: "nat \<Rightarrow> nat" where "release_delay sleeping = sleeping - 1"


section \<open>The windows implement a log of failures\<close>

definition recent :: "rat \<Rightarrow> rat list \<Rightarrow> rat list" where
  "recent now past = filter (\<lambda>t. t \<ge> now - FAILURE_WINDOW) past"

definition spec_wait :: "nat \<Rightarrow> rat \<Rightarrow> rat list \<Rightarrow> int" where
  "spec_wait limit now past =
     (let w = recent now past
      in if length w < limit then 0 else max 1 \<lfloor>LOCKOUT - (now - last w)\<rfloor>)"

lemma trim_trim [simp]: "now \<le> later \<Longrightarrow> trim (trim w now) later = trim w later"
  by (induction w) (auto simp: trim_def)

lemma recent_recent: "now \<le> later \<Longrightarrow> recent later (recent now past) = recent later past"
  by (auto simp: recent_def intro: filter_cong)

lemma trim_sorted: "sorted w \<Longrightarrow> trim w now = recent now w"
proof (induction w)
  case (Cons t w)
  show ?case
  proof (cases "t < now - FAILURE_WINDOW")
    case True
    then show ?thesis using Cons by (simp add: trim_def recent_def)
  next
    case False
    then have "\<forall>x \<in> set (t # w). x \<ge> now - FAILURE_WINDOW" using Cons.prems by auto
    then have "filter (\<lambda>t. t \<ge> now - FAILURE_WINDOW) (t # w) = t # w" by (simp only: filter_True)
    then show ?thesis using False by (simp add: trim_def recent_def)
  qed
qed (simp add: trim_def recent_def)

lemma sorted_recent: "sorted past \<Longrightarrow> sorted (recent now past)"
  using sorted_filter [of "\<lambda>x. x" past] by (simp add: recent_def)

lemma trim_Nil [simp]: "trim [] now = []"
  by (simp add: trim_def)

lemma sweep_keys: "fst ` set (sweep now fs) \<subseteq> fst ` set fs"
  by (force simp: sweep_def)

lemma sweep_Cons:
  "sweep now ((k, w) # fs) = (if trim w now = [] then sweep now fs else (k, trim w now) # sweep now fs)"
  by (simp add: sweep_def)

lemma dict_get_sweep:
  "distinct (map fst fs) \<Longrightarrow> dict_get (sweep now fs) k [] = trim (dict_get fs k []) now"
proof (induction fs)
  case (Cons x fs)
  obtain k1 w1 where x: "x = (k1, w1)" by (cases x)
  have "map_of (sweep now fs) k1 = None"
    using Cons.prems x sweep_keys [of now fs] by (auto simp: map_of_eq_None_iff)
  then show ?case using Cons x by (auto simp: sweep_Cons dict_get_def)
qed (simp add: sweep_def dict_get_def)

lemma distinct_sweep: "distinct (map fst fs) \<Longrightarrow> distinct (map fst (sweep now fs))"
proof (induction fs)
  case (Cons x fs)
  obtain k1 w1 where x: "x = (k1, w1)" by (cases x)
  show ?case using Cons x sweep_keys [of now fs] by (auto simp: sweep_Cons)
qed (simp add: sweep_def)

lemma dict_get_update: "dict_get (AList.update k v d) j x = (if j = k then v else dict_get d j x)"
  by (simp add: dict_get_def dict_simps)

lemma dict_get_delete: "dict_get (AList.delete k d) j x = (if j = k then x else dict_get d j x)"
  by (simp add: dict_get_def dict_simps)

lemmas windows = dict_get_update dict_get_delete dict_get_sweep distinct_sweep distinct_update distinct_delete

text \<open>What an operation leaves of any window, as a later question sees it.\<close>

lemma record_failure_window:
  assumes "distinct (map fst fs)" and "now \<le> later"
  shows "trim (dict_get (record_failure key now fs) k []) later =
           (if k = key then trim (trim (dict_get fs k []) now @ [now]) later
            else trim (dict_get fs k []) later)"
    and "distinct (map fst (record_failure key now fs))"
  using assms by (simp_all add: record_failure_def Let_def windows)

lemma retry_after_window:
  assumes "now \<le> later"
  shows "trim (dict_get (snd (retry_after key limit now fs)) k []) later = trim (dict_get fs k []) later"
proof (cases "map_of fs key")
  case (Some w)
  then have w: "dict_get fs key [] = w" by (simp add: dict_get_def)
  have t: "trim (trim w now) later = trim w later" using assms by simp
  show ?thesis
    using Some w t by (cases "trim w now = []") (auto simp: retry_after_def Let_def windows)
qed (simp add: retry_after_def)

lemma retry_after_distinct:
  "distinct (map fst fs) \<Longrightarrow> distinct (map fst (snd (retry_after key limit now fs)))"
  by (auto simp: retry_after_def Let_def windows split: option.splits)

lemma retry_after_value:
  assumes "limit > 0"
  shows "fst (retry_after key limit now fs) =
           (let w = trim (dict_get fs key []) now
            in if length w < limit then 0 else max 1 \<lfloor>LOCKOUT - (now - last w)\<rfloor>)"
proof (cases "map_of fs key")
  case None
  then show ?thesis using assms by (simp add: retry_after_def dict_get_def)
next
  case (Some w)
  then have w: "dict_get fs key [] = w" by (simp add: dict_get_def)
  show ?thesis
    using Some assms unfolding w
    by (cases "w = []"; cases "trim w now = []") (simp_all add: retry_after_def Let_def)
qed


text \<open>
  The dictionary stands for a past: at a key, what it holds is what is recent in the past.
\<close>

definition stands_for :: "failures \<Rightarrow> rat \<Rightarrow> (string \<Rightarrow> rat list) \<Rightarrow> bool" where
  "stands_for fs now past \<longleftrightarrow>
     distinct (map fst fs) \<and>
     (\<forall>k. sorted (past k) \<and> (\<forall>t \<in> set (past k). t \<le> now) \<and>
          trim (dict_get fs k []) now = recent now (past k))"

lemma stands_for_later:
  assumes "stands_for fs now past" and "now \<le> later"
  shows "stands_for fs later past"
  unfolding stands_for_def
proof (intro conjI allI ballI)
  fix k t
  show "trim (dict_get fs k []) later = recent later (past k)"
  proof -
    have "trim (dict_get fs k []) later = trim (recent now (past k)) later"
      using assms trim_trim [OF assms(2), of "dict_get fs k []"] by (simp add: stands_for_def)
    also have "\<dots> = recent later (recent now (past k))"
      using assms(1) by (intro trim_sorted sorted_recent) (simp add: stands_for_def)
    finally show ?thesis by (simp add: recent_recent [OF assms(2)])
  qed
  show "t \<le> later" if "t \<in> set (past k)"
    using assms that unfolding stands_for_def by (meson order_trans)
qed (use assms in \<open>simp_all add: stands_for_def\<close>)

lemma stands_for_record:
  assumes "stands_for fs now past"
  shows "stands_for (record_failure key now fs) now (past(key := past key @ [now]))"
proof -
  have d: "distinct (map fst fs)" and w: "\<And>k. trim (dict_get fs k []) now = recent now (past k)"
    and s: "\<And>k. sorted (past k)" "\<And>k t. t \<in> set (past k) \<Longrightarrow> t \<le> now"
    using assms by (auto simp: stands_for_def)
  have "sorted (recent now (past key) @ [now])"
    using sorted_recent [OF s(1)] s(2) by (auto simp: sorted_append recent_def)
  then have "trim (recent now (past key) @ [now]) now = recent now (past key @ [now])"
    by (simp add: trim_sorted) (simp add: recent_def)
  then show ?thesis
    using s w record_failure_window [OF d order_refl, of key now]
    by (auto simp: stands_for_def sorted_append)
qed

lemma stands_for_retry:
  assumes "stands_for fs now past" and "limit > 0"
  shows "fst (retry_after key limit now fs) = spec_wait limit now (past key)"
    and "stands_for (snd (retry_after key limit now fs)) now past"
proof -
  show "fst (retry_after key limit now fs) = spec_wait limit now (past key)"
    using assms by (simp add: retry_after_value spec_wait_def stands_for_def)
  show "stands_for (snd (retry_after key limit now fs)) now past"
    using assms retry_after_window [OF order_refl, of key limit now fs] retry_after_distinct
    by (simp add: stands_for_def)
qed

lemma stands_for_clear:
  "stands_for fs now past \<Longrightarrow> stands_for (clear_failures key fs) now (past(key := []))"
  by (auto simp: stands_for_def clear_failures_def windows recent_def)

datatype throttle_op = Record string | Ask string nat | Clear string

fun throttle_step :: "rat \<times> throttle_op \<Rightarrow> failures \<Rightarrow> int option \<times> failures" where
  "throttle_step (now, Record key) fs = (None, record_failure key now fs)"
| "throttle_step (now, Ask key limit) fs =
     (let (wait, fs1) = retry_after key limit now fs in (Some wait, fs1))"
| "throttle_step (now, Clear key) fs = (None, clear_failures key fs)"

fun spec_step :: "rat \<times> throttle_op \<Rightarrow> (string \<Rightarrow> rat list) \<Rightarrow> int option \<times> (string \<Rightarrow> rat list)" where
  "spec_step (now, Record key) past = (None, past(key := past key @ [now]))"
| "spec_step (now, Ask key limit) past = (Some (spec_wait limit now (past key)), past)"
| "spec_step (now, Clear key) past = (None, past(key := []))"

fun answers :: "('o \<Rightarrow> 's \<Rightarrow> 'a \<times> 's) \<Rightarrow> 'o list \<Rightarrow> 's \<Rightarrow> 'a list" where
  "answers step [] s = []"
| "answers step (x # xs) s = (let (a, s1) = step x s in a # answers step xs s1)"

definition asks_something :: "throttle_op \<Rightarrow> bool" where
  "asks_something x = (case x of Ask _ limit \<Rightarrow> limit > 0 | _ \<Rightarrow> True)"

lemma throttle_step_spec:
  assumes "stands_for fs now past" and "now \<le> later" and "asks_something x"
  shows "fst (throttle_step (later, x) fs) = fst (spec_step (later, x) past) \<and>
         stands_for (snd (throttle_step (later, x) fs)) later (snd (spec_step (later, x) past))"
proof (cases x)
  case (Ask key limit)
  then have "limit > 0" using assms(3) by (simp add: asks_something_def)
  note retried = stands_for_retry [OF stands_for_later [OF assms(1,2)] this, of key]
  obtain wait fs1 where "retry_after key limit later fs = (wait, fs1)" by (rule prod.exhaust)
  then show ?thesis using retried unfolding Ask by simp
qed (use stands_for_later [OF assms(1,2)] in \<open>simp_all add: stands_for_record stands_for_clear\<close>)

lemma answers_spec:
  assumes "stands_for fs now past" and "sorted (now # map fst xs)" and "\<forall>x \<in> set xs. asks_something (snd x)"
  shows "answers throttle_step xs fs = answers spec_step xs past"
  using assms
proof (induction xs arbitrary: fs now past)
  case (Cons x xs)
  obtain later y where x: "x = (later, y)" by (cases x)
  have "now \<le> later" and "asks_something y" using Cons.prems x by auto
  from throttle_step_spec [OF Cons.prems(1) this] Cons.IH [of _ later] Cons.prems x
  show ?case by (auto simp: case_prod_beta Let_def)
qed simp

text \<open>
  C10: the throttle implements its specification. For any sequence of operations at times
  that do not go back - recording failures, asking how long to wait, clearing - the answers
  of the trimmed, swept dictionary are those of a log that never forgets: an attempt waits
  when the key has at least the limit of failures in the last fifteen minutes, and until
  fifteen minutes after the last of them.
\<close>
theorem throttle_refines_log:
  assumes "sorted (map fst xs)" and "\<forall>x \<in> set xs. asks_something (snd x)"
  shows "answers throttle_step xs [] = answers spec_step xs (\<lambda>_. [])"
proof (cases xs)
  case (Cons x ys)
  have "stands_for [] (fst x) (\<lambda>_. [])" by (simp add: stands_for_def dict_get_def recent_def)
  moreover have "sorted (fst x # map fst xs)" using assms(1) Cons by auto
  ultimately show ?thesis using assms(2) by (rule answers_spec)
qed simp

definition sample_ops :: "(rat \<times> throttle_op) list" where
  "sample_ops = map (\<lambda>n. (of_nat n, Record ''user:a'')) [0, 1, 2, 3, 4] @ [(10, Ask ''user:a'' 5), (2000, Ask ''user:a'' 5)]"

theorem throttle_refines_log_witness:
  "answers throttle_step sample_ops [] = [None, None, None, None, None, Some 894, Some 0] \<and>
   answers throttle_step sample_ops [] = answers spec_step sample_ops (\<lambda>_. [])"
proof -
  have "sorted (map fst sample_ops)" "\<forall>x \<in> set sample_ops. asks_something (snd x)"
    by (simp_all add: sample_ops_def asks_something_def)
  from throttle_refines_log [OF this] show ?thesis
    by (simp add: sample_ops_def Let_def spec_wait_def recent_def FAILURE_WINDOW_def LOCKOUT_def)
qed


section \<open>Guessing\<close>

text \<open>
  The checks \<open>authenticate\<close> makes before it looks at a password, which stop at the first key
  that refuses, and a wrong guess: refused, or tried and recorded.
\<close>

fun lockout_check :: "string list \<Rightarrow> rat \<Rightarrow> failures \<Rightarrow> int \<times> failures" where
  "lockout_check [] now fs = (0, fs)"
| "lockout_check (k # ks) now fs =
     (let (w, fs1) = retry_after k MAX_FAILURES now fs
      in if w \<noteq> 0 then (w, fs1) else lockout_check ks now fs1)"

type_synonym attempt = "rat \<times> string \<times> string"

definition wrong_guess :: "(string \<Rightarrow> bool option) \<Rightarrow> attempt \<Rightarrow> failures \<Rightarrow> bool \<times> failures" where
  "wrong_guess v6 a fs =
     (case a of (now, username, ip) \<Rightarrow>
       let (w, fs1) = lockout_check (lockout_keys v6 username ip) now fs
       in if w \<noteq> 0 then (False, fs1) else (True, record_login_failure v6 username ip now fs1))"

text \<open>The times at which guesses at an account reach its password.\<close>

fun tried :: "(string \<Rightarrow> bool option) \<Rightarrow> string \<Rightarrow> attempt list \<Rightarrow> failures \<Rightarrow> rat list" where
  "tried v6 user [] fs = []"
| "tried v6 user (a # as) fs =
     (let (ok, fs1) = wrong_guess v6 a fs
      in (if ok \<and> normalise_username (fst (snd a)) = normalise_username user then [fst a] else []) @
         tried v6 user as fs1)"

definition spaced :: "rat list \<Rightarrow> bool" where
  "spaced ts \<longleftrightarrow> (\<forall>i. i + MAX_FAILURES < length ts \<longrightarrow> ts ! (i + MAX_FAILURES) - ts ! i > FAILURE_WINDOW)"

lemma spaced_append:
  assumes "spaced ts" and "sorted ts" and "length (recent now ts) < MAX_FAILURES"
  shows "spaced (ts @ [now])"
  unfolding spaced_def
proof (intro allI impI)
  fix i assume i: "i + MAX_FAILURES < length (ts @ [now])"
  show "(ts @ [now]) ! (i + MAX_FAILURES) - (ts @ [now]) ! i > FAILURE_WINDOW"
  proof (cases "i + MAX_FAILURES < length ts")
    case True
    then show ?thesis using assms(1) by (simp add: spaced_def nth_append)
  next
    case False
    then have n: "i + MAX_FAILURES = length ts" and pos: "MAX_FAILURES > 0" using i by (simp_all add: MAX_FAILURES_def)
    then have lt: "i < length ts" by simp
    have "\<not> ts ! i \<ge> now - FAILURE_WINDOW"
    proof
      assume le: "ts ! i \<ge> now - FAILURE_WINDOW"
      have "\<forall>x \<in> set (drop i ts). x \<ge> now - FAILURE_WINDOW"
      proof
        fix x assume "x \<in> set (drop i ts)"
        then obtain j where "j < length (drop i ts)" "x = drop i ts ! j" by (metis in_set_conv_nth)
        then have "i + j < length ts" "x = ts ! (i + j)" by simp_all
        then show "x \<ge> now - FAILURE_WINDOW" using le sorted_nth_mono [OF assms(2), of i "i + j"] by simp
      qed
      then have "recent now (drop i ts) = drop i ts" by (simp add: recent_def)
      moreover have "recent now ts = recent now (take i ts) @ recent now (drop i ts)"
        by (metis append_take_drop_id filter_append recent_def)
      ultimately have "length (recent now ts) \<ge> length (drop i ts)" by simp
      then show False using assms(3) n by simp
    qed
    then show ?thesis using n lt by (simp add: nth_append)
  qed
qed

lemma lockout_check_spec:
  assumes "stands_for fs now past"
  shows "stands_for (snd (lockout_check ks now fs)) now past \<and>
         (fst (lockout_check ks now fs) = 0 \<longrightarrow>
            (\<forall>k \<in> set ks. length (recent now (past k)) < MAX_FAILURES))"
  using assms
proof (induction ks arbitrary: fs)
  case (Cons k ks)
  have pos: "MAX_FAILURES > 0" by (simp add: MAX_FAILURES_def)
  obtain w fs1 where r: "retry_after k MAX_FAILURES now fs = (w, fs1)" by (rule prod.exhaust)
  have w: "w = spec_wait MAX_FAILURES now (past k)" "stands_for fs1 now past"
    using stands_for_retry [OF Cons.prems pos, of k] r by simp_all
  then have "w = 0 \<Longrightarrow> length (recent now (past k)) < MAX_FAILURES"
    by (auto simp: spec_wait_def Let_def split: if_splits)
  then show ?case using r w(2) Cons.IH by simp
qed simp

lemma stands_for_records:
  assumes "stands_for fs now past" and "distinct ks"
  shows "stands_for (foldl (\<lambda>f k. record_failure k now f) fs ks) now
           (\<lambda>k. if k \<in> set ks then past k @ [now] else past k)"
  using assms
proof (induction ks arbitrary: fs past)
  case (Cons k ks)
  let ?p = "past(k := past k @ [now])"
  have "stands_for (record_failure k now fs) now ?p" by (rule stands_for_record [OF Cons.prems(1)])
  from Cons.IH [OF this] Cons.prems(2)
  have "stands_for (foldl (\<lambda>f k. record_failure k now f) (record_failure k now fs) ks) now
     (\<lambda>j. if j \<in> set ks then ?p j @ [now] else ?p j)" by simp
  moreover have "(\<lambda>j. if j \<in> set ks then ?p j @ [now] else ?p j) =
     (\<lambda>j. if j \<in> set (k # ks) then past j @ [now] else past j)" using Cons.prems(2) by auto
  ultimately show ?case by simp
qed simp

lemma throttle_keys_distinct: "distinct (login_throttle_keys v6 username ip)"
  by (simp add: login_throttle_keys_def lockout_keys_def user_key_def SHARED_IP_KEY_def)

lemma user_key_in_keys:
  "user_key user \<in> set (login_throttle_keys v6 username ip) \<longleftrightarrow>
     normalise_username username = normalise_username user"
  by (auto simp: login_throttle_keys_def lockout_keys_def user_key_def SHARED_IP_KEY_def)

lemma tried_spaced:
  assumes "stands_for fs now past" and "sorted (now # map fst as)" and "spaced (past (user_key user))"
  shows "spaced (past (user_key user) @ tried v6 user as fs)"
  using assms
proof (induction "as" arbitrary: fs now past)
  case (Cons a as)
  obtain later username ip where a: "a = (later, username, ip)" by (metis prod_cases3)
  let ?keys = "lockout_keys v6 username ip"
  have "now \<le> later" using Cons.prems(2) a by simp
  then have sf: "stands_for fs later past" using stands_for_later Cons.prems(1) by blast
  obtain w fs1 where c: "lockout_check ?keys later fs = (w, fs1)" by (rule prod.exhaust)
  have sf1: "stands_for fs1 later past" and len: "w = 0 \<Longrightarrow> length (recent later (past (user_key username))) < MAX_FAILURES"
    using lockout_check_spec [OF sf, of ?keys] c by (simp_all add: lockout_keys_def)
  have sorted: "sorted (later # map fst as)" using Cons.prems(2) a by simp
  show ?case
  proof (cases "w = 0")
    case False
    then show ?thesis using Cons.IH [OF sf1 sorted Cons.prems(3)] a c by (simp add: wrong_guess_def)
  next
    case True
    let ?past = "\<lambda>k. if k \<in> set (login_throttle_keys v6 username ip) then past k @ [later] else past k"
    let ?fs = "record_login_failure v6 username ip later fs1"
    have sf2: "stands_for ?fs later ?past"
      unfolding record_login_failure_def by (rule stands_for_records [OF sf1 throttle_keys_distinct])
    have g: "wrong_guess v6 a fs = (True, ?fs)" using True a c by (simp add: wrong_guess_def)
    show ?thesis
    proof (cases "normalise_username username = normalise_username user")
      case same: True
      then have k: "user_key username = user_key user" by (simp add: user_key_def)
      have "spaced (past (user_key user) @ [later])"
        using spaced_append [OF Cons.prems(3)] len [OF True] sf k by (simp add: stands_for_def)
      with Cons.IH [OF sf2 sorted] same g a show ?thesis by (simp add: user_key_in_keys)
    next
      case False
      with Cons.IH [OF sf2 sorted] Cons.prems(3) g a show ?thesis by (simp add: user_key_in_keys)
    qed
  qed
qed simp



definition sample_guesses :: "attempt list" where
  "sample_guesses =
     map (\<lambda>t. (t, ''Bob'', ''10.0.0.1'')) [0, 1, 2] @
     [(3, '' bob '', ''8.8.8.8''), (4, ''BOB'', ''''), (5, ''bob'', ''10.0.0.1''), (1000, ''bob'', ''10.0.0.1'')]"

lemma sample_addresses:
  "\<not> distinguishing_ip v6 ''10.0.0.1''" "distinguishing_ip v6 ''8.8.8.8''" "\<not> distinguishing_ip v6 ''''"
  "distinguishing_ip v6 ''100.64.0.1''"
  by (simp_all add: distinguishing_ip_def parse_ipv4_def parse_octet_def is_digit_def read_nat_def undigit_def
      shared_ipv4_def private_networks_def private_exceptions_def in_net_def quad_def)

lemma sample_users:
  "user_key ''Bob'' = ''user:bob''" "user_key '' bob '' = ''user:bob''" "user_key ''BOB'' = ''user:bob''"
  "user_key ''bob'' = ''user:bob''" "normalise_username ''Bob'' = ''bob''" "normalise_username '' bob '' = ''bob''"
  "normalise_username ''BOB'' = ''bob''" "normalise_username ''bob'' = ''bob''"
  by (simp_all add: user_key_def normalise_username_def strip_def is_space_def lower_def lower_char_def char_of_def
      bit_Suc_0_iff)

lemma sample_tried: "tried (\<lambda>_. None) ''bob'' sample_guesses [] = [0, 1, 2, 3, 4, 1000]"
  by (simp add: sample_guesses_def wrong_guess_def lockout_keys_def sample_addresses sample_users
      login_throttle_keys_def record_login_failure_def record_failure_def retry_after_def SHARED_IP_KEY_def
      trim_def dict_get_def Let_def MAX_FAILURES_def FAILURE_WINDOW_def LOCKOUT_def SWEEP_ABOVE_KEYS_def)



section \<open>Nobody is locked out by others\<close>

definition same_windows :: "string set \<Rightarrow> rat \<Rightarrow> failures \<Rightarrow> failures \<Rightarrow> bool" where
  "same_windows ks later fs gs \<longleftrightarrow>
     (\<forall>k \<in> ks. trim (dict_get fs k []) later = trim (dict_get gs k []) later)"

lemma lockout_check_windows:
  assumes "same_windows (set ks) now fs gs"
  shows "fst (lockout_check ks now fs) = fst (lockout_check ks now gs)"
  using assms
proof (induction ks arbitrary: fs gs)
  case (Cons k ks)
  have pos: "MAX_FAILURES > 0" by (simp add: MAX_FAILURES_def)
  obtain w fs1 where f: "retry_after k MAX_FAILURES now fs = (w, fs1)" by (rule prod.exhaust)
  obtain v gs1 where g: "retry_after k MAX_FAILURES now gs = (v, gs1)" by (rule prod.exhaust)
  have "w = v"
    using retry_after_value [OF pos, of k now fs] retry_after_value [OF pos, of k now gs] f g Cons.prems
    by (simp add: same_windows_def)
  moreover have "same_windows (set ks) now fs1 gs1"
    using retry_after_window [of now now k MAX_FAILURES fs] retry_after_window [of now now k MAX_FAILURES gs] f g Cons.prems
    by (simp add: same_windows_def)
  ultimately show ?case using f g Cons.IH by simp
qed simp

lemma lockout_check_distinct: "distinct (map fst fs) \<Longrightarrow> distinct (map fst (snd (lockout_check ks now fs)))"
proof (induction ks arbitrary: fs)
  case (Cons k ks)
  obtain w fs1 where f: "retry_after k MAX_FAILURES now fs = (w, fs1)" by (rule prod.exhaust)
  then have "distinct (map fst fs1)" using retry_after_distinct [OF Cons.prems, of k MAX_FAILURES now] by simp
  then show ?case using f Cons.IH by simp
qed simp

lemma lockout_check_keeps:
  "now \<le> later \<Longrightarrow> trim (dict_get (snd (lockout_check ks now fs)) k []) later = trim (dict_get fs k []) later"
proof (induction ks arbitrary: fs)
  case (Cons k' ks)
  obtain w fs1 where f: "retry_after k' MAX_FAILURES now fs = (w, fs1)" by (rule prod.exhaust)
  then have "trim (dict_get fs1 k []) later = trim (dict_get fs k []) later"
    using retry_after_window [OF Cons.prems, of k' MAX_FAILURES fs k] by simp
  then show ?case using f Cons.IH [OF Cons.prems] by simp
qed simp

lemma records_keep:
  "k \<notin> set ks \<Longrightarrow> now \<le> later \<Longrightarrow> distinct (map fst fs) \<Longrightarrow>
     trim (dict_get (foldl (\<lambda>f k. record_failure k now f) fs ks) k []) later = trim (dict_get fs k []) later \<and>
     distinct (map fst (foldl (\<lambda>f k. record_failure k now f) fs ks))"
  by (induction ks arbitrary: fs) (simp_all add: record_failure_window)

lemma wrong_guess_keeps:
  assumes "k \<notin> set (login_throttle_keys v6 username ip)" and "now \<le> later" and "distinct (map fst fs)"
  shows "trim (dict_get (snd (wrong_guess v6 (now, username, ip) fs)) k []) later = trim (dict_get fs k []) later \<and>
         distinct (map fst (snd (wrong_guess v6 (now, username, ip) fs)))"
proof -
  obtain w fs1 where c: "lockout_check (lockout_keys v6 username ip) now fs = (w, fs1)" by (rule prod.exhaust)
  have "distinct (map fst fs1)" "trim (dict_get fs1 k []) later = trim (dict_get fs k []) later"
    using lockout_check_distinct [OF assms(3)] lockout_check_keeps [OF assms(2)] c by (metis snd_conv)+
  then show ?thesis using records_keep [OF assms(1,2), of fs1] c
    by (simp add: wrong_guess_def record_login_failure_def)
qed

lemma shared_is_no_address: "\<not> distinguishing_ip v6 ''_shared''"
  by (simp add: distinguishing_ip_def parse_ipv4_def parse_octet_def is_digit_def)

text \<open>
  C26: nobody can lock another account out from a shared address. However many wrong
  guesses are made at other accounts from addresses that do not name one client - which is
  every address behind the proxy - a sign-in to this account is refused afterwards exactly
  when, and for as long as, it was before.
\<close>
theorem no_cross_lockout:
  assumes "\<forall>(t, username, addr) \<in> set as. t \<le> later \<and> \<not> distinguishing_ip v6 addr \<and>
             normalise_username username \<noteq> normalise_username user"
    and "distinct (map fst fs)"
  shows "fst (lockout_check (lockout_keys v6 user ip) later (foldl (\<lambda>f a. snd (wrong_guess v6 a f)) fs as)) =
         fst (lockout_check (lockout_keys v6 user ip) later fs)"
proof -
  have "same_windows (set (lockout_keys v6 user ip)) later (foldl (\<lambda>f a. snd (wrong_guess v6 a f)) fs as) fs"
    using assms
  proof (induction "as" arbitrary: fs)
    case (Cons a as)
    obtain t username addr where a: "a = (t, username, addr)" by (metis prod_cases3)
    let ?fs = "snd (wrong_guess v6 a fs)"
    have p: "t \<le> later" "\<not> distinguishing_ip v6 addr" "normalise_username username \<noteq> normalise_username user"
      using Cons.prems(1) a by auto
    have keys: "k \<notin> set (login_throttle_keys v6 username addr)" if "k \<in> set (lockout_keys v6 user ip)" for k
      using that p shared_is_no_address
      by (auto simp: login_throttle_keys_def lockout_keys_def user_key_def SHARED_IP_KEY_def split: if_splits)
    have first: "user_key user \<in> set (lockout_keys v6 user ip)" by (simp add: lockout_keys_def)
    have d: "distinct (map fst ?fs)"
      using wrong_guess_keeps [OF keys [OF first] p(1) Cons.prems(2)] a by simp
    have "same_windows (set (lockout_keys v6 user ip)) later (foldl (\<lambda>f a. snd (wrong_guess v6 a f)) ?fs as) ?fs"
      by (rule Cons.IH) (use Cons.prems d in auto)
    then show ?case using wrong_guess_keeps [OF keys p(1) Cons.prems(2)] a
      by (simp add: same_windows_def)
  qed (simp add: same_windows_def)
  then show ?thesis by (rule lockout_check_windows)
qed

theorem no_cross_lockout_witness:
  "fst (lockout_check (lockout_keys (\<lambda>_. None) ''alice'' ''10.0.0.1'') 60
      (foldl (\<lambda>f a. snd (wrong_guess (\<lambda>_. None) a f)) []
         [(1, ''bob'', ''10.0.0.1''), (2, ''bob'', ''''), (3, ''Bob'', ''10.0.0.1'')])) = 0"
proof -
  have "normalise_username ''alice'' = ''alice''"
    by (simp add: normalise_username_def strip_def is_space_def lower_def lower_char_def char_of_def)
  then have "\<forall>(t, username, addr) \<in> set [(1, ''bob'', ''10.0.0.1''), (2, ''bob'', ''''), (3, ''Bob'', ''10.0.0.1'')].
      t \<le> (60 :: rat) \<and> \<not> distinguishing_ip (\<lambda>_. None) addr \<and>
      normalise_username username \<noteq> normalise_username ''alice''"
    by (simp add: sample_users sample_addresses)
  from no_cross_lockout [OF this, of "[]" "''10.0.0.1''"] show ?thesis
    by (simp add: lockout_keys_def sample_addresses retry_after_def)
qed

text \<open>
  An address of the shared range 100.64.0.0/10, which is what a Tailscale tailnet uses, is
  taken for one client's.
\<close>
lemma tailnet_address_distinguishes: "distinguishing_ip v6 ''100.64.0.1''"
  by (rule sample_addresses)

end
