(* ===== verification/Passwords.thy ===== *)
theory Passwords
  imports Text
begin

text \<open>
  \<open>src/gemp/auth/roles.py\<close> and \<open>src/gemp/auth/passwords.py\<close>: the ladder of roles, the
  password policy and the self-describing storage form of a hash. \<open>hashlib.scrypt\<close> is the
  parameter \<open>scrypt\<close>; \<open>scrypt_contract\<close> is its documented interface. A hash's salt is an
  argument, as the code draws it from \<open>secrets\<close>. \<open>compare_digest\<close> is equality.
\<close>

section \<open>Roles\<close>

definition ORDER :: "string list" where
  "ORDER = [''viewer'', ''analyst'', ''admin'']"

definition ROLES :: "string list" where "ROLES = ORDER"

fun index_of :: "'a \<Rightarrow> 'a list \<Rightarrow> nat option" where
  "index_of x [] = None"
| "index_of x (y # ys) = (if x = y then Some 0 else map_option Suc (index_of x ys))"

definition at_least :: "string \<Rightarrow> string \<Rightarrow> bool" where
  "at_least actual required =
     (case (index_of actual ORDER, index_of required ORDER) of
        (Some a, Some r) \<Rightarrow> a \<ge> r
      | _ \<Rightarrow> False)"

lemma at_least_known: "at_least actual required \<Longrightarrow> actual \<in> set ROLES \<and> required \<in> set ROLES"
  by (auto simp: at_least_def ORDER_def ROLES_def split: if_splits)

lemma at_least_admin: "at_least r ''admin'' \<longleftrightarrow> r = ''admin''"
  by (auto simp: at_least_def ORDER_def split: if_splits)

text \<open>The roles form a ladder: what a role may do, every role above it may do.\<close>

lemma at_least_trans: "at_least a b \<Longrightarrow> at_least b c \<Longrightarrow> at_least a c"
  by (auto simp: at_least_def split: option.splits)

lemma at_least_total: "a \<in> set ROLES \<Longrightarrow> b \<in> set ROLES \<Longrightarrow> at_least a b \<or> at_least b a"
  by (auto simp: at_least_def ORDER_def ROLES_def)

section \<open>Policy\<close>

definition DEFAULT_N :: int where "DEFAULT_N = 16384"
definition DEFAULT_R :: int where "DEFAULT_R = 8"
definition DEFAULT_P :: int where "DEFAULT_P = 1"
definition SALT_BYTES :: nat where "SALT_BYTES = 16"
definition KEY_BYTES :: nat where "KEY_BYTES = 32"
definition MIN_PASSWORD_LENGTH :: nat where "MIN_PASSWORD_LENGTH = 12"
definition MAX_PASSWORD_LENGTH :: nat where "MAX_PASSWORD_LENGTH = 1024"

definition OBVIOUS_PASSWORDS :: "string list" where
  "OBVIOUS_PASSWORDS =
     [''password'', ''password123'', ''passw0rd123'', ''administrator'', ''changeme123'',
      ''letmein12345'', ''qwertyuiop12'', ''123456789012'', ''gempgempgemp'']"

text \<open>\<open>validate\<close>: \<open>WeakPassword\<close> is a \<open>ValueError\<close>.\<close>

definition validate :: "string \<Rightarrow> unit result" where
  "validate password =
     (if length password < MIN_PASSWORD_LENGTH then Inl (ValueError ''too short'')
      else if length password > MAX_PASSWORD_LENGTH then Inl (ValueError ''too long'')
      else if lower password \<in> set OBVIOUS_PASSWORDS then Inl (ValueError ''obvious'')
      else Inr ())"

section \<open>Storage form\<close>

text \<open>\<open>password.encode("utf-8")\<close> for code points up to 255.\<close>

definition utf8_char :: "char \<Rightarrow> bytes" where
  "utf8_char c =
     (let n = of_char c :: nat
      in if n < 128 then [c] else [char_of (192 + n div 64), char_of (128 + n mod 64)])"

definition utf8 :: "string \<Rightarrow> bytes" where
  "utf8 s = concat (map utf8_char s)"

text \<open>
  The parameters of \<open>scrypt\<close>: the encoded password, the salt, \<open>n\<close>, \<open>r\<close>, \<open>p\<close>, the memory
  ceiling and the length of the key. It returns a key of that length or raises \<open>ValueError\<close>
  or \<open>MemoryError\<close>, which is \<open>None\<close> here; the code's own parameters are accepted.
\<close>

type_synonym scrypt_fn = "bytes \<Rightarrow> bytes \<Rightarrow> int \<Rightarrow> int \<Rightarrow> int \<Rightarrow> int \<Rightarrow> nat \<Rightarrow> bytes option"

definition maxmem :: "int \<Rightarrow> int \<Rightarrow> int \<Rightarrow> int" where
  "maxmem n r p = 256 * n * r * p + 2 ^ 20"

definition scrypt_contract :: "scrypt_fn \<Rightarrow> bool" where
  "scrypt_contract scrypt \<longleftrightarrow>
     (\<forall>pw salt n r p m len k. scrypt pw salt n r p m len = Some k \<longrightarrow> length k = len) \<and>
     (\<forall>pw salt. scrypt pw salt DEFAULT_N DEFAULT_R DEFAULT_P
        (maxmem DEFAULT_N DEFAULT_R DEFAULT_P) KEY_BYTES \<noteq> None)"

definition derive :: "scrypt_fn \<Rightarrow> string \<Rightarrow> bytes \<Rightarrow> int \<Rightarrow> int \<Rightarrow> int \<Rightarrow> nat \<Rightarrow> bytes option" where
  "derive scrypt password salt n r p len = scrypt (utf8 password) salt n r p (maxmem n r p) len"

definition params_text :: "int \<Rightarrow> int \<Rightarrow> int \<Rightarrow> string" where
  "params_text n r p = ''n='' @ show_int n @ '',r='' @ show_int r @ '',p='' @ show_int p"

definition hash_password :: "scrypt_fn \<Rightarrow> bytes \<Rightarrow> string \<Rightarrow> string result" where
  "hash_password scrypt salt password =
     (case derive scrypt password salt DEFAULT_N DEFAULT_R DEFAULT_P KEY_BYTES of
        None \<Rightarrow> Inl (ValueError ''scrypt'')
      | Some key \<Rightarrow>
          Inr (''scrypt$'' @ params_text DEFAULT_N DEFAULT_R DEFAULT_P @ ''$'' @ to_hex salt @ ''$'' @ to_hex key))"

text \<open>
  \<open>_parse_params\<close>: a part that does not split in two is a \<open>ValueError\<close>, a parameter that is
  not there a \<open>KeyError\<close>.
\<close>

definition parse_part :: "string \<Rightarrow> (string \<times> string) result" where
  "parse_part part =
     (case split_on CHR ''='' part of
        [k, v] \<Rightarrow> Inr (k, v)
      | _ \<Rightarrow> Inl (ValueError ''dictionary update''))"

definition int_param :: "(string \<times> string) list \<Rightarrow> string \<Rightarrow> int result" where
  "int_param values k =
     (case map_of values k of
        None \<Rightarrow> Inl (KeyError k)
      | Some s \<Rightarrow> (case py_int s of None \<Rightarrow> Inl (ValueError ''int'') | Some i \<Rightarrow> Inr i))"

definition parse_params :: "string \<Rightarrow> (int \<times> int \<times> int) result" where
  "parse_params params =
     rbind (rmapM parse_part (split_on CHR '','' params)) (\<lambda>parts.
       let values = foldl (\<lambda>d (k, v). AList.update k v d) [] parts
       in rbind (int_param values ''n'') (\<lambda>n.
          rbind (int_param values ''r'') (\<lambda>r.
          rbind (int_param values ''p'') (\<lambda>p. Inr (n, r, p)))))"

definition stored_parts :: "string \<Rightarrow> (string \<times> string \<times> string \<times> string) result" where
  "stored_parts stored =
     (case split_on CHR ''$'' stored of
        [scheme, params, salt, key] \<Rightarrow> Inr (scheme, params, salt, key)
      | _ \<Rightarrow> Inl (ValueError ''unpack''))"

text \<open>\<open>except (ValueError, TypeError, MemoryError)\<close> around the derivation.\<close>

definition false_on_value_error :: "bool result \<Rightarrow> bool result" where
  "false_on_value_error r =
     (case r of
        Inl (ValueError _) \<Rightarrow> Inr False
      | Inl (TypeError _) \<Rightarrow> Inr False
      | _ \<Rightarrow> r)"

definition verify :: "scrypt_fn \<Rightarrow> string \<Rightarrow> string \<Rightarrow> bool result" where
  "verify scrypt password stored =
     false_on_value_error
       (rbind (stored_parts stored) (\<lambda>(scheme, params, salt_hex, expected_hex).
          if scheme \<noteq> ''scrypt'' then Inr False
          else rbind (parse_params params) (\<lambda>(n, r, p).
            case (from_hex salt_hex, from_hex expected_hex) of
              (Some salt, Some expected) \<Rightarrow>
                (case derive scrypt password salt n r p (length expected) of
                   None \<Rightarrow> Inl (ValueError ''scrypt'')
                 | Some derived \<Rightarrow> Inr (derived = expected))
            | _ \<Rightarrow> Inl (ValueError ''fromhex''))))"

definition needs_rehash :: "string \<Rightarrow> int \<Rightarrow> bool result" where
  "needs_rehash stored n =
     (case rbind (stored_parts stored) (\<lambda>(_, params, _, _). parse_params params) of
        Inl (ValueError _) \<Rightarrow> Inr True
      | Inl e \<Rightarrow> Inl e
      | Inr (current_n, _, _) \<Rightarrow> Inr (current_n < n))"

definition cost_of :: "string \<Rightarrow> int option" where
  "cost_of stored =
     (case rbind (stored_parts stored) (\<lambda>(_, params, _, _). parse_params params) of
        Inl _ \<Rightarrow> None
      | Inr (n, _, _) \<Rightarrow> Some n)"

section \<open>What the storage form carries\<close>

lemma default_params_text: "params_text DEFAULT_N DEFAULT_R DEFAULT_P = ''n=16384,r=8,p=1''"
  by (simp add: params_text_def DEFAULT_N_def DEFAULT_R_def DEFAULT_P_def show_int_def
      nat_digits.simps [of "numeral k" for k] nat_digits.simps [of "Suc 0"] digit_def char_of_def bit_Suc_0_iff)

lemma default_params_parse: "parse_params ''n=16384,r=8,p=1'' = Inr (DEFAULT_N, DEFAULT_R, DEFAULT_P)"
  by (simp add: parse_params_def parse_part_def int_param_def py_int_def unsigned_value_def strip_def
      is_space_def is_digit_def undigit_def DEFAULT_N_def DEFAULT_R_def DEFAULT_P_def)


lemma dollar_not_hex: "CHR ''$'' \<notin> set (to_hex bs)"
proof
  assume "CHR ''$'' \<in> set (to_hex bs)"
  then obtain n where "n < 16" "CHR ''$'' = hexdigit n" using to_hex_chars by blast
  then have "of_char (CHR ''$'') = (of_char (hexdigit n) :: nat)" by simp
  then show False using \<open>n < 16\<close> by (auto simp: hexdigit_def digit_def of_char_of split: if_splits)
qed

lemma stored_parts_hash:
  "stored_parts (''scrypt$'' @ ''n=16384,r=8,p=1'' @ ''$'' @ to_hex salt @ ''$'' @ to_hex key) =
     Inr (''scrypt'', ''n=16384,r=8,p=1'', to_hex salt, to_hex key)"
proof -
  have "split_on CHR ''$'' (''scrypt'' @ CHR ''$'' # ''n=16384,r=8,p=1'' @ CHR ''$'' # to_hex salt @ CHR ''$'' # to_hex key) =
      [''scrypt'', ''n=16384,r=8,p=1'', to_hex salt, to_hex key]"
    using split_on_append [of "CHR ''$''" "''scrypt''"] split_on_append [of "CHR ''$''" "''n=16384,r=8,p=1''"]
      split_on_append [OF dollar_not_hex] split_on_no_sep [OF dollar_not_hex] by simp
  then show ?thesis by (simp add: stored_parts_def)
qed

lemma hash_password_form:
  assumes "hash_password scrypt salt password = Inr h"
  obtains key where "derive scrypt password salt DEFAULT_N DEFAULT_R DEFAULT_P KEY_BYTES = Some key"
    and "stored_parts h = Inr (''scrypt'', ''n=16384,r=8,p=1'', to_hex salt, to_hex key)"
proof (cases "derive scrypt password salt DEFAULT_N DEFAULT_R DEFAULT_P KEY_BYTES")
  case (Some key)
  then have "h = ''scrypt$'' @ ''n=16384,r=8,p=1'' @ ''$'' @ to_hex salt @ ''$'' @ to_hex key"
    using assms by (simp add: hash_password_def default_params_text)
  then show ?thesis using that Some stored_parts_hash by blast
qed (use assms in \<open>simp add: hash_password_def\<close>)

lemma verify_hash:
  assumes "scrypt_contract scrypt" and "hash_password scrypt salt password = Inr h"
  shows "verify scrypt attempt h =
           Inr (derive scrypt attempt salt DEFAULT_N DEFAULT_R DEFAULT_P KEY_BYTES =
                derive scrypt password salt DEFAULT_N DEFAULT_R DEFAULT_P KEY_BYTES)"
proof -
  obtain key where k: "derive scrypt password salt DEFAULT_N DEFAULT_R DEFAULT_P KEY_BYTES = Some key"
    and h: "stored_parts h = Inr (''scrypt'', ''n=16384,r=8,p=1'', to_hex salt, to_hex key)"
    using hash_password_form [OF assms(2)] .
  have "length key = KEY_BYTES" using k assms(1) unfolding derive_def scrypt_contract_def by blast
  moreover obtain key' where "derive scrypt attempt salt DEFAULT_N DEFAULT_R DEFAULT_P KEY_BYTES = Some key'"
    using assms(1) unfolding derive_def scrypt_contract_def by fastforce
  ultimately show ?thesis using h k
    by (simp add: verify_def default_params_parse false_on_value_error_def)
qed

lemma hash_current:
  assumes "hash_password scrypt salt password = Inr h"
  shows "needs_rehash h DEFAULT_N = Inr False" and "cost_of h = Some DEFAULT_N"
proof -
  obtain key where "stored_parts h = Inr (''scrypt'', ''n=16384,r=8,p=1'', to_hex salt, to_hex key)"
    using hash_password_form [OF assms] by blast
  then show "needs_rehash h DEFAULT_N = Inr False" "cost_of h = Some DEFAULT_N"
    by (simp_all add: needs_rehash_def cost_of_def default_params_parse)
qed

text \<open>
  C27: round trip of a stored password. Whatever the salt, a hash that was written verifies
  the password it was made from and exactly the attempts with the same derived key, needs no
  rehash at the current cost and reports that cost.
\<close>
theorem password_roundtrip:
  assumes "scrypt_contract scrypt" and "hash_password scrypt salt password = Inr h"
  shows "verify scrypt password h = Inr True \<and>
         (\<forall>attempt. verify scrypt attempt h =
            Inr (derive scrypt attempt salt DEFAULT_N DEFAULT_R DEFAULT_P KEY_BYTES =
                 derive scrypt password salt DEFAULT_N DEFAULT_R DEFAULT_P KEY_BYTES)) \<and>
         needs_rehash h DEFAULT_N = Inr False \<and> cost_of h = Some DEFAULT_N"
  using verify_hash [OF assms] hash_current [OF assms(2)] by simp

definition sample_scrypt :: scrypt_fn where
  "sample_scrypt pw salt n r p m len = Some (take len (pw @ salt @ replicate len CHR ''0''))"

lemma sample_scrypt_contract: "scrypt_contract sample_scrypt"
  by (auto simp: scrypt_contract_def sample_scrypt_def min_def)

theorem password_roundtrip_witness:
  "\<exists>h. hash_password sample_scrypt (replicate 16 CHR ''s'') ''correct horse'' = Inr h \<and>
       verify sample_scrypt ''correct horse'' h = Inr True \<and> cost_of h = Some 16384"
proof -
  obtain h where h: "hash_password sample_scrypt (replicate 16 CHR ''s'') ''correct horse'' = Inr h"
    by (simp add: hash_password_def derive_def sample_scrypt_def)
  show ?thesis using password_roundtrip [OF sample_scrypt_contract h] h by (simp add: DEFAULT_N_def)
qed

lemma parse_part_error: "parse_part x = Inl e \<Longrightarrow> \<exists>s. e = ValueError s"
  by (auto simp: parse_part_def split: list.splits)

lemma rmapM_error: "rmapM f xs = Inl e \<Longrightarrow> \<exists>x \<in> set xs. f x = Inl e"
proof (induction xs)
  case (Cons x xs)
  then show ?case by (cases "f x"; cases "rmapM f xs") auto
qed simp

lemma int_param_error: "int_param values k = Inl e \<Longrightarrow> (\<exists>s. e = ValueError s) \<or> e = KeyError k"
  by (auto simp: int_param_def split: option.splits)

lemma parse_params_error:
  assumes "parse_params params = Inl e"
  shows "(\<exists>s. e = ValueError s) \<or> (\<exists>k. e = KeyError k)"
proof (cases "rmapM parse_part (split_on CHR '','' params)")
  case (Inl e')
  then show ?thesis using assms rmapM_error [OF Inl] parse_part_error by (auto simp: parse_params_def)
next
  case (Inr parts)
  let ?v = "foldl (\<lambda>d (k, v). AList.update k v d) [] parts"
  show ?thesis using assms Inr int_param_error [of ?v]
    by (cases "int_param ?v ''n''"; cases "int_param ?v ''r''"; cases "int_param ?v ''p''")
      (auto simp: parse_params_def)
qed

text \<open>
  What a corrupted hash does. \<open>verify\<close> raises exactly for a hash of the right shape in
  which a parameter is missing, and then a \<open>KeyError\<close>; everything else that is malformed is
  a failed check.
\<close>
theorem corrupted_hash_raises:
  "verify scrypt password stored = Inl e \<longleftrightarrow>
     (\<exists>params salt key k. stored_parts stored = Inr (''scrypt'', params, salt, key) \<and>
        parse_params params = Inl (KeyError k) \<and> e = KeyError k)"
proof (cases "stored_parts stored")
  case (Inl e')
  then have "\<exists>s. e' = ValueError s" by (auto simp: stored_parts_def split: list.splits)
  then show ?thesis using Inl by (auto simp: verify_def false_on_value_error_def)
next
  case (Inr parts)
  obtain scheme params salt key where p: "parts = (scheme, params, salt, key)" by (metis prod_cases4)
  show ?thesis
  proof (cases "scheme = ''scrypt''")
    case False
    then show ?thesis using Inr p by (simp add: verify_def false_on_value_error_def)
  next
    case True
    show ?thesis
    proof (cases "parse_params params")
      case (Inl e')
      then show ?thesis using Inr p True parse_params_error [OF Inl]
        by (auto simp: verify_def false_on_value_error_def)
    next
      case (Inr nrp)
      then show ?thesis using \<open>stored_parts stored = Inr parts\<close> p True
        by (auto simp: verify_def false_on_value_error_def split: option.splits prod.splits)
    qed
  qed
qed

lemma missing_parameter: "verify scrypt password ''scrypt$r=8,p=1$00$00'' = Inl (KeyError ''n'')"
  by (simp add: verify_def stored_parts_def parse_params_def parse_part_def int_param_def false_on_value_error_def)

end
