(* ===== verification/Accounts.thy ===== *)
theory Accounts
  imports Throttle Passwords Canonical
begin

text \<open>
  The rest of \<open>src/gemp/auth/service.py\<close>: accounts, sign-in, sessions and the audit trail.
  The tables are lists of rows; a timestamp is its instant in microseconds, which is how the
  code compares them (\<open>_as_utc\<close> reads a naive value back as UTC). What a request brings from
  outside - the clocks, the client address, the random values it draws - is one record.
  \<open>sha\<close> (the hash of a session token) and \<open>scrypt\<close> are parameters.
\<close>

section \<open>Tables\<close>

definition microseconds :: "int \<Rightarrow> int" where "microseconds s = s * 1000000"

definition IDLE_TIMEOUT :: int where "IDLE_TIMEOUT = microseconds (8 * 3600)"
definition ABSOLUTE_LIFETIME :: int where "ABSOLUTE_LIFETIME = microseconds (7 * 24 * 3600)"
definition TOUCH_INTERVAL :: int where "TOUCH_INTERVAL = microseconds 60"
definition DEFAULT_ORG_NAME :: string where "DEFAULT_ORG_NAME = ''Default organization''"

record organization =
  og_id :: string
  og_name :: string

record user =
  us_id :: string
  us_organization_id :: string
  us_username :: string
  us_display_name :: string
  us_role :: string
  us_password_hash :: string
  us_must_change_password :: bool
  us_is_active :: bool
  us_created_at :: int
  us_last_login_at :: "int option"
  us_password_changed_at :: "int option"
  us_access_expires_at :: "int option"

record session_row =
  se_token_hash :: string
  se_user_id :: string
  se_created_at :: int
  se_last_seen_at :: int
  se_expires_at :: int
  se_revoked_at :: "int option"
  se_ip :: string
  se_user_agent :: string

record audit_row =
  ar_ts :: int
  ar_user_id :: "string option"
  ar_username :: string
  ar_action :: string
  ar_target :: string
  ar_outcome :: string
  ar_ip :: string

record pass_row =
  jp_id :: string
  jp_user_id :: string
  jp_email :: string
  jp_lang :: string
  jp_created_at :: int
  jp_mail_status :: string
  jp_mail_detail :: string
  jp_mail_at :: "int option"

record auth_db =
  ad_organizations :: "organization list"
  ad_users :: "user list"
  ad_sessions :: "session_row list"
  ad_audit :: "audit_row list"
  ad_passes :: "pass_row list"
  ad_pass_enabled :: "bool option"

record service_state =
  st_db :: auth_db
  st_failures :: failures
  st_audit_failures :: nat

record env =
  en_now :: int
  en_clock :: rat
  en_ip :: string
  en_user_agent :: string
  en_uuid :: string
  en_org_uuid :: string
  en_token :: string
  en_salt :: bytes
  en_audit_ok :: bool

datatype auth_error = Auth_Error string | Throttled int | Weak_Password string | Unexpected py_error

record principal =
  pr_user_id :: string
  pr_username :: string
  pr_display_name :: string
  pr_role :: string
  pr_organization_id :: string
  pr_must_change_password :: bool
  pr_access_expires_at :: "int option"

definition can :: "principal \<Rightarrow> string \<Rightarrow> bool" where
  "can p required = at_least (pr_role p) required"

section \<open>Rows\<close>

definition find_user :: "string \<Rightarrow> auth_db \<Rightarrow> user option" where
  "find_user uid db = List.find (\<lambda>u. us_id u = uid) (ad_users db)"

definition user_named :: "string \<Rightarrow> auth_db \<Rightarrow> user option" where
  "user_named name db = List.find (\<lambda>u. us_username u = name) (ad_users db)"

definition find_session :: "string \<Rightarrow> auth_db \<Rightarrow> session_row option" where
  "find_session h db = List.find (\<lambda>s. se_token_hash s = h) (ad_sessions db)"

definition update_row :: "string \<Rightarrow> (user \<Rightarrow> user) \<Rightarrow> auth_db \<Rightarrow> auth_db" where
  "update_row uid f db = db\<lparr>ad_users := map (\<lambda>u. if us_id u = uid then f u else u) (ad_users db)\<rparr>"

definition update_session :: "string \<Rightarrow> (session_row \<Rightarrow> session_row) \<Rightarrow> auth_db \<Rightarrow> auth_db" where
  "update_session h f db =
     db\<lparr>ad_sessions := map (\<lambda>s. if se_token_hash s = h then f s else s) (ad_sessions db)\<rparr>"

section \<open>Audit\<close>

text \<open>\<open>audit\<close>: never raises; a row that cannot be written is counted.\<close>

definition audit ::
  "env \<Rightarrow> string \<Rightarrow> principal option \<Rightarrow> string \<Rightarrow> string \<Rightarrow> string \<Rightarrow> service_state \<Rightarrow> service_state" where
  "audit e action who username target outcome st =
     (if en_audit_ok e then
        st\<lparr>st_db := (st_db st)\<lparr>ad_audit := ad_audit (st_db st) @
          [\<lparr>ar_ts = en_now e, ar_user_id = map_option pr_user_id who,
            ar_username = (case who of None \<Rightarrow> username | Some p \<Rightarrow> pr_username p),
            ar_action = action, ar_target = target, ar_outcome = outcome, ar_ip = en_ip e\<rparr>]\<rparr>\<rparr>
      else st\<lparr>st_audit_failures := st_audit_failures st + 1\<rparr>)"

section \<open>Organizations and accounts\<close>

definition default_organization :: "env \<Rightarrow> auth_db \<Rightarrow> string \<times> auth_db" where
  "default_organization e db =
     (case ad_organizations db of
        g # _ \<Rightarrow> (og_id g, db)
      | [] \<Rightarrow> (en_org_uuid e,
               db\<lparr>ad_organizations := [\<lparr>og_id = en_org_uuid e, og_name = DEFAULT_ORG_NAME\<rparr>]\<rparr>))"

definition policy :: "string \<Rightarrow> (auth_error, unit) sum" where
  "policy password = (case validate password of
     Inl (ValueError why) \<Rightarrow> Inl (Weak_Password why) | Inl err \<Rightarrow> Inl (Unexpected err) | Inr u \<Rightarrow> Inr u)"

definition hashed :: "scrypt_fn \<Rightarrow> env \<Rightarrow> string \<Rightarrow> (auth_error, string) sum" where
  "hashed scrypt e password =
     (case hash_password scrypt (en_salt e) password of Inl err \<Rightarrow> Inl (Unexpected err) | Inr h \<Rightarrow> Inr h)"

definition create_user ::
  "scrypt_fn \<Rightarrow> env \<Rightarrow> string \<Rightarrow> string \<Rightarrow> string \<Rightarrow> string \<Rightarrow> string option \<Rightarrow> bool \<Rightarrow> auth_db \<Rightarrow>
     (auth_error, user \<times> auth_db) sum" where
  "create_user scrypt e username password role display_name organization_id must_change db =
     (let username = normalise_username username
      in if username = [] then Inl (Auth_Error ''username is required'')
         else if role \<notin> set ROLES then Inl (Auth_Error ''unknown role'')
         else rbind (policy password) (\<lambda>_.
           if user_named username db \<noteq> None then Inl (Auth_Error ''already exists'')
           else
             let (org_id, db1) = (case organization_id of
                    Some g \<Rightarrow> if g = [] then default_organization e db else (g, db)
                  | None \<Rightarrow> default_organization e db)
             in rbind (hashed scrypt e password) (\<lambda>h.
               let user = \<lparr>us_id = en_uuid e, us_organization_id = org_id, us_username = username,
                     us_display_name = (if display_name = [] then username else display_name),
                     us_role = role, us_password_hash = h, us_must_change_password = must_change,
                     us_is_active = True, us_created_at = en_now e, us_last_login_at = None,
                     us_password_changed_at = Some (en_now e), us_access_expires_at = None\<rparr>
               in Inr (user, db1\<lparr>ad_users := ad_users db1 @ [user]\<rparr>))))"

definition revoke_all_sessions :: "env \<Rightarrow> string \<Rightarrow> auth_db \<Rightarrow> nat \<times> auth_db" where
  "revoke_all_sessions e uid db =
     (length (filter (\<lambda>s. se_user_id s = uid \<and> se_revoked_at s = None) (ad_sessions db)),
      db\<lparr>ad_sessions := map (\<lambda>s. if se_user_id s = uid \<and> se_revoked_at s = None
                                  then s\<lparr>se_revoked_at := Some (en_now e)\<rparr> else s) (ad_sessions db)\<rparr>)"

definition set_password ::
  "scrypt_fn \<Rightarrow> env \<Rightarrow> string \<Rightarrow> string \<Rightarrow> bool \<Rightarrow> auth_db \<Rightarrow> (auth_error, auth_db) sum" where
  "set_password scrypt e uid password must_change db =
     rbind (policy password) (\<lambda>_. rbind (hashed scrypt e password) (\<lambda>h.
       Inr (snd (revoke_all_sessions e uid
         (update_row uid (\<lambda>u. u\<lparr>us_password_hash := h, us_password_changed_at := Some (en_now e),
                                us_must_change_password := must_change\<rparr>) db)))))"

section \<open>Sign-in\<close>

definition access_expired :: "user \<Rightarrow> int \<Rightarrow> bool" where
  "access_expired u now = (case us_access_expires_at u of None \<Rightarrow> False | Some t \<Rightarrow> t \<le> now)"

definition INVALID :: auth_error where
  "INVALID = Auth_Error ''invalid username or password''"

text \<open>
  \<open>authenticate\<close>: the lockout keys may refuse; the spray delay costs time and only trims the
  shared window; the hash of an absent user is \<open>absent\<close>. Every failure is recorded against
  every key and audited, and looks the same to the caller.
\<close>

definition authenticate ::
  "scrypt_fn \<Rightarrow> (string \<Rightarrow> bool option) \<Rightarrow> string \<Rightarrow> env \<Rightarrow> string \<Rightarrow> string \<Rightarrow> service_state \<Rightarrow>
     (auth_error, user) sum \<times> service_state" where
  "authenticate scrypt v6 absent e username password st =
     (let username = normalise_username username;
          (wait, fs) = lockout_check (lockout_keys v6 username (en_ip e)) (en_clock e) (st_failures st)
      in if wait \<noteq> 0 then (Inl (Throttled wait), st\<lparr>st_failures := fs\<rparr>)
         else
           let fs1 = snd (shared_spray_delay (en_clock e) fs);
               st1 = st\<lparr>st_failures := fs1\<rparr>;
               found = user_named username (st_db st)
           in case verify scrypt password (case found of Some u \<Rightarrow> us_password_hash u | None \<Rightarrow> absent) of
                Inl err \<Rightarrow> (Inl (Unexpected err), st1)
              | Inr ok \<Rightarrow>
                  (case found of
                     Some u \<Rightarrow>
                       if ok \<and> us_is_active u \<and> \<not> access_expired u (en_now e) then
                         (case (case needs_rehash (us_password_hash u) DEFAULT_N of
                                  Inl err \<Rightarrow> Inl err
                                | Inr True \<Rightarrow> hash_password scrypt (en_salt e) password
                                | Inr False \<Rightarrow> Inr (us_password_hash u)) of
                            Inl err \<Rightarrow> (Inl (Unexpected err), st1)
                          | Inr h \<Rightarrow>
                              let sign_in = (\<lambda>u. u\<lparr>us_password_hash := h, us_last_login_at := Some (en_now e)\<rparr>)
                              in (Inr (sign_in u),
                                  st1\<lparr>st_failures := clear_failures (''user:'' @ username) fs1,
                                      st_db := update_row (us_id u) sign_in (st_db st)\<rparr>))
                       else (Inl INVALID, audit e ''auth.login'' None username '''' ''denied''
                              (st1\<lparr>st_failures := record_login_failure v6 username (en_ip e) (en_clock e) fs1\<rparr>))
                   | None \<Rightarrow>
                       (Inl INVALID, audit e ''auth.login'' None username '''' ''denied''
                          (st1\<lparr>st_failures := record_login_failure v6 username (en_ip e) (en_clock e) fs1\<rparr>))))"

section \<open>Sessions\<close>

text \<open>The token is shown once, to the caller; the row holds its hash.\<close>

definition issue_session :: "(string \<Rightarrow> string) \<Rightarrow> env \<Rightarrow> user \<Rightarrow> auth_db \<Rightarrow> (string \<times> session_row) \<times> auth_db" where
  "issue_session sha e u db =
     (let expires = en_now e + ABSOLUTE_LIFETIME;
          row = \<lparr>se_token_hash = sha (en_token e), se_user_id = us_id u, se_created_at = en_now e,
                 se_last_seen_at = en_now e,
                 se_expires_at = (case us_access_expires_at u of None \<Rightarrow> expires | Some t \<Rightarrow> min expires t),
                 se_revoked_at = None, se_ip = take 45 (en_ip e), se_user_agent = take 256 (en_user_agent e)\<rparr>
      in ((en_token e, row), db\<lparr>ad_sessions := ad_sessions db @ [row]\<rparr>))"

definition principal_of :: "user \<Rightarrow> principal" where
  "principal_of u =
     \<lparr>pr_user_id = us_id u, pr_username = us_username u, pr_display_name = us_display_name u,
      pr_role = us_role u, pr_organization_id = us_organization_id u,
      pr_must_change_password = us_must_change_password u,
      pr_access_expires_at = us_access_expires_at u\<rparr>"

definition resolve_session ::
  "(string \<Rightarrow> string) \<Rightarrow> env \<Rightarrow> string \<Rightarrow> auth_db \<Rightarrow> principal option \<times> auth_db" where
  "resolve_session sha e token db =
     (if token = [] then (None, db)
      else case find_session (sha token) db of
        None \<Rightarrow> (None, db)
      | Some row \<Rightarrow>
          if se_revoked_at row \<noteq> None then (None, db)
          else if se_expires_at row \<le> en_now e then (None, db)
          else if en_now e - se_last_seen_at row > IDLE_TIMEOUT then (None, db)
          else case find_user (se_user_id row) db of
            None \<Rightarrow> (None, db)
          | Some u \<Rightarrow>
              if \<not> us_is_active u \<or> access_expired u (en_now e) then (None, db)
              else (Some (principal_of u),
                    if en_now e - se_last_seen_at row > TOUCH_INTERVAL
                    then update_session (sha token) (\<lambda>s. s\<lparr>se_last_seen_at := en_now e\<rparr>) db else db))"

definition revoke_session :: "(string \<Rightarrow> string) \<Rightarrow> env \<Rightarrow> string \<Rightarrow> auth_db \<Rightarrow> auth_db" where
  "revoke_session sha e token db =
     (case find_session (sha token) db of
        None \<Rightarrow> db
      | Some row \<Rightarrow> if se_revoked_at row \<noteq> None then db
                    else update_session (sha token) (\<lambda>s. s\<lparr>se_revoked_at := Some (en_now e)\<rparr>) db)"

definition purge_expired_sessions :: "env \<Rightarrow> auth_db \<Rightarrow> nat \<times> auth_db" where
  "purge_expired_sessions e db =
     (length (filter (\<lambda>s. se_expires_at s < en_now e) (ad_sessions db)),
      db\<lparr>ad_sessions := filter (\<lambda>s. \<not> se_expires_at s < en_now e) (ad_sessions db)\<rparr>)"

definition active_sessions :: "env \<Rightarrow> string \<Rightarrow> auth_db \<Rightarrow> session_row list" where
  "active_sessions e uid db =
     sort_key (\<lambda>s. - se_last_seen_at s)
       (filter (\<lambda>s. se_user_id s = uid \<and> se_revoked_at s = None \<and> se_expires_at s > en_now e) (ad_sessions db))"


section \<open>An example\<close>

definition sample_env :: env where
  "sample_env =
     \<lparr>en_now = microseconds 1000, en_clock = 0, en_ip = ''10.0.0.1'', en_user_agent = ''curl'',
      en_uuid = ''u2'', en_org_uuid = ''o1'', en_token = ''fresh'', en_salt = replicate 16 CHR ''s'', en_audit_ok = True\<rparr>"

definition sample_user :: user where
  "sample_user =
     \<lparr>us_id = ''u1'', us_organization_id = ''o1'', us_username = ''ahmed'', us_display_name = ''Ahmed'',
      us_role = ''admin'', us_password_hash = ''scrypt$'', us_must_change_password = False, us_is_active = True,
      us_created_at = 0, us_last_login_at = None, us_password_changed_at = Some 0, us_access_expires_at = None\<rparr>"

definition sample_session :: session_row where
  "sample_session =
     \<lparr>se_token_hash = ''token'', se_user_id = ''u1'', se_created_at = 0, se_last_seen_at = 0,
      se_expires_at = ABSOLUTE_LIFETIME, se_revoked_at = None, se_ip = [], se_user_agent = []\<rparr>"

definition sample_auth_db :: auth_db where
  "sample_auth_db =
     \<lparr>ad_organizations = [\<lparr>og_id = ''o1'', og_name = DEFAULT_ORG_NAME\<rparr>], ad_users = [sample_user],
      ad_sessions = [sample_session], ad_audit = [], ad_passes = [], ad_pass_enabled = None\<rparr>"

lemmas sample_account_defs = sample_env_def sample_user_def sample_session_def sample_auth_db_def
  microseconds_def ABSOLUTE_LIFETIME_def IDLE_TIMEOUT_def TOUCH_INTERVAL_def

end
