(* ===== verification/Gate.thy ===== *)
theory Gate
  imports Accounts
begin

text \<open>
  \<open>src/gemp/auth/deps.py\<close> and the security middleware of \<open>src/gemp/api/main.py\<close>: every
  request under \<open>/api/\<close> needs a session unless its path is public, a request that changes
  state echoes the CSRF cookie, and a route demands a role of the caller the middleware
  found. Header names are lower-case, as the framework presents them.
\<close>

definition SESSION_COOKIE :: string where "SESSION_COOKIE = ''gemp_session''"
definition CSRF_COOKIE :: string where "CSRF_COOKIE = ''gemp_csrf''"
definition CSRF_HEADER :: string where "CSRF_HEADER = ''x-gemp-csrf''"

definition PUBLIC_PATHS :: "string list" where
  "PUBLIC_PATHS =
     [''/health'', ''/api/v1/auth/login'', ''/api/v1/auth/logout'', ''/api/v1/auth/session'',
      ''/api/v1/pass/check'', ''/api/v1/pass/redeem'']"

definition SAFE_METHODS :: "string list" where "SAFE_METHODS = [''GET'', ''HEAD'', ''OPTIONS'']"

record request =
  rq_method :: string
  rq_path :: string
  rq_cookies :: "(string \<times> string) list"
  rq_headers :: "(string \<times> string) list"
  rq_client :: "string option"

text \<open>What a request may be answered with instead of its route's own answer.\<close>

datatype refusal =
    Unauthenticated
  | Forbidden string
  | Password_Change_Required
  | Too_Many_Attempts int
  | Not_Found
  | Conflict string
  | Unprocessable string
  | Gone string
  | Internal_Error py_error

definition is_public :: "string \<Rightarrow> bool" where
  "is_public path = (path \<in> set PUBLIC_PATHS)"

definition current_principal :: "principal option \<Rightarrow> (refusal, principal) sum" where
  "current_principal p = (case p of None \<Rightarrow> Inl Unauthenticated | Some x \<Rightarrow> Inr x)"

definition require :: "string \<Rightarrow> principal option \<Rightarrow> (refusal, principal) sum" where
  "require role p =
     rbind (current_principal p) (\<lambda>x.
       if \<not> can x role then Inl (Forbidden role)
       else if pr_must_change_password x then Inl Password_Change_Required
       else Inr x)"

text \<open>\<open>hmac.compare_digest\<close> on text takes ASCII only.\<close>

definition is_ascii :: "string \<Rightarrow> bool" where
  "is_ascii s = list_all (\<lambda>c. (of_char c :: nat) < 128) s"

definition constant_time_equal :: "string \<Rightarrow> string \<Rightarrow> bool result" where
  "constant_time_equal left right =
     (if is_ascii left \<and> is_ascii right then Inr (left = right) else Inl (TypeError ''compare_digest''))"

definition check_csrf :: "request \<Rightarrow> (refusal, unit) sum" where
  "check_csrf rq =
     (if rq_method rq \<in> set SAFE_METHODS then Inr ()
      else if is_public (rq_path rq) then Inr ()
      else if dict_get (rq_cookies rq) SESSION_COOKIE [] = [] then Inr ()
      else
        let cookie = dict_get (rq_cookies rq) CSRF_COOKIE []; header = dict_get (rq_headers rq) CSRF_HEADER []
        in if cookie = [] \<or> header = [] then Inl (Forbidden ''csrf'')
           else case constant_time_equal cookie header of
                  Inl err \<Rightarrow> Inl (Internal_Error err)
                | Inr True \<Rightarrow> Inr ()
                | Inr False \<Rightarrow> Inl (Forbidden ''csrf''))"

definition resolve_principal ::
  "(string \<Rightarrow> string) \<Rightarrow> env \<Rightarrow> request \<Rightarrow> auth_db \<Rightarrow> principal option \<times> auth_db" where
  "resolve_principal sha e rq db =
     (let token = dict_get (rq_cookies rq) SESSION_COOKIE []
      in if token = [] then (None, db) else resolve_session sha e token db)"

definition client_ip :: "request \<Rightarrow> string" where
  "client_ip rq =
     (let forwarded = dict_get (rq_headers rq) ''x-forwarded-for'' []
      in if forwarded \<noteq> [] then take 45 (strip (hd (split_on CHR '','' forwarded)))
         else take 45 (case rq_client rq of None \<Rightarrow> [] | Some h \<Rightarrow> h))"

definition starts_with :: "string \<Rightarrow> string \<Rightarrow> bool" where
  "starts_with pre s = (take (length pre) s = pre)"

text \<open>
  \<open>security_middleware\<close> up to \<open>call_next\<close>: the principal the route will see, or the answer
  given in its place. \<open>schema_paths\<close> are the documentation pages, when they are mounted;
  \<open>lookup_ok\<close> says that resolving the session raised nothing.
\<close>

definition security_middleware ::
  "(string \<Rightarrow> string) \<Rightarrow> string list \<Rightarrow> bool \<Rightarrow> env \<Rightarrow> request \<Rightarrow> auth_db \<Rightarrow>
     (refusal, principal option) sum \<times> auth_db" where
  "security_middleware sha schema_paths lookup_ok e rq db =
     (let needs_auth = ((starts_with ''/api/'' (rq_path rq) \<or> rq_path rq \<in> set schema_paths) \<and>
                        \<not> is_public (rq_path rq));
          (found, db1) = (if lookup_ok then resolve_principal sha e rq db else (None, db))
      in if needs_auth \<and> found = None then (Inl Unauthenticated, db1)
         else case check_csrf rq of
                Inl r \<Rightarrow> (Inl r, db1)
              | Inr _ \<Rightarrow> (Inr found, db1))"

section \<open>What passes\<close>

lemma resolve_session_Some:
  assumes "fst (resolve_session sha e token db) = Some p"
  obtains row u where "find_session (sha token) db = Some row" and "se_revoked_at row = None"
    and "en_now e < se_expires_at row" and "en_now e - se_last_seen_at row \<le> IDLE_TIMEOUT"
    and "find_user (se_user_id row) db = Some u" and "us_is_active u" and "\<not> access_expired u (en_now e)"
    and "p = principal_of u"
  using assms by (auto simp: resolve_session_def split: if_splits option.splits)

lemma resolve_session_users [simp]: "ad_users (snd (resolve_session sha e token db)) = ad_users db"
  by (auto simp: resolve_session_def update_session_def split: option.splits)

lemma resolve_principal_token:
  "fst (resolve_principal sha e rq db) = Some p \<Longrightarrow>
     fst (resolve_session sha e (dict_get (rq_cookies rq) SESSION_COOKIE []) db) = Some p"
  by (auto simp: resolve_principal_def Let_def split: if_splits)

text \<open>
  C14: deny by default. A request to a path under \<open>/api/\<close> that is not on the public list
  reaches its route only with a live session of an active, unexpired account, whatever the
  route is; and one that can change state only if it also echoes the CSRF cookie.
\<close>
theorem deny_by_default:
  assumes "fst (security_middleware sha schema_paths lookup_ok e rq db) = Inr found"
    and "starts_with ''/api/'' (rq_path rq)" and "rq_path rq \<notin> set PUBLIC_PATHS"
  shows "\<exists>p row u. found = Some p \<and>
           find_session (sha (dict_get (rq_cookies rq) SESSION_COOKIE [])) db = Some row \<and>
           se_revoked_at row = None \<and> en_now e < se_expires_at row \<and>
           en_now e - se_last_seen_at row \<le> IDLE_TIMEOUT \<and>
           find_user (se_user_id row) db = Some u \<and> us_is_active u \<and> \<not> access_expired u (en_now e) \<and>
           p = principal_of u \<and>
           (rq_method rq \<in> set SAFE_METHODS \<or>
            dict_get (rq_headers rq) CSRF_HEADER [] = dict_get (rq_cookies rq) CSRF_COOKIE [] \<and>
            dict_get (rq_cookies rq) CSRF_COOKIE [] \<noteq> [])"
proof -
  obtain q db1 where r: "(if lookup_ok then resolve_principal sha e rq db else (None, db)) = (q, db1)"
    by (rule prod.exhaust)
  have c: "check_csrf rq = Inr ()" and f: "found = q" and s: "q \<noteq> None"
    using assms r by (auto simp: security_middleware_def is_public_def Let_def split: if_splits sum.splits)
  then obtain p where p: "q = Some p" by blast
  have "lookup_ok" using r p by (cases lookup_ok) auto
  then have res: "fst (resolve_principal sha e rq db) = Some p" using r p by simp
  have tok: "dict_get (rq_cookies rq) SESSION_COOKIE [] \<noteq> []"
    using res by (auto simp: resolve_principal_def Let_def)
  have csrf: "rq_method rq \<in> set SAFE_METHODS \<or>
      dict_get (rq_headers rq) CSRF_HEADER [] = dict_get (rq_cookies rq) CSRF_COOKIE [] \<and>
      dict_get (rq_cookies rq) CSRF_COOKIE [] \<noteq> []"
    using c tok assms(3)
    by (auto simp: check_csrf_def is_public_def Let_def constant_time_equal_def split: if_splits sum.splits bool.splits)
  show ?thesis
    by (rule resolve_session_Some [OF resolve_principal_token [OF res]]) (use f p csrf in auto)
qed

definition sample_request :: request where
  "sample_request =
     \<lparr>rq_method = ''POST'', rq_path = ''/api/v1/admin/users'',
      rq_cookies = [(''gemp_session'', ''token''), (''gemp_csrf'', ''c'')], rq_headers = [(''x-gemp-csrf'', ''c'')],
      rq_client = None\<rparr>"

lemma sample_request_passes:
  "fst (security_middleware (\<lambda>t. t) [] True sample_env sample_request sample_auth_db) =
     Inr (Some (principal_of sample_user))"
  by (simp add: security_middleware_def sample_request_def starts_with_def is_public_def PUBLIC_PATHS_def
      resolve_principal_def resolve_session_def find_session_def find_user_def check_csrf_def SAFE_METHODS_def
      SESSION_COOKIE_def CSRF_COOKIE_def CSRF_HEADER_def constant_time_equal_def is_ascii_def dict_get_def
      access_expired_def sample_account_defs Let_def)

theorem deny_by_default_witness:
  "\<exists>row. find_session ''token'' sample_auth_db = Some row \<and> se_user_id row = ''u1''"
proof -
  have "starts_with ''/api/'' (rq_path sample_request)" "rq_path sample_request \<notin> set PUBLIC_PATHS"
    by (simp_all add: starts_with_def sample_request_def PUBLIC_PATHS_def)
  from deny_by_default [OF sample_request_passes this]
  have "\<exists>row. find_session (dict_get (rq_cookies sample_request) SESSION_COOKIE []) sample_auth_db = Some row" by blast
  then show ?thesis
    by (simp add: sample_request_def dict_get_def SESSION_COOKIE_def find_session_def sample_auth_db_def sample_session_def)
qed

end
