(* ===== verification/JudgePass.thy ===== *)
theory JudgePass
  imports Accounts
begin

text \<open>
  \<open>src/gemp/auth/judge_pass.py\<close> and the dispatch of \<open>src/gemp/mail.py\<close>: the one-day viewer
  account issued against a shared code. What the code draws from \<open>secrets\<close> is an argument.
  The layout of the email is not modelled, only who it is sent through and what its outcome
  does to the pass.
\<close>

section \<open>Mail\<close>

record settings =
  sg_pass_code :: string
  sg_pass_until :: "datetime option"
  sg_pass_daily_max :: nat
  sg_public_url :: string
  sg_brevo_api_key :: string
  sg_resend_api_key :: string
  sg_smtp_host :: string
  sg_smtp_user :: string
  sg_smtp_password :: string
  sg_mail_from :: string
  sg_cookie_secure :: bool

definition provider :: "settings \<Rightarrow> string" where
  "provider s =
     (if sg_brevo_api_key s \<noteq> [] then ''brevo''
      else if sg_resend_api_key s \<noteq> [] then ''resend''
      else if sg_smtp_host s \<noteq> [] \<and> sg_smtp_user s \<noteq> [] \<and> sg_smtp_password s \<noteq> [] then ''smtp''
      else [])"

definition sender :: "settings \<Rightarrow> string" where
  "sender s =
     (if sg_mail_from s \<noteq> [] then sg_mail_from s
      else if provider s = ''smtp'' then sg_smtp_user s else [])"

definition configured :: "settings \<Rightarrow> bool" where
  "configured s = (provider s \<noteq> [] \<and> sender s \<noteq> [])"

text \<open>What a provider's transport did: the parameter of \<open>send\<close>.\<close>

datatype delivery = Delivered string | Undelivered string

definition send :: "settings \<Rightarrow> (string \<Rightarrow> delivery) \<Rightarrow> string \<times> string" where
  "send s transport =
     (if provider s = [] \<or> sender s = [] then (''off'', ''no sender configured'')
      else case transport (provider s) of
             Delivered reference \<Rightarrow>
               (''sent'', if provider s = ''smtp'' then ''accepted by '' @ sg_smtp_host s else take 64 reference)
           | Undelivered why \<Rightarrow> (''failed'', why))"

section \<open>Configuration\<close>

definition MIN_CODE_LENGTH :: nat where "MIN_CODE_LENGTH = 16"
definition WINDOW :: int where "WINDOW = microseconds (24 * 3600)"
definition JUDGE_ROLE :: string where "JUDGE_ROLE = ''viewer''"
definition JUDGE_DISPLAY_NAME :: string where "JUDGE_DISPLAY_NAME = ''Judge''"
definition MAX_EMAIL_LENGTH :: nat where "MAX_EMAIL_LENGTH = 64"
definition LANGS :: "string list" where "LANGS = [''en'', ''ar'']"

datatype pass_problem = No_Problem | Code_Unset | Code_Short | Until_Unset | Until_Without_Offset

definition problem :: "settings \<Rightarrow> pass_problem" where
  "problem s =
     (if sg_pass_code s = [] then Code_Unset
      else if length (sg_pass_code s) < MIN_CODE_LENGTH then Code_Short
      else case sg_pass_until s of
             None \<Rightarrow> Until_Unset
           | Some (Naive _) \<Rightarrow> Until_Without_Offset
           | Some (Aware _ _) \<Rightarrow> No_Problem)"

definition code_matches :: "settings \<Rightarrow> string \<Rightarrow> bool" where
  "code_matches s presented =
     (if problem s \<noteq> No_Problem then False else utf8 presented = utf8 (sg_pass_code s))"

definition rstrip_slash :: "string \<Rightarrow> string" where
  "rstrip_slash s = rev (dropWhile (\<lambda>c. c = CHR ''/'') (rev s))"

definition link :: "settings \<Rightarrow> string" where
  "link s = rstrip_slash (sg_public_url s) @ ''/#/pass/'' @ sg_pass_code s"

definition sign_in_url :: "settings \<Rightarrow> string" where
  "sign_in_url s =
     (let base = rstrip_slash (sg_public_url s) in if base = [] then [] else base @ ''/#/signin'')"

section \<open>The switch and the ceiling\<close>

definition pass_enabled :: "auth_db \<Rightarrow> bool" where
  "pass_enabled db = (case ad_pass_enabled db of None \<Rightarrow> True | Some b \<Rightarrow> b)"

definition set_enabled :: "bool \<Rightarrow> auth_db \<Rightarrow> auth_db" where
  "set_enabled b db = db\<lparr>ad_pass_enabled := Some b\<rparr>"

definition issued_in_window :: "int \<Rightarrow> auth_db \<Rightarrow> nat" where
  "issued_in_window now db = length (filter (\<lambda>p. jp_created_at p > now - WINDOW) (ad_passes db))"

definition holders :: "auth_db \<Rightarrow> (pass_row \<times> user) list" where
  "holders db =
     map (\<lambda>p. (p, the (find_user (jp_user_id p) db)))
       (filter (\<lambda>p. find_user (jp_user_id p) db \<noteq> None) (sort_key (\<lambda>p. - jp_created_at p) (ad_passes db)))"

datatype pass_status = Unconfigured | Closed | Paused | Full | Open

definition state :: "settings \<Rightarrow> int \<Rightarrow> auth_db \<Rightarrow> pass_status" where
  "state s now db =
     (if problem s \<noteq> No_Problem then Unconfigured
      else if now \<ge> instant (the (sg_pass_until s)) then Closed
      else if \<not> pass_enabled db then Paused
      else if issued_in_window now db \<ge> sg_pass_daily_max s then Full
      else Open)"

section \<open>Issuing\<close>

text \<open>\<open>_EMAIL.match\<close> for \<open>^[^@\s]+@[^@\s]+\.[^@\s]+$\<close>, on stripped text.\<close>

definition email_shape :: "string \<Rightarrow> bool" where
  "email_shape s =
     (\<not> list_ex is_space s \<and>
      (case split_on CHR ''@'' s of
         [local_part, domain] \<Rightarrow>
           local_part \<noteq> [] \<and> list_ex (\<lambda>i. domain ! i = CHR ''.'') [1..<length domain - 1]
       | _ \<Rightarrow> False))"

definition normalise_email :: "string \<Rightarrow> string option" where
  "normalise_email raw =
     (let email = lower (strip raw)
      in if email = [] \<or> length email > MAX_EMAIL_LENGTH \<or> \<not> email_shape email then None else Some email)"

definition WORDS :: "string list" where
  "WORDS =
     [''acacia'', ''amber'', ''anchor'', ''aspen'', ''bamboo'', ''basalt'', ''beacon'', ''birch'',
      ''breeze'', ''cactus'', ''canal'', ''cedar'', ''cinder'', ''citrus'', ''clover'', ''cobalt'',
      ''comet'', ''copper'', ''coral'', ''cotton'', ''crane'', ''dahlia'', ''delta'', ''desert'',
      ''dune'', ''ember'', ''falcon'', ''fennel'', ''fern'', ''flint'', ''galaxy'', ''garnet'',
      ''glacier'', ''granite'', ''harbor'', ''hazel'', ''heron'', ''horizon'', ''indigo'', ''iris'',
      ''island'', ''ivory'', ''jasmine'', ''juniper'', ''kestrel'', ''lagoon'', ''lantern'', ''lemon'',
      ''lotus'', ''lunar'', ''magnet'', ''maple'', ''marble'', ''meadow'', ''meteor'', ''mint'',
      ''mosaic'', ''nectar'', ''nile'', ''oasis'', ''olive'', ''onyx'', ''orbit'', ''palm'',
      ''papyrus'', ''pebble'', ''pepper'', ''pine'', ''planet'', ''prism'', ''quartz'', ''raven'',
      ''reef'', ''ripple'', ''river'', ''saffron'', ''sage'', ''sand'', ''shore'', ''sierra'',
      ''signal'', ''silver'', ''solar'', ''spark'', ''spruce'', ''summit'', ''sunrise'', ''tide'',
      ''timber'', ''topaz'', ''tulip'', ''tundra'', ''turbine'', ''valley'', ''velvet'', ''violet'',
      ''walnut'', ''willow'', ''wind'', ''zephyr'', ''zinc'']"

definition generate_password :: "nat \<Rightarrow> nat \<Rightarrow> nat \<Rightarrow> nat \<Rightarrow> string" where
  "generate_password i j k n =
     (WORDS ! i) @ ''-'' @ (WORDS ! j) @ ''-'' @ (WORDS ! k) @ ''-'' @ nat_digits (n + 10)"

datatype pass_refusal = Refused pass_status | Exists | Creation_Failed auth_error

record issued_pass =
  is_user :: user
  is_row :: pass_row
  is_password :: string

text \<open>\<open>issue\<close>: \<open>password\<close> is what \<open>generate_password\<close> returned, \<open>pass_id\<close> the new row's id.\<close>

definition issue ::
  "scrypt_fn \<Rightarrow> settings \<Rightarrow> env \<Rightarrow> string \<Rightarrow> string \<Rightarrow> string \<Rightarrow> string \<Rightarrow> auth_db \<Rightarrow>
     (pass_refusal, issued_pass \<times> auth_db) sum" where
  "issue scrypt s e pass_id password email lang db =
     (let current = state s (en_now e) db
      in if current \<noteq> Open then Inl (Refused current)
         else if user_named email db \<noteq> None \<or> list_ex (\<lambda>p. jp_email p = email) (ad_passes db)
         then Inl Exists
         else case create_user scrypt e email password JUDGE_ROLE JUDGE_DISPLAY_NAME None False db of
                Inl err \<Rightarrow> Inl (Creation_Failed err)
              | Inr (u, db1) \<Rightarrow>
                  let expires = Some (instant (the (sg_pass_until s)));
                      u1 = u\<lparr>us_access_expires_at := expires\<rparr>;
                      row = \<lparr>jp_id = pass_id, jp_user_id = us_id u, jp_email = email,
                             jp_lang = (if lang \<in> set LANGS then lang else ''en''), jp_created_at = en_now e,
                             jp_mail_status = (if configured s then ''queued'' else ''off''),
                             jp_mail_detail = [], jp_mail_at = None\<rparr>;
                      db2 = update_row (us_id u) (\<lambda>x. x\<lparr>us_access_expires_at := expires\<rparr>) db1
                  in Inr (\<lparr>is_user = u1, is_row = row, is_password = password\<rparr>,
                          db2\<lparr>ad_passes := ad_passes db2 @ [row]\<rparr>))"

text \<open>\<open>deliver\<close>: the outcome goes on the pass row, if it can be recorded.\<close>

definition deliver :: "settings \<Rightarrow> (string \<Rightarrow> delivery) \<Rightarrow> bool \<Rightarrow> int \<Rightarrow> string \<Rightarrow> auth_db \<Rightarrow> auth_db" where
  "deliver s transport db_ok now pass_id db =
     (let (status, detail) = send s transport
      in if \<not> db_ok then db
         else db\<lparr>ad_passes := map (\<lambda>p. if jp_id p = pass_id
                then p\<lparr>jp_mail_status := status, jp_mail_detail := take 200 detail, jp_mail_at := Some now\<rparr>
                else p) (ad_passes db)\<rparr>)"

section \<open>Generated passwords\<close>

lemma words_length: "w \<in> set WORDS \<Longrightarrow> 4 \<le> length w \<and> length w \<le> 8"
proof -
  have "list_all (\<lambda>w. 4 \<le> length w \<and> length w \<le> 8) WORDS" by (simp add: WORDS_def)
  then show "w \<in> set WORDS \<Longrightarrow> 4 \<le> length w \<and> length w \<le> 8" by (simp add: list_all_iff)
qed


lemma lower_in: "c \<in> set s \<Longrightarrow> lower_char c \<in> set (lower s)"
  by (simp add: lower_def)

lemma two_digits: "10 \<le> n \<Longrightarrow> n < 100 \<Longrightarrow> length (nat_digits n) = 2"
  by (simp add: nat_digits.simps [of n] nat_digits.simps [of "n div 10"])

lemma generated_password_length:
  assumes "i < length WORDS" and "j < length WORDS" and "k < length WORDS" and "n < 90"
  shows "17 \<le> length (generate_password i j k n) \<and> length (generate_password i j k n) \<le> 29"
  using words_length [OF nth_mem [OF assms(1)]] words_length [OF nth_mem [OF assms(2)]]
    words_length [OF nth_mem [OF assms(3)]] two_digits [of "n + 10"] assms(4)
  by (simp add: generate_password_def)

text \<open>
  The password a pass is created with always satisfies the policy, whatever the random
  choices, so that issuing a pass never fails for a weak password.
\<close>
theorem generated_password_valid:
  assumes "i < length WORDS" and "j < length WORDS" and "k < length WORDS" and "n < 90"
  shows "policy (generate_password i j k n) = Inr ()"
proof -
  have "CHR ''-'' \<in> set (lower (generate_password i j k n))"
    using lower_in [of "CHR ''-''" "generate_password i j k n"]
    by (simp add: generate_password_def lower_char_def)
  moreover have "\<forall>w \<in> set OBVIOUS_PASSWORDS. CHR ''-'' \<notin> set w" by (simp add: OBVIOUS_PASSWORDS_def)
  ultimately have "lower (generate_password i j k n) \<notin> set OBVIOUS_PASSWORDS" by blast
  then show ?thesis using generated_password_length [OF assms]
    by (simp add: policy_def validate_def MIN_PASSWORD_LENGTH_def MAX_PASSWORD_LENGTH_def)
qed

section \<open>The ceiling\<close>

record pass_attempt =
  pa_env :: env
  pa_id :: string
  pa_password :: string
  pa_email :: string
  pa_lang :: string

definition try_issue :: "scrypt_fn \<Rightarrow> settings \<Rightarrow> auth_db \<Rightarrow> pass_attempt \<Rightarrow> auth_db" where
  "try_issue scrypt s db a =
     (case issue scrypt s (pa_env a) (pa_id a) (pa_password a) (pa_email a) (pa_lang a) db of
        Inl _ \<Rightarrow> db | Inr (_, db1) \<Rightarrow> db1)"

definition in_window :: "int \<Rightarrow> auth_db \<Rightarrow> nat" where
  "in_window t db = length (filter (\<lambda>p. t - WINDOW < jp_created_at p \<and> jp_created_at p \<le> t) (ad_passes db))"

lemma create_user_passes:
  "create_user scrypt e username password role name org must db = Inr (u, db1) \<Longrightarrow> ad_passes db1 = ad_passes db"
  by (auto simp: create_user_def Let_def result_simps default_organization_def split: if_splits option.splits prod.splits list.splits)

lemma issue_passes:
  assumes "issue scrypt s e pass_id password email lang db = Inr (i, db1)"
  shows "ad_passes db1 = ad_passes db @ [is_row i] \<and> jp_created_at (is_row i) = en_now e \<and>
         issued_in_window (en_now e) db < sg_pass_daily_max s \<and> state s (en_now e) db = Open"
proof -
  have st: "state s (en_now e) db = Open"
    using assms by (auto simp: issue_def Let_def split: if_splits)
  then have "issued_in_window (en_now e) db < sg_pass_daily_max s"
    by (auto simp: state_def split: if_splits)
  then show ?thesis using assms st
    by (auto simp: issue_def Let_def update_row_def split: if_splits sum.splits prod.splits dest!: create_user_passes)
qed

lemma try_issue_window:
  assumes "\<forall>t. in_window t db \<le> sg_pass_daily_max s" and "\<forall>p \<in> set (ad_passes db). jp_created_at p \<le> en_now (pa_env a)"
  shows "(\<forall>t. in_window t (try_issue scrypt s db a) \<le> sg_pass_daily_max s) \<and>
         (\<forall>p \<in> set (ad_passes (try_issue scrypt s db a)). jp_created_at p \<le> en_now (pa_env a))"
proof (cases "issue scrypt s (pa_env a) (pa_id a) (pa_password a) (pa_email a) (pa_lang a) db")
  case (Inl err)
  then show ?thesis using assms by (simp add: try_issue_def)
next
  case (Inr res)
  obtain i db1 where res: "res = (i, db1)" by (rule prod.exhaust)
  let ?now = "en_now (pa_env a)"
  have p: "ad_passes db1 = ad_passes db @ [is_row i]" "jp_created_at (is_row i) = ?now"
    "issued_in_window ?now db < sg_pass_daily_max s"
    using issue_passes [of scrypt s "pa_env a" "pa_id a" "pa_password a" "pa_email a" "pa_lang a" db i db1] Inr res by auto
  have "in_window t db1 \<le> sg_pass_daily_max s" for t
  proof (cases "t < ?now")
    case True
    then show ?thesis using assms(1) p by (simp add: in_window_def)
  next
    case False
    have "filter (\<lambda>p. t - WINDOW < jp_created_at p \<and> jp_created_at p \<le> t) (ad_passes db) =
          filter (\<lambda>p. t - WINDOW < jp_created_at p) (filter (\<lambda>p. jp_created_at p > ?now - WINDOW) (ad_passes db))"
      using assms(2) False by (auto intro!: filter_cong)
    then have "in_window t db \<le> issued_in_window ?now db"
      unfolding in_window_def issued_in_window_def by (metis length_filter_le)
    moreover have "in_window t db1 \<le> Suc (in_window t db)" using p by (simp add: in_window_def)
    ultimately show ?thesis using p(3) by simp
  qed
  then show ?thesis using Inr res p assms(2) by (auto simp: try_issue_def)
qed


definition sample_pass_settings :: settings where
  "sample_pass_settings =
     \<lparr>sg_pass_code = ''0123456789abcdef'', sg_pass_until = Some (Aware (microseconds 90000) (microseconds 10800)),
      sg_pass_daily_max = 1, sg_public_url = ''https://gemp.example/'', sg_brevo_api_key = [], sg_resend_api_key = [],
      sg_smtp_host = [], sg_smtp_user = [], sg_smtp_password = [], sg_mail_from = [], sg_cookie_secure = True\<rparr>"

definition sample_pass_attempt :: "string \<Rightarrow> pass_attempt" where
  "sample_pass_attempt address =
     \<lparr>pa_env = sample_env, pa_id = ''p1'', pa_password = generate_password 0 1 2 3, pa_email = address, pa_lang = ''ar''\<rparr>"

theorem generated_password_valid_witness: "policy (generate_password 100 0 7 89) = Inr ()"
  by (rule generated_password_valid) (simp_all add: WORDS_def)

lemma sample_pass_issued:
  "\<exists>i db. issue sample_scrypt sample_pass_settings sample_env ''p1'' (generate_password 0 1 2 3) ''a@b.eg'' ''ar'' sample_auth_db =
     Inr (i, db) \<and> ad_passes db = [is_row i]"
proof -
  have v: "policy (generate_password 0 1 2 3) = Inr ()"
    using generated_password_length [of 0 1 2 3] lower_in [of "CHR ''-''" "generate_password 0 1 2 3"]
    by (simp add: policy_def validate_def MIN_PASSWORD_LENGTH_def MAX_PASSWORD_LENGTH_def OBVIOUS_PASSWORDS_def WORDS_def
        generate_password_def lower_char_def lower_def two_digits)
  have n: "normalise_username ''a@b.eg'' = ''a@b.eg''"
    by (simp add: normalise_username_def strip_def is_space_def lower_def lower_char_def)
  obtain h where h: "hashed sample_scrypt sample_env (generate_password 0 1 2 3) = Inr h"
    by (simp add: hashed_def hash_password_def derive_def sample_scrypt_def)
  have s: "state sample_pass_settings (en_now sample_env) sample_auth_db = Open"
    by (simp add: state_def problem_def sample_pass_settings_def MIN_CODE_LENGTH_def pass_enabled_def issued_in_window_def
        sample_account_defs)
  have nobody: "user_named ''a@b.eg'' sample_auth_db = None" "ad_passes sample_auth_db = []"
    by (simp_all add: user_named_def sample_account_defs)
  have g: "ad_organizations sample_auth_db = [\<lparr>og_id = ''o1'', og_name = DEFAULT_ORG_NAME\<rparr>]"
    by (simp add: sample_auth_db_def)
  have "\<exists>u db. create_user sample_scrypt sample_env ''a@b.eg'' pw JUDGE_ROLE JUDGE_DISPLAY_NAME None False sample_auth_db =
      Inr (u, db)" if "policy pw = Inr ()" "hashed sample_scrypt sample_env pw = Inr h" for pw
    using that n nobody(1) g
    by (simp add: create_user_def JUDGE_ROLE_def ROLES_def ORDER_def default_organization_def Let_def)
  from this [OF v h] obtain u db1 where c: "create_user sample_scrypt sample_env ''a@b.eg'' (generate_password 0 1 2 3)
      JUDGE_ROLE JUDGE_DISPLAY_NAME None False sample_auth_db = Inr (u, db1)" by blast
  have "ad_passes db1 = []" using create_user_passes [OF c] nobody(2) by simp
  then show ?thesis using c s nobody by (simp add: issue_def Let_def update_row_def)
qed


end
