(* ===== verification/AuthRoutes.thy ===== *)
theory AuthRoutes
  imports Gate JudgePass "HOL-Library.List_Lexorder" "HOL-Library.Char_ord"
begin

text \<open>
  \<open>src/gemp/api/auth_routes.py\<close>: sign-in, self-service, user administration and the Judge
  Pass endpoints, as functions from the state of the service to an answer and a new state. A
  handler that raises leaves the database as it found it, unless it committed first; the
  throttle is process memory and keeps what was done to it. Answers carry the values the code
  computes, not their JSON layout.
\<close>

record deployment =
  dp_scrypt :: scrypt_fn
  dp_sha :: "string \<Rightarrow> string"
  dp_v6 :: "string \<Rightarrow> bool option"
  dp_absent :: string
  dp_settings :: settings

record cookie =
  ck_token :: string
  ck_max_age :: int

record user_view =
  uv_id :: string
  uv_username :: string
  uv_role :: string
  uv_is_active :: bool
  uv_must_change_password :: bool
  uv_access_expires_at :: "int option"

definition user_json :: "user \<Rightarrow> user_view" where
  "user_json u =
     \<lparr>uv_id = us_id u, uv_username = us_username u, uv_role = us_role u, uv_is_active = us_is_active u,
      uv_must_change_password = us_must_change_password u, uv_access_expires_at = us_access_expires_at u\<rparr>"

text \<open>The cookies live as long as the session row, between a second and a week.\<close>

definition set_session_cookies :: "env \<Rightarrow> string \<Rightarrow> int \<Rightarrow> cookie" where
  "set_session_cookies e token expires_at =
     \<lparr>ck_token = token,
      ck_max_age = max 1 (min (ABSOLUTE_LIFETIME div 1000000) ((expires_at - en_now e) div 1000000))\<rparr>"

definition with_db :: "service_state \<Rightarrow> auth_db \<Rightarrow> service_state" where
  "with_db st db = st\<lparr>st_db := db\<rparr>"

definition rolled_back :: "service_state \<Rightarrow> service_state \<Rightarrow> service_state" where
  "rolled_back st st' = st'\<lparr>st_db := st_db st\<rparr>"

definition refused_as :: "auth_error \<Rightarrow> refusal" where
  "refused_as err = (case err of
       Auth_Error m \<Rightarrow> Conflict m | Throttled w \<Rightarrow> Too_Many_Attempts w
     | Weak_Password w \<Rightarrow> Unprocessable w | Unexpected x \<Rightarrow> Internal_Error x)"

section \<open>Signing in and out\<close>

definition between :: "nat \<Rightarrow> nat \<Rightarrow> string \<Rightarrow> bool" where
  "between lo hi s = (lo \<le> length s \<and> length s \<le> hi)"

definition login ::
  "deployment \<Rightarrow> env \<Rightarrow> string \<Rightarrow> string \<Rightarrow> service_state \<Rightarrow>
     (refusal, user_view \<times> cookie) sum \<times> service_state" where
  "login d e username password st =
     (if \<not> (between 1 64 username \<and> between 1 1024 password) then (Inl (Unprocessable ''body''), st)
      else case authenticate (dp_scrypt d) (dp_v6 d) (dp_absent d) e username password st of
        (Inl (Throttled w), st1) \<Rightarrow> (Inl (Too_Many_Attempts w), st1)
      | (Inl (Auth_Error _), st1) \<Rightarrow> (Inl Unauthenticated, st1)
      | (Inl err, st1) \<Rightarrow> (Inl (refused_as err), rolled_back st st1)
      | (Inr u, st1) \<Rightarrow>
          let ((token, row), db) = issue_session (dp_sha d) e u (st_db st1);
              st2 = audit e ''auth.login'' None (us_username u) '''' ''ok'' (with_db st1 db)
          in (Inr (user_json u, set_session_cookies e token (se_expires_at row)), st2))"

definition logout :: "deployment \<Rightarrow> env \<Rightarrow> request \<Rightarrow> principal option \<Rightarrow> service_state \<Rightarrow> service_state" where
  "logout d e rq who st =
     (let token = dict_get (rq_cookies rq) SESSION_COOKIE []
      in if token = [] then st
         else audit e ''auth.logout'' who '''' '''' ''ok'' (with_db st (revoke_session (dp_sha d) e token (st_db st))))"

definition whoami :: "principal option \<Rightarrow> principal option" where "whoami who = who"

text \<open>Each live session of the caller, with whether it is the one that asks.\<close>

definition my_sessions ::
  "deployment \<Rightarrow> env \<Rightarrow> request \<Rightarrow> principal option \<Rightarrow> auth_db \<Rightarrow> (refusal, (session_row \<times> bool) list) sum" where
  "my_sessions d e rq who db =
     rbind (current_principal who) (\<lambda>p.
       let token = dict_get (rq_cookies rq) SESSION_COOKIE [];
           current_hash = (if token = [] then None else Some (dp_sha d token))
       in Inr (map (\<lambda>s. (s, Some (se_token_hash s) = current_hash)) (active_sessions e (pr_user_id p) db)))"

definition change_password ::
  "deployment \<Rightarrow> env \<Rightarrow> principal option \<Rightarrow> string \<Rightarrow> string \<Rightarrow> service_state \<Rightarrow>
     (refusal, cookie) sum \<times> service_state" where
  "change_password d e who current new st =
     (case current_principal who of
        Inl r \<Rightarrow> (Inl r, st)
      | Inr p \<Rightarrow>
          (case find_user (pr_user_id p) (st_db st) of
             None \<Rightarrow> (Inl Unauthenticated, st)
           | Some u \<Rightarrow>
               let (wait, fs) = login_throttled (dp_v6 d) (pr_username p) (en_ip e) (en_clock e) (st_failures st);
                   st1 = st\<lparr>st_failures := fs\<rparr>
               in if wait \<noteq> 0 then (Inl (Too_Many_Attempts wait), st1)
                  else case verify (dp_scrypt d) current (us_password_hash u) of
                    Inl err \<Rightarrow> (Inl (Internal_Error err), st1)
                  | Inr False \<Rightarrow>
                      (Inl (Forbidden ''current password is incorrect''),
                       audit e ''auth.password_change'' (Some p) '''' '''' ''denied''
                         (st1\<lparr>st_failures := record_login_failure (dp_v6 d) (pr_username p) (en_ip e) (en_clock e) fs\<rparr>))
                  | Inr True \<Rightarrow>
                      let st2 = st1\<lparr>st_failures := clear_failures (''user:'' @ pr_username p) fs\<rparr>
                      in case set_password (dp_scrypt d) e (us_id u) new False (st_db st2) of
                           Inl err \<Rightarrow> (Inl (refused_as err), st2)
                         | Inr db \<Rightarrow>
                             let ((token, row), db1) = issue_session (dp_sha d) e u db
                             in (Inr (set_session_cookies e token (se_expires_at row)),
                                 audit e ''auth.password_change'' (Some p) '''' '''' ''ok'' (with_db st2 db1))))"

section \<open>Administration\<close>

definition list_users :: "principal option \<Rightarrow> auth_db \<Rightarrow> (refusal, user_view list) sum" where
  "list_users who db =
     rbind (require ''admin'' who) (\<lambda>_. Inr (map user_json (sort_key us_username (ad_users db))))"

definition add_user ::
  "deployment \<Rightarrow> env \<Rightarrow> principal option \<Rightarrow> string \<Rightarrow> string \<Rightarrow> string \<Rightarrow> string \<Rightarrow> service_state \<Rightarrow>
     (refusal, user_view) sum \<times> service_state" where
  "add_user d e who username password role display_name st =
     (case require ''admin'' who of
        Inl r \<Rightarrow> (Inl r, st)
      | Inr admin \<Rightarrow>
          if \<not> (between 1 64 username \<and> between 1 1024 password \<and> length display_name \<le> 128)
          then (Inl (Unprocessable ''body''), st)
          else if role \<notin> set ROLES then (Inl (Unprocessable ''unknown role''), st)
          else case create_user (dp_scrypt d) e username password role display_name
                      (Some (pr_organization_id admin)) True (st_db st) of
            Inl err \<Rightarrow> (Inl (refused_as err), st)
          | Inr (u, db) \<Rightarrow>
              (Inr (user_json u), audit e ''user.create'' (Some admin) '''' (us_username u) ''ok'' (with_db st db)))"

record user_update =
  uu_role :: "string option"
  uu_is_active :: "bool option"
  uu_display_name :: "string option"

definition check_update :: "principal \<Rightarrow> user \<Rightarrow> user_update \<Rightarrow> refusal option" where
  "check_update admin u body =
     (if (case uu_role body of None \<Rightarrow> False | Some r \<Rightarrow> r \<notin> set ROLES) then Some (Unprocessable ''unknown role'')
      else if (case uu_role body of None \<Rightarrow> False | Some r \<Rightarrow> us_id u = pr_user_id admin \<and> r \<noteq> ''admin'')
      then Some (Conflict ''an admin cannot remove their own admin role'')
      else if uu_is_active body = Some False \<and> us_id u = pr_user_id admin
      then Some (Conflict ''an admin cannot disable their own account'')
      else None)"

definition apply_update :: "user_update \<Rightarrow> user \<Rightarrow> user" where
  "apply_update body u =
     u\<lparr>us_role := (case uu_role body of None \<Rightarrow> us_role u | Some r \<Rightarrow> r),
       us_is_active := (case uu_is_active body of None \<Rightarrow> us_is_active u | Some a \<Rightarrow> a),
       us_display_name := (case uu_display_name body of None \<Rightarrow> us_display_name u | Some n \<Rightarrow> n)\<rparr>"

definition update_user ::
  "env \<Rightarrow> principal option \<Rightarrow> string \<Rightarrow> user_update \<Rightarrow> service_state \<Rightarrow>
     (refusal, user_view) sum \<times> service_state" where
  "update_user e who uid body st =
     (case require ''admin'' who of
        Inl r \<Rightarrow> (Inl r, st)
      | Inr admin \<Rightarrow>
          (case find_user uid (st_db st) of
             None \<Rightarrow> (Inl Not_Found, st)
           | Some u \<Rightarrow>
               (case check_update admin u body of
                  Some r \<Rightarrow> (Inl r, st)
                | None \<Rightarrow>
                    let db = update_row uid (apply_update body) (st_db st);
                        db1 = (if uu_is_active body = Some False then snd (revoke_all_sessions e uid db) else db)
                    in (Inr (user_json (apply_update body u)),
                        audit e ''user.update'' (Some admin) '''' (us_username u) ''ok'' (with_db st db1)))))"

definition reset_password ::
  "deployment \<Rightarrow> env \<Rightarrow> principal option \<Rightarrow> string \<Rightarrow> string \<Rightarrow> service_state \<Rightarrow>
     (refusal, unit) sum \<times> service_state" where
  "reset_password d e who uid new st =
     (case require ''admin'' who of
        Inl r \<Rightarrow> (Inl r, st)
      | Inr admin \<Rightarrow>
          (case find_user uid (st_db st) of
             None \<Rightarrow> (Inl Not_Found, st)
           | Some u \<Rightarrow>
               (case set_password (dp_scrypt d) e uid new True (st_db st) of
                  Inl err \<Rightarrow> (Inl (refused_as err), st)
                | Inr db \<Rightarrow>
                    (Inr (), audit e ''user.password_reset'' (Some admin) '''' (us_username u) ''ok'' (with_db st db)))))"

definition read_audit ::
  "principal option \<Rightarrow> int \<Rightarrow> string \<Rightarrow> auth_db \<Rightarrow> (refusal, audit_row list) sum" where
  "read_audit who limit action db =
     rbind (require ''admin'' who) (\<lambda>_.
       Inr (take (nat (min (max limit 1) 1000))
              (sort_key (\<lambda>r. - ar_ts r) (filter (\<lambda>r. action = [] \<or> ar_action r = action) (ad_audit db)))))"

record posture =
  po_cookie_secure :: bool
  po_stale_cost :: nat
  po_audit_failures :: nat
  po_users :: nat
  po_recent_failed :: "audit_row list"
  po_warnings :: nat

definition stale_cost :: "auth_db \<Rightarrow> nat" where
  "stale_cost db =
     length (filter (\<lambda>u. case cost_of (us_password_hash u) of None \<Rightarrow> False | Some c \<Rightarrow> c < DEFAULT_N) (ad_users db))"

definition security_posture :: "deployment \<Rightarrow> principal option \<Rightarrow> service_state \<Rightarrow> (refusal, posture) sum" where
  "security_posture d who st =
     rbind (require ''admin'' who) (\<lambda>_.
       let db = st_db st; secure = sg_cookie_secure (dp_settings d)
       in Inr \<lparr>po_cookie_secure = secure, po_stale_cost = stale_cost db, po_audit_failures = st_audit_failures st,
               po_users = length (ad_users db),
               po_recent_failed = take 10 (sort_key (\<lambda>r. - ar_ts r)
                 (filter (\<lambda>r. ar_action r = ''auth.login'' \<and> ar_outcome r = ''denied'') (ad_audit db))),
               po_warnings = (if stale_cost db > 0 then 1 else 0) + (if secure then 0 else 1) +
                             (if st_audit_failures st > 0 then 1 else 0)\<rparr>)"

section \<open>Judge Pass\<close>

definition pass_check :: "deployment \<Rightarrow> env \<Rightarrow> string \<Rightarrow> auth_db \<Rightarrow> pass_status option" where
  "pass_check d e code db =
     (if code_matches (dp_settings d) code then Some (state (dp_settings d) (en_now e) db) else None)"

definition pass_refusal_status :: "pass_status \<Rightarrow> refusal" where
  "pass_refusal_status s = (case s of
       Closed \<Rightarrow> Gone ''closed'' | Paused \<Rightarrow> Forbidden ''paused'' | Full \<Rightarrow> Too_Many_Attempts 0 | _ \<Rightarrow> Not_Found)"

record pass_granted =
  pg_user :: user_view
  pg_cookie :: cookie
  pg_mail_status :: string

definition pass_redeem ::
  "deployment \<Rightarrow> env \<Rightarrow> string \<Rightarrow> string \<Rightarrow> string \<Rightarrow> string \<Rightarrow> string \<Rightarrow> service_state \<Rightarrow>
     (refusal, pass_granted) sum \<times> service_state" where
  "pass_redeem d e pass_id password code raw_email lang st =
     (if \<not> (between 1 128 code \<and> between 1 254 raw_email \<and> length lang \<le> 8) then (Inl (Unprocessable ''body''), st)
      else if \<not> code_matches (dp_settings d) code then (Inl Not_Found, st)
      else case normalise_email raw_email of
        None \<Rightarrow> (Inl (Unprocessable ''email''), st)
      | Some email \<Rightarrow>
          (case issue (dp_scrypt d) (dp_settings d) e pass_id password email
                  (if lang \<in> set LANGS then lang else ''en'') (st_db st) of
             Inl (Refused s) \<Rightarrow> (Inl (pass_refusal_status s), st)
           | Inl Exists \<Rightarrow> (Inl (Conflict ''exists''), st)
           | Inl (Creation_Failed err) \<Rightarrow> (Inl (refused_as err), st)
           | Inr (i, db) \<Rightarrow>
               let u = (is_user i)\<lparr>us_last_login_at := Some (en_now e)\<rparr>;
                   db1 = update_row (us_id u) (\<lambda>x. x\<lparr>us_last_login_at := Some (en_now e)\<rparr>) db;
                   ((token, row), db2) = issue_session (dp_sha d) e u db1
               in (Inr \<lparr>pg_user = user_json u, pg_cookie = set_session_cookies e token (se_expires_at row),
                        pg_mail_status = jp_mail_status (is_row i)\<rparr>,
                   audit e ''pass.redeem'' None (us_username u) '''' ''ok'' (with_db st db2))))"

record pass_overview =
  ov_state :: pass_status
  ov_problem :: pass_problem
  ov_enabled :: bool
  ov_issued_24h :: nat
  ov_total :: nat
  ov_mail_configured :: bool
  ov_link :: "string option"
  ov_passes :: "(pass_row \<times> user) list"

definition judge_pass_overview :: "deployment \<Rightarrow> env \<Rightarrow> auth_db \<Rightarrow> pass_overview" where
  "judge_pass_overview d e db =
     (let s = dp_settings d
      in \<lparr>ov_state = state s (en_now e) db, ov_problem = problem s, ov_enabled = pass_enabled db,
          ov_issued_24h = issued_in_window (en_now e) db, ov_total = length (holders db),
          ov_mail_configured = configured s, ov_link = (if problem s = No_Problem then Some (link s) else None),
          ov_passes = holders db\<rparr>)"

definition judge_pass_status :: "deployment \<Rightarrow> env \<Rightarrow> principal option \<Rightarrow> auth_db \<Rightarrow> (refusal, pass_overview) sum" where
  "judge_pass_status d e who db = rbind (require ''admin'' who) (\<lambda>_. Inr (judge_pass_overview d e db))"

definition judge_pass_switch ::
  "deployment \<Rightarrow> env \<Rightarrow> principal option \<Rightarrow> bool \<Rightarrow> service_state \<Rightarrow> (refusal, pass_overview) sum \<times> service_state" where
  "judge_pass_switch d e who enabled st =
     (case require ''admin'' who of
        Inl r \<Rightarrow> (Inl r, st)
      | Inr admin \<Rightarrow>
          let st1 = audit e ''pass.switch'' (Some admin) '''' '''' ''ok'' (with_db st (set_enabled enabled (st_db st)))
          in (Inr (judge_pass_overview d e (st_db st1)), st1))"

end
