(* ===== verification/Access.thy ===== *)
theory Access
  imports AuthRoutes
begin

text \<open>
  The service as a state machine: requests pass the middleware and reach their handler, the
  clock moves forward, expired sessions are purged, the outcome of an email is recorded, the
  process restarts, an operator bootstraps an account. The theorems are invariants of the
  states it can reach. Requests are handled one after the other.
\<close>

section \<open>Requests\<close>

datatype call =
    Call_Login string string
  | Call_Logout
  | Call_Change_Password string string
  | Call_Add_User string string string string
  | Call_Update_User string user_update
  | Call_Reset_Password string string
  | Call_Pass_Redeem string string string string string
  | Call_Pass_Switch bool
  | Call_Read string

fun call_path :: "call \<Rightarrow> string" where
  "call_path (Call_Login _ _) = ''/api/v1/auth/login''"
| "call_path Call_Logout = ''/api/v1/auth/logout''"
| "call_path (Call_Change_Password _ _) = ''/api/v1/auth/password''"
| "call_path (Call_Add_User _ _ _ _) = ''/api/v1/admin/users''"
| "call_path (Call_Update_User uid _) = ''/api/v1/admin/users/'' @ uid"
| "call_path (Call_Reset_Password uid _) = ''/api/v1/admin/users/'' @ uid @ ''/password''"
| "call_path (Call_Pass_Redeem _ _ _ _ _) = ''/api/v1/pass/redeem''"
| "call_path (Call_Pass_Switch _) = ''/api/v1/admin/judge-pass''"
| "call_path (Call_Read path) = path"

fun handle :: "deployment \<Rightarrow> env \<Rightarrow> request \<Rightarrow> principal option \<Rightarrow> call \<Rightarrow> service_state \<Rightarrow> service_state" where
  "handle d e rq who (Call_Login username password) st = snd (login d e username password st)"
| "handle d e rq who Call_Logout st = logout d e rq who st"
| "handle d e rq who (Call_Change_Password current new) st = snd (change_password d e who current new st)"
| "handle d e rq who (Call_Add_User username password role name) st =
     snd (add_user d e who username password role name st)"
| "handle d e rq who (Call_Update_User uid body) st = snd (update_user e who uid body st)"
| "handle d e rq who (Call_Reset_Password uid new) st = snd (reset_password d e who uid new st)"
| "handle d e rq who (Call_Pass_Redeem pass_id password code email lang) st =
     snd (pass_redeem d e pass_id password code email lang st)"
| "handle d e rq who (Call_Pass_Switch b) st = snd (judge_pass_switch d e who b st)"
| "handle d e rq who (Call_Read path) st = st"

definition served ::
  "deployment \<Rightarrow> bool \<Rightarrow> env \<Rightarrow> request \<Rightarrow> call \<Rightarrow> service_state \<Rightarrow> service_state" where
  "served d lookup_ok e rq call st =
     (case security_middleware (dp_sha d) [] lookup_ok e rq (st_db st) of
        (Inl _, db) \<Rightarrow> with_db st db
      | (Inr who, db) \<Rightarrow> handle d e rq who call (with_db st db))"

section \<open>Bootstrapping\<close>

text \<open>
  \<open>src/gemp/auth/bootstrap.py\<close>: refused when accounts exist, unless forced; a generated
  password must be changed.
\<close>

definition bootstrap ::
  "deployment \<Rightarrow> env \<Rightarrow> string \<Rightarrow> string \<Rightarrow> string \<Rightarrow> bool \<Rightarrow> string option \<Rightarrow> string \<Rightarrow> service_state \<Rightarrow>
     bool \<times> service_state" where
  "bootstrap d e username display_name role force supplied generated st =
     (let password = (case supplied of None \<Rightarrow> generated | Some p \<Rightarrow> if p = [] then generated else p);
          is_generated = (case supplied of None \<Rightarrow> True | Some p \<Rightarrow> p = [])
      in case policy password of
           Inl _ \<Rightarrow> (False, st)
         | Inr _ \<Rightarrow>
             if ad_users (st_db st) \<noteq> [] \<and> \<not> force then (False, st)
             else case create_user (dp_scrypt d) e username password role display_name None is_generated (st_db st) of
               Inl _ \<Rightarrow> (False, st)
             | Inr (u, db) \<Rightarrow>
                 (True, audit e ''user.bootstrap'' None (us_username u) '''' ''ok'' (with_db st db)))"

section \<open>The machine\<close>

record access_state =
  ac_service :: service_state
  ac_now :: int

definition empty_auth_db :: auth_db where
  "empty_auth_db = \<lparr>ad_organizations = [], ad_users = [], ad_sessions = [], ad_audit = [], ad_passes = [],
                    ad_pass_enabled = None\<rparr>"

inductive access_step :: "deployment \<Rightarrow> access_state \<Rightarrow> access_state \<Rightarrow> bool" for d where
  serving:
    "ac_now a \<le> en_now e \<Longrightarrow> en_uuid e \<notin> us_id ` set (ad_users (st_db (ac_service a))) \<Longrightarrow>
     rq_path rq = call_path call \<Longrightarrow>
       access_step d a \<lparr>ac_service = served d lookup_ok e rq call (ac_service a), ac_now = en_now e\<rparr>"
| bootstrapping:
    "ac_now a \<le> en_now e \<Longrightarrow> en_uuid e \<notin> us_id ` set (ad_users (st_db (ac_service a))) \<Longrightarrow>
       access_step d a \<lparr>ac_service = snd (bootstrap d e username name role force supplied generated (ac_service a)),
                        ac_now = en_now e\<rparr>"
| purging:
    "ac_now a \<le> en_now e \<Longrightarrow>
       access_step d a \<lparr>ac_service = with_db (ac_service a) (snd (purge_expired_sessions e (st_db (ac_service a)))),
                        ac_now = en_now e\<rparr>"
| delivering:
    "ac_now a \<le> now \<Longrightarrow>
       access_step d a \<lparr>ac_service = with_db (ac_service a)
           (deliver (dp_settings d) transport db_ok now pass_id (st_db (ac_service a))), ac_now = now\<rparr>"
| restarting:
    "access_step d a (a\<lparr>ac_service := (ac_service a)\<lparr>st_failures := [], st_audit_failures := 0\<rparr>\<rparr>)"

inductive access_reachable :: "deployment \<Rightarrow> access_state \<Rightarrow> bool" for d where
  start: "access_reachable d
            \<lparr>ac_service = \<lparr>st_db = empty_auth_db, st_failures = [], st_audit_failures = 0\<rparr>, ac_now = now\<rparr>"
| step: "access_reachable d a \<Longrightarrow> access_step d a b \<Longrightarrow> access_reachable d b"

section \<open>Well-formed tables\<close>

definition account_ok :: "user \<Rightarrow> bool" where
  "account_ok u \<longleftrightarrow> us_role u \<in> set ROLES \<and> us_username u \<noteq> [] \<and>
                    normalise_username (us_username u) = us_username u"

definition accounts_ok :: "auth_db \<Rightarrow> bool" where
  "accounts_ok db \<longleftrightarrow> distinct (map us_id (ad_users db)) \<and> distinct (map us_username (ad_users db)) \<and>
                      (\<forall>u \<in> set (ad_users db). account_ok u)"

definition session_ok :: "auth_db \<Rightarrow> int \<Rightarrow> session_row \<Rightarrow> bool" where
  "session_ok db now s \<longleftrightarrow>
     se_created_at s \<le> se_last_seen_at s \<and> se_last_seen_at s \<le> now \<and>
     se_expires_at s \<le> se_created_at s + ABSOLUTE_LIFETIME \<and>
     (\<exists>u \<in> set (ad_users db). us_id u = se_user_id s \<and>
        (\<forall>t. us_access_expires_at u = Some t \<longrightarrow> se_expires_at s \<le> t))"

definition auth_ok :: "auth_db \<Rightarrow> int \<Rightarrow> bool" where
  "auth_ok db now \<longleftrightarrow> accounts_ok db \<and> (\<forall>s \<in> set (ad_sessions db). session_ok db now s)"

text \<open>Names: trimming and lower-casing twice is doing it once.\<close>

lemma lower_char_idem [simp]: "lower_char (lower_char c) = lower_char c"
  using of_char_lt_256 [of c] by (auto simp: lower_char_def Let_def of_char_of)

lemma lower_idem [simp]: "lower (lower s) = lower s"
  by (simp add: lower_def)

lemma lower_char_space [simp]: "is_space (lower_char c) = is_space c"
  using of_char_lt_256 [of c] by (auto simp: lower_char_def is_space_def Let_def of_char_of)

lemma dropWhile_lower: "dropWhile is_space (lower s) = lower (dropWhile is_space s)"
  by (induction s) (simp_all add: lower_def)

lemma strip_lower: "strip (lower s) = lower (strip s)"
proof -
  have "rev (lower x) = lower (rev x)" for x by (simp add: lower_def rev_map)
  then show ?thesis by (simp add: strip_def dropWhile_lower)
qed

lemma dropWhile_idem: "dropWhile P (dropWhile P s) = dropWhile P s"
  by (induction s) simp_all

lemma strip_idem [simp]: "strip (strip s) = strip s"
proof -
  let ?d = "dropWhile is_space"
  let ?x = "?d (rev (?d s))"
  have "?d (rev ?x) = rev ?x"
  proof (cases "?x = []")
    case False
    obtain ys where ys: "rev (?d s) = ys @ ?x" by (metis takeWhile_dropWhile_id)
    then have "?d s = rev ?x @ rev ys" by (metis rev_append rev_rev_ident)
    moreover have "?d s \<noteq> [] \<Longrightarrow> \<not> is_space (hd (?d s))" by (rule hd_dropWhile)
    ultimately have "\<not> is_space (hd (rev ?x))" using False by (cases "rev ?x") auto
    then show ?thesis using False by (cases "rev ?x") auto
  next
    case True
    show ?thesis unfolding True by simp
  qed
  then show ?thesis by (simp add: strip_def dropWhile_idem)
qed

lemma normalise_idem [simp]: "normalise_username (normalise_username s) = normalise_username s"
  by (simp add: normalise_username_def strip_lower)


section \<open>What each operation keeps\<close>

lemma find_user_Some: "find_user uid db = Some u \<Longrightarrow> u \<in> set (ad_users db) \<and> us_id u = uid"
  by (auto simp: find_user_def find_Some_iff)

lemma user_named_None: "user_named name db = None \<longleftrightarrow> name \<notin> us_username ` set (ad_users db)"
  by (auto simp: user_named_def find_None_iff)

lemma user_named_Some: "user_named name db = Some u \<Longrightarrow> u \<in> set (ad_users db) \<and> us_username u = name"
  by (auto simp: user_named_def find_Some_iff)

lemma auth_ok_later: "auth_ok db now \<Longrightarrow> now \<le> later \<Longrightarrow> auth_ok db later"
  by (fastforce simp: auth_ok_def session_ok_def)

text \<open>A change of account rows that keeps their identity, name and end date.\<close>

definition keeps_identity :: "(user \<Rightarrow> user) \<Rightarrow> bool" where
  "keeps_identity f \<longleftrightarrow>
     (\<forall>u. us_id (f u) = us_id u \<and> us_username (f u) = us_username u \<and>
          us_access_expires_at (f u) = us_access_expires_at u \<and>
          (us_role u \<in> set ROLES \<longrightarrow> us_role (f u) \<in> set ROLES))"

lemma update_row_ok:
  assumes "keeps_identity f" and "auth_ok db now"
  shows "auth_ok (update_row uid f db) now"
proof -
  let ?g = "\<lambda>u. if us_id u = uid then f u else u"
  have g: "us_id (?g u) = us_id u" "us_username (?g u) = us_username u"
      "us_access_expires_at (?g u) = us_access_expires_at u" for u
    using assms(1) by (auto simp: keeps_identity_def)
  have m: "us_id \<circ> ?g = us_id" "us_username \<circ> ?g = us_username" using g by (auto simp: fun_eq_iff)
  have "account_ok u \<Longrightarrow> account_ok (f u)" for u
    using assms(1) by (auto simp: keeps_identity_def account_ok_def)
  then have "accounts_ok (update_row uid f db)"
    using assms(2) by (auto simp: auth_ok_def accounts_ok_def update_row_def m)
  moreover have "session_ok (update_row uid f db) now s" if s: "s \<in> set (ad_sessions db)" for s
  proof -
    have ok: "session_ok db now s" using assms(2) s by (simp add: auth_ok_def)
    then obtain u where u: "u \<in> set (ad_users db)" "us_id u = se_user_id s"
        "\<forall>t. us_access_expires_at u = Some t \<longrightarrow> se_expires_at s \<le> t"
      by (auto simp: session_ok_def)
    then have "?g u \<in> set (ad_users (update_row uid f db))" by (auto simp: update_row_def)
    then show ?thesis using ok u g [of u] unfolding session_ok_def by metis
  qed
  moreover have "ad_sessions (update_row uid f db) = ad_sessions db" by (simp add: update_row_def)
  ultimately show ?thesis by (simp add: auth_ok_def)
qed

lemma same_tables_ok:
  "ad_users db' = ad_users db \<Longrightarrow> ad_sessions db' = ad_sessions db \<Longrightarrow> auth_ok db' now = auth_ok db now"
  by (simp add: auth_ok_def accounts_ok_def session_ok_def)

text \<open>Rows of sessions that are dropped, revoked or touched.\<close>

lemma sessions_ok:
  assumes "auth_ok db now" and "ad_users db' = ad_users db"
    and "\<forall>s' \<in> set (ad_sessions db'). \<exists>s \<in> set (ad_sessions db). se_user_id s' = se_user_id s \<and>
           se_created_at s' = se_created_at s \<and> se_expires_at s' = se_expires_at s \<and>
           (se_last_seen_at s' = se_last_seen_at s \<or> se_last_seen_at s' = now)"
  shows "auth_ok db' now"
proof -
  have "session_ok db' now s'" if "s' \<in> set (ad_sessions db')" for s'
  proof -
    obtain s where s: "s \<in> set (ad_sessions db)" "se_user_id s' = se_user_id s" "se_created_at s' = se_created_at s"
        "se_expires_at s' = se_expires_at s" "se_last_seen_at s' = se_last_seen_at s \<or> se_last_seen_at s' = now"
      using assms(3) \<open>s' \<in> set (ad_sessions db')\<close> by blast
    then have "session_ok db now s" using assms(1) by (simp add: auth_ok_def)
    then show ?thesis using s assms(2) by (auto simp: session_ok_def)
  qed
  then show ?thesis using assms(1,2) by (simp add: auth_ok_def accounts_ok_def)
qed

lemma revoke_all_ok: "auth_ok db now \<Longrightarrow> auth_ok (snd (revoke_all_sessions e uid db)) now"
  by (erule sessions_ok) (auto simp: revoke_all_sessions_def)

lemma revoke_session_ok: "auth_ok db now \<Longrightarrow> auth_ok (revoke_session sha e token db) now"
  by (erule sessions_ok) (auto simp: revoke_session_def update_session_def split: option.splits)

lemma purge_ok: "auth_ok db now \<Longrightarrow> auth_ok (snd (purge_expired_sessions e db)) now"
  by (erule sessions_ok) (auto simp: purge_expired_sessions_def)

lemma resolve_ok:
  "auth_ok db (en_now e) \<Longrightarrow> auth_ok (snd (resolve_session sha e token db)) (en_now e)"
  by (erule sessions_ok) (auto simp: resolve_session_def update_session_def split: option.splits)

lemma middleware_ok:
  "auth_ok db (en_now e) \<Longrightarrow> auth_ok (snd (security_middleware sha ps lookup_ok e rq db)) (en_now e)"
  using resolve_ok [of db e sha "dict_get (rq_cookies rq) SESSION_COOKIE []"]
  by (auto simp: security_middleware_def resolve_principal_def Let_def split: prod.splits sum.splits)

lemma issue_session_ok:
  assumes "auth_ok db (en_now e)" and "v \<in> set (ad_users db)" and "us_id v = us_id u"
    and "us_access_expires_at v = us_access_expires_at u"
    and "issue_session sha e u db = (res, db')"
  shows "auth_ok db' (en_now e)"
proof -
  obtain row where db': "db' = db\<lparr>ad_sessions := ad_sessions db @ [row]\<rparr>"
    and row: "se_user_id row = us_id u" "se_created_at row = en_now e" "se_last_seen_at row = en_now e"
      "se_expires_at row = (case us_access_expires_at u of None \<Rightarrow> en_now e + ABSOLUTE_LIFETIME
                            | Some t \<Rightarrow> min (en_now e + ABSOLUTE_LIFETIME) t)"
    using assms(5) that [of "snd res"] by (auto simp: issue_session_def Let_def)
  have "session_ok db (en_now e) row"
    unfolding session_ok_def row using assms(2-4) by (intro conjI bexI [of _ v]) (auto split: option.splits)
  then have "session_ok db' (en_now e) row" by (simp add: db' session_ok_def)
  then show ?thesis using assms(1) by (simp add: db' auth_ok_def accounts_ok_def session_ok_def)
qed

lemma default_organization_tables:
  "default_organization e db = (g, db1) \<Longrightarrow> ad_users db1 = ad_users db \<and> ad_sessions db1 = ad_sessions db"
  by (auto simp: default_organization_def split: list.splits)

lemma create_user_tables:
  assumes "create_user scrypt e username password role name org must db = Inr (u, db1)"
  shows "ad_users db1 = ad_users db @ [u] \<and> ad_sessions db1 = ad_sessions db \<and> us_id u = en_uuid e \<and>
         us_username u = normalise_username username \<and> us_username u \<noteq> [] \<and>
         us_username u \<notin> us_username ` set (ad_users db) \<and> us_role u = role \<and> role \<in> set ROLES \<and>
         us_access_expires_at u = None \<and> us_is_active u \<and> us_must_change_password u = must"
  using assms
  by (auto simp: create_user_def Let_def result_simps user_named_None split: if_splits option.splits prod.splits
      dest!: default_organization_tables)

lemma create_user_ok:
  assumes "create_user scrypt e username password role name org must db = Inr (u, db1)"
    and "en_uuid e \<notin> us_id ` set (ad_users db)" and "auth_ok db now"
  shows "auth_ok db1 now"
  using assms(2,3) create_user_tables [OF assms(1)]
  by (auto simp: auth_ok_def accounts_ok_def account_ok_def session_ok_def)

definition given_password :: "env \<Rightarrow> string \<Rightarrow> bool \<Rightarrow> user \<Rightarrow> user" where
  "given_password e h must u =
     u\<lparr>us_password_hash := h, us_password_changed_at := Some (en_now e), us_must_change_password := must\<rparr>"

lemma set_password_Inr:
  "set_password scrypt e uid password must db = Inr db1 \<Longrightarrow>
     policy password = Inr () \<and>
     (\<exists>h. hashed scrypt e password = Inr h \<and>
          db1 = snd (revoke_all_sessions e uid (update_row uid (given_password e h must) db)))"
  by (auto simp: set_password_def given_password_def [abs_def] result_simps)

lemma set_password_ok:
  assumes "set_password scrypt e uid password must db = Inr db1" and "auth_ok db now"
  shows "auth_ok db1 now"
proof -
  have "keeps_identity (given_password e h must)" for h by (simp add: keeps_identity_def given_password_def)
  then show ?thesis using set_password_Inr [OF assms(1)] revoke_all_ok update_row_ok assms(2) by blast
qed

lemma revoke_all_users [simp]: "ad_users (snd (revoke_all_sessions e uid db)) = ad_users db"
  by (simp add: revoke_all_sessions_def)

lemma audit_tables [simp]:
  "ad_users (st_db (audit e action who username target outcome st)) = ad_users (st_db st)"
  "ad_sessions (st_db (audit e action who username target outcome st)) = ad_sessions (st_db st)"
  by (simp_all add: audit_def)

lemma audit_ok [simp]:
  "auth_ok (st_db (audit e action who username target outcome st)) now = auth_ok (st_db st) now"
  by (rule same_tables_ok) simp_all


section \<open>Every handler keeps the tables well-formed\<close>

lemma with_db_simps [simp]: "st_db (with_db st db) = db" "st_failures (with_db st db) = st_failures st"
  by (simp_all add: with_db_def)

lemma authenticate_ok:
  assumes "authenticate scrypt v6 absent e username password st = (out, st1)" and "auth_ok (st_db st) now"
  shows "auth_ok (st_db st1) now"
proof -
  have k: "keeps_identity (\<lambda>u. u\<lparr>us_password_hash := h, us_last_login_at := Some (en_now e)\<rparr>)" for h
    by (simp add: keeps_identity_def)
  show ?thesis using assms update_row_ok [OF k]
    by (auto simp: authenticate_def Let_def split: if_splits sum.splits option.splits bool.splits prod.splits)
qed

lemma update_row_member:
  "u \<in> set (ad_users db) \<Longrightarrow> us_id u = uid \<Longrightarrow> f u \<in> set (ad_users (update_row uid f db))"
  by (force simp: update_row_def)

definition signed_in :: "env \<Rightarrow> string \<Rightarrow> user \<Rightarrow> user" where
  "signed_in e h u = u\<lparr>us_password_hash := h, us_last_login_at := Some (en_now e)\<rparr>"

lemma authenticate_Inr:
  assumes "authenticate scrypt v6 absent e username password st = (Inr u, st1)"
  shows "\<exists>v h. user_named (normalise_username username) (st_db st) = Some v \<and> us_is_active v \<and>
           \<not> access_expired v (en_now e) \<and> verify scrypt password (us_password_hash v) = Inr True \<and>
           u = signed_in e h v \<and> st_db st1 = update_row (us_id v) (signed_in e h) (st_db st)"
  using assms
  by (auto simp: authenticate_def signed_in_def [abs_def] Let_def
      split: if_splits sum.splits option.splits bool.splits prod.splits)

lemma authenticate_user:
  assumes "authenticate scrypt v6 absent e username password st = (Inr u, st1)"
  shows "\<exists>v \<in> set (ad_users (st_db st1)). us_id v = us_id u \<and> us_access_expires_at v = us_access_expires_at u"
proof -
  obtain v h where v: "user_named (normalise_username username) (st_db st) = Some v" "u = signed_in e h v"
      "st_db st1 = update_row (us_id v) (signed_in e h) (st_db st)"
    using authenticate_Inr [OF assms] by blast
  have "signed_in e h v \<in> set (ad_users (st_db st1))"
    unfolding v(3) using user_named_Some [OF v(1)] by (intro update_row_member) simp_all
  then show ?thesis using v(2) by auto
qed

lemma login_ok: "auth_ok (st_db st) (en_now e) \<Longrightarrow> auth_ok (st_db (snd (login d e username password st))) (en_now e)"
proof -
  assume ok: "auth_ok (st_db st) (en_now e)"
  obtain out st1 where a: "authenticate (dp_scrypt d) (dp_v6 d) (dp_absent d) e username password st = (out, st1)"
    by (rule prod.exhaust)
  have ok1: "auth_ok (st_db st1) (en_now e)" by (rule authenticate_ok [OF a ok])
  show ?thesis
  proof (cases out)
    case (Inl err)
    then show ?thesis using a ok ok1 by (cases err) (auto simp: login_def rolled_back_def)
  next
    case (Inr u)
    obtain res db where i: "issue_session (dp_sha d) e u (st_db st1) = (res, db)" by (rule prod.exhaust)
    obtain v where v: "v \<in> set (ad_users (st_db st1))" "us_id v = us_id u"
        "us_access_expires_at v = us_access_expires_at u"
      using authenticate_user a Inr by metis
    have "auth_ok db (en_now e)" by (rule issue_session_ok [OF ok1 v i])
    then show ?thesis using a ok Inr i by (auto simp: login_def Let_def split: prod.splits)
  qed
qed

lemma change_password_ok:
  assumes "auth_ok (st_db st) (en_now e)"
  shows "auth_ok (st_db (snd (change_password d e who current new st))) (en_now e)"
proof -
  have "auth_ok db1 (en_now e)"
    if "find_user uid (st_db st) = Some u" "set_password (dp_scrypt d) e (us_id u) new False (st_db st) = Inr db"
      "issue_session (dp_sha d) e u db = (res, db1)" for uid u db res db1
  proof -
    have ok: "auth_ok db (en_now e)" by (rule set_password_ok [OF that(2) assms])
    note changed = set_password_Inr [OF that(2)]
    obtain h where "ad_users db = ad_users (update_row (us_id u) (given_password e h False) (st_db st))"
      using changed by auto
    then have "given_password e h False u \<in> set (ad_users db)"
      using update_row_member [of u "st_db st" "us_id u" "given_password e h False"] find_user_Some [OF that(1)] by simp
    then show ?thesis using issue_session_ok [OF ok _ _ _ that(3)] by (simp add: given_password_def)
  qed
  then show ?thesis using assms
    by (auto simp: change_password_def current_principal_def Let_def split: option.splits sum.splits bool.splits prod.splits)
qed

lemma add_user_ok:
  assumes "auth_ok (st_db st) now" and "en_uuid e \<notin> us_id ` set (ad_users (st_db st))"
  shows "auth_ok (st_db (snd (add_user d e who username password role name st))) now"
  using assms create_user_ok [OF _ assms(2,1)]
  by (auto simp: add_user_def split: sum.splits prod.splits)

lemma apply_update_identity:
  "check_update admin u body = None \<Longrightarrow> keeps_identity (apply_update body)"
  by (auto simp: keeps_identity_def apply_update_def check_update_def split: option.splits if_splits)

lemma update_user_ok:
  assumes "auth_ok (st_db st) now"
  shows "auth_ok (st_db (snd (update_user e who uid body st))) now"
proof -
  have "auth_ok (update_row uid (apply_update body) (st_db st)) now" if "check_update admin u body = None" for admin u
    using update_row_ok [OF apply_update_identity [OF that] assms] .
  then show ?thesis using assms revoke_all_ok
    by (simp add: update_user_def Let_def split: sum.splits option.splits)
qed

lemma reset_password_ok:
  assumes "auth_ok (st_db st) now"
  shows "auth_ok (st_db (snd (reset_password d e who uid new st))) now"
  using assms set_password_ok [OF _ assms]
  by (auto simp: reset_password_def split: sum.splits option.splits)


lemma update_new_row:
  assumes "ad_users db = us @ [u]" and "us_id u \<notin> us_id ` set us"
  shows "ad_users (update_row (us_id u) f db) = us @ [f u]"
proof -
  have "map (\<lambda>x. if us_id x = us_id u then f x else x) us = us"
    using assms(2) by (intro map_idI) (force simp: image_iff)
  then show ?thesis by (simp add: update_row_def assms(1))
qed

lemma new_account_ok:
  assumes "auth_ok db now" and "us_id u \<notin> us_id ` set (ad_users db)"
    and "us_username u \<notin> us_username ` set (ad_users db)" and "account_ok u"
    and "ad_users db' = ad_users db @ [u]" and "ad_sessions db' = ad_sessions db"
  shows "auth_ok db' now"
  using assms by (auto simp: auth_ok_def accounts_ok_def session_ok_def)

lemma issue_ok:
  assumes "issue scrypt s e pass_id password email lang db = Inr (i, db1)" and "auth_ok db now"
    and "en_uuid e \<notin> us_id ` set (ad_users db)"
  shows "auth_ok db1 now \<and> ad_users db1 = ad_users db @ [is_user i] \<and> us_id (is_user i) = en_uuid e \<and>
         us_role (is_user i) = JUDGE_ROLE \<and> us_access_expires_at (is_user i) = Some (instant (the (sg_pass_until s)))"
proof -
  obtain u db2 where c: "create_user scrypt e email password JUDGE_ROLE JUDGE_DISPLAY_NAME None False db = Inr (u, db2)"
    using assms(1) by (auto simp: issue_def Let_def split: if_splits sum.splits)
  note t = create_user_tables [OF c]
  let ?f = "us_access_expires_at_update (\<lambda>_. Some (instant (the (sg_pass_until s))))"
  have i: "is_user i = ?f u" "ad_users db1 = ad_users (update_row (us_id u) ?f db2)" "ad_sessions db1 = ad_sessions db2"
    using assms(1) c by (auto simp: issue_def Let_def update_row_def split: if_splits)
  have new: "us_id u \<notin> us_id ` set (ad_users db)" using t assms(3) by simp
  have users: "ad_users db1 = ad_users db @ [is_user i]"
    unfolding i(1,2) by (rule update_new_row) (use t new in simp_all)
  have "auth_ok db1 now"
    by (rule new_account_ok [OF assms(2) _ _ _ users])
      (use t new i normalise_idem in \<open>auto simp: account_ok_def\<close>)
  then show ?thesis using users i t by simp
qed

lemma pass_redeem_ok:
  assumes "auth_ok (st_db st) (en_now e)" and "en_uuid e \<notin> us_id ` set (ad_users (st_db st))"
  shows "auth_ok (st_db (snd (pass_redeem d e pass_id password code email lang st))) (en_now e)"
proof -
  have "auth_ok db2 (en_now e)"
    if "issue (dp_scrypt d) (dp_settings d) e pass_id password mail lg (st_db st) = Inr (i, db)"
      "issue_session (dp_sha d) e ((is_user i)\<lparr>us_last_login_at := Some (en_now e)\<rparr>)
        (update_row (us_id (is_user i)) (us_last_login_at_update (\<lambda>_. Some (en_now e))) db) = (res, db2)"
    for mail lg i db res db2
  proof -
    note ok = issue_ok [OF that(1) assms]
    let ?f = "us_last_login_at_update (\<lambda>_. Some (en_now e))"
    have "keeps_identity ?f" by (simp add: keeps_identity_def)
    then have ok1: "auth_ok (update_row (us_id (is_user i)) ?f db) (en_now e)" using ok update_row_ok by blast
    have "?f (is_user i) \<in> set (ad_users (update_row (us_id (is_user i)) ?f db))"
      by (rule update_row_member) (use ok in simp_all)
    from issue_session_ok [OF ok1 this _ _ that(2)] show ?thesis by simp
  qed
  then show ?thesis using assms(1)
    by (auto simp: pass_redeem_def Let_def split: option.splits sum.splits pass_refusal.splits prod.splits)
qed

lemma logout_ok: "auth_ok (st_db st) (en_now e) \<Longrightarrow> auth_ok (st_db (logout d e rq who st)) (en_now e)"
  by (simp add: logout_def Let_def revoke_session_ok)

lemma judge_pass_switch_ok:
  "auth_ok (st_db st) now \<Longrightarrow> auth_ok (st_db (snd (judge_pass_switch d e who b st))) now"
  by (auto simp: judge_pass_switch_def set_enabled_def Let_def split: sum.splits elim!: same_tables_ok [THEN iffD2, rotated 2])

lemma middleware_users:
  "ad_users (snd (security_middleware sha ps lookup_ok e rq db)) = ad_users db"
  by (simp add: security_middleware_def resolve_principal_def Let_def split: prod.splits sum.splits)
     (auto simp: resolve_principal_def Let_def split: if_splits, (metis resolve_session_users snd_conv)+)

lemma handle_ok:
  assumes "auth_ok (st_db st) (en_now e)" and "en_uuid e \<notin> us_id ` set (ad_users (st_db st))"
  shows "auth_ok (st_db (handle d e rq who call st)) (en_now e)"
  using assms
  by (cases call) (simp_all add: login_ok logout_ok change_password_ok add_user_ok update_user_ok reset_password_ok
      pass_redeem_ok judge_pass_switch_ok)

lemma served_ok:
  assumes "auth_ok (st_db st) (en_now e)" and "en_uuid e \<notin> us_id ` set (ad_users (st_db st))"
  shows "auth_ok (st_db (served d lookup_ok e rq call st)) (en_now e)"
proof -
  obtain out db where m: "security_middleware (dp_sha d) [] lookup_ok e rq (st_db st) = (out, db)" by (rule prod.exhaust)
  have ok: "auth_ok db (en_now e)" "ad_users db = ad_users (st_db st)"
    using middleware_ok [OF assms(1), of "dp_sha d" "[]" lookup_ok rq]
      middleware_users [of "dp_sha d" "[]" lookup_ok e rq "st_db st"] m by simp_all
  show ?thesis using m ok assms(2) handle_ok [of "with_db st db" e] by (cases out) (simp_all add: served_def)
qed


lemma bootstrap_ok:
  assumes "auth_ok (st_db st) now" and "en_uuid e \<notin> us_id ` set (ad_users (st_db st))"
  shows "auth_ok (st_db (snd (bootstrap d e username name role force supplied generated st))) now"
  using assms create_user_ok [OF _ assms(2,1)]
  by (auto simp: bootstrap_def Let_def split: sum.splits prod.splits)

lemma deliver_tables:
  "ad_users (deliver s transport db_ok now pass_id db) = ad_users db"
  "ad_sessions (deliver s transport db_ok now pass_id db) = ad_sessions db"
  by (simp_all add: deliver_def case_prod_beta)

lemma access_step_ok:
  assumes "access_step d a b" and "auth_ok (st_db (ac_service a)) (ac_now a)"
  shows "auth_ok (st_db (ac_service b)) (ac_now b)"
  using assms
proof (cases rule: access_step.cases)
  case (serving e rq call lookup_ok)
  then show ?thesis using served_ok [OF auth_ok_later [OF assms(2) serving(2)] serving(3)] by simp
next
  case (bootstrapping e username name role force supplied generated)
  then show ?thesis using bootstrap_ok [OF auth_ok_later [OF assms(2) bootstrapping(2)] bootstrapping(3)] by simp
next
  case (purging e)
  then show ?thesis using purge_ok [OF auth_ok_later [OF assms(2) purging(2)]] by simp
next
  case (delivering now transport db_ok pass_id)
  then show ?thesis using auth_ok_later [OF assms(2) delivering(2)] same_tables_ok [OF deliver_tables] by simp
qed simp

lemma access_reachable_ok: "access_reachable d a \<Longrightarrow> auth_ok (st_db (ac_service a)) (ac_now a)"
proof (induction rule: access_reachable.induct)
  case (start now)
  then show ?case by (simp add: auth_ok_def accounts_ok_def empty_auth_db_def)
next
  case (step a b)
  then show ?case using access_step_ok by blast
qed

text \<open>
  C16: the accounts stay well-formed. In every state the service can reach, account ids and
  names are unique, every name is trimmed and lower-case - so no two accounts differ in
  capitalisation only - and every role is on the ladder.
\<close>
theorem accounts_well_formed:
  assumes "access_reachable d a" and "us = ad_users (st_db (ac_service a))"
  shows "distinct (map us_id us) \<and> distinct (map us_username us) \<and>
         (\<forall>u \<in> set us. us_role u \<in> set ROLES \<and> us_username u \<noteq> [] \<and>
            normalise_username (us_username u) = us_username u)"
  using access_reachable_ok [OF assms(1)] assms(2) by (auto simp: auth_ok_def accounts_ok_def account_ok_def)

text \<open>
  C17: the life of a session is bounded. In a reachable state a token is honoured only within
  seven days of the sign-in that issued it, at most eight hours after it was last recorded
  as used, and never at or after the end date of its account.
\<close>
theorem session_lifetime_bounded:
  assumes "access_reachable d a" and "ac_now a \<le> en_now e"
    and "fst (resolve_session sha e token (st_db (ac_service a))) = Some p"
  shows "\<exists>s \<in> set (ad_sessions (st_db (ac_service a))).
           se_token_hash s = sha token \<and> se_user_id s = pr_user_id p \<and>
           en_now e < se_created_at s + ABSOLUTE_LIFETIME \<and>
           en_now e \<le> se_last_seen_at s + IDLE_TIMEOUT \<and>
           (\<forall>t. pr_access_expires_at p = Some t \<longrightarrow> en_now e < t)"
proof -
  let ?db = "st_db (ac_service a)"
  obtain row u where r: "find_session (sha token) ?db = Some row" "en_now e < se_expires_at row"
      "en_now e - se_last_seen_at row \<le> IDLE_TIMEOUT" "find_user (se_user_id row) ?db = Some u"
      "\<not> access_expired u (en_now e)" "p = principal_of u"
    using resolve_session_Some [OF assms(3)] by blast
  have row: "row \<in> set (ad_sessions ?db)" "se_token_hash row = sha token"
    using r(1) by (auto simp: find_session_def find_Some_iff)
  have u: "us_id u = se_user_id row" using find_user_Some [OF r(4)] by simp
  have "session_ok ?db (ac_now a) row"
    using access_reachable_ok [OF assms(1)] row(1) by (simp add: auth_ok_def)
  then have "se_expires_at row \<le> se_created_at row + ABSOLUTE_LIFETIME" by (simp add: session_ok_def)
  moreover have "\<forall>t. pr_access_expires_at p = Some t \<longrightarrow> en_now e < t"
    using r(5,6) by (auto simp: access_expired_def principal_of_def)
  ultimately show ?thesis using row r u by (intro bexI [of _ row]) (auto simp: principal_of_def)
qed

text \<open>A principal that resolves is an active account of the table it was resolved in.\<close>

lemma middleware_principal:
  assumes "security_middleware sha ps lookup_ok e rq db = (Inr (Some p), db1)"
  obtains u where "u \<in> set (ad_users db1)" and "us_is_active u" and "p = principal_of u"
proof -
  have "fst (resolve_principal sha e rq db) = Some p"
    using assms by (auto simp: security_middleware_def Let_def split: if_splits prod.splits sum.splits)
  then have "fst (resolve_session sha e (dict_get (rq_cookies rq) SESSION_COOKIE []) db) = Some p"
    by (rule resolve_principal_token)
  then have "\<exists>u \<in> set (ad_users db). us_is_active u \<and> p = principal_of u"
    by (rule resolve_session_Some) (auto dest: find_user_Some)
  then show ?thesis using that middleware_users [of sha ps lookup_ok e rq db] assms by auto
qed


section \<open>An administrator remains\<close>

definition admin_account :: "user \<Rightarrow> bool" where
  "admin_account u \<longleftrightarrow> us_role u = ''admin'' \<and> us_is_active u"

definition has_admin :: "auth_db \<Rightarrow> bool" where
  "has_admin db \<longleftrightarrow> (\<exists>u \<in> set (ad_users db). admin_account u)"

text \<open>Rows may be added, or changed without losing role or activity.\<close>

lemma has_admin_grows:
  assumes "has_admin db" and "\<forall>u \<in> set (ad_users db). admin_account u \<longrightarrow> (\<exists>v \<in> set (ad_users db'). admin_account v)"
  shows "has_admin db'"
  using assms by (auto simp: has_admin_def)

lemma has_admin_users: "ad_users db' = ad_users db \<Longrightarrow> has_admin db' = has_admin db"
  by (simp add: has_admin_def)

lemma update_row_admin:
  assumes "\<forall>u. us_role (f u) = us_role u \<and> us_is_active (f u) = us_is_active u" and "has_admin db"
  shows "has_admin (update_row uid f db)"
proof -
  obtain u where u: "u \<in> set (ad_users db)" "admin_account u" using assms(2) by (auto simp: has_admin_def)
  then have "(if us_id u = uid then f u else u) \<in> set (ad_users (update_row uid f db))" by (auto simp: update_row_def)
  moreover have "admin_account (if us_id u = uid then f u else u)" using u assms(1) by (simp add: admin_account_def)
  ultimately show ?thesis unfolding has_admin_def by blast
qed

lemma issue_session_users: "ad_users (snd (issue_session sha e u db)) = ad_users db"
  by (simp add: issue_session_def Let_def)

lemma authenticate_admin:
  assumes "authenticate scrypt v6 absent e username password st = (out, st1)" and "has_admin (st_db st)"
  shows "has_admin (st_db st1)"
proof (cases out)
  case (Inr u)
  then have "authenticate scrypt v6 absent e username password st = (Inr u, st1)" using assms(1) by simp
  from authenticate_Inr [OF this]
  obtain v :: user and h where "st_db st1 = update_row (us_id v) (signed_in e h) (st_db st)" by blast
  then show ?thesis using update_row_admin [of "signed_in e h"] assms(2) by (simp add: signed_in_def)
next
  case (Inl err)
  then have "ad_users (st_db st1) = ad_users (st_db st)" using assms(1)
    by (auto simp: authenticate_def Let_def split: if_splits sum.splits option.splits bool.splits prod.splits)
  then show ?thesis using assms(2) has_admin_users by blast
qed

lemma set_password_admin:
  "set_password scrypt e uid password must db = Inr db1 \<Longrightarrow> has_admin db \<Longrightarrow> has_admin db1"
  using update_row_admin [of "given_password e _ must" db uid]
  by (auto simp: given_password_def has_admin_def dest!: set_password_Inr)

lemma create_user_admin:
  "create_user scrypt e username password role name org must db = Inr (u, db1) \<Longrightarrow> has_admin db \<Longrightarrow> has_admin db1"
  by (auto simp: has_admin_def dest!: create_user_tables)

lemma login_users:
  assumes "authenticate (dp_scrypt d) (dp_v6 d) (dp_absent d) e username password st = (out, st1)"
  shows "ad_users (st_db (snd (login d e username password st))) \<in> {ad_users (st_db st), ad_users (st_db st1)}"
proof (cases out)
  case (Inl err)
  then show ?thesis using assms by (cases err) (auto simp: login_def rolled_back_def)
next
  case (Inr u)
  then show ?thesis using assms
    by (auto simp: login_def issue_session_def Let_def)
qed

lemma login_admin: "has_admin (st_db st) \<Longrightarrow> has_admin (st_db (snd (login d e username password st)))"
proof -
  assume a: "has_admin (st_db st)"
  obtain out st1 where o: "authenticate (dp_scrypt d) (dp_v6 d) (dp_absent d) e username password st = (out, st1)"
    by (rule prod.exhaust)
  show ?thesis using login_users [OF o] authenticate_admin [OF o a] a by (auto simp: has_admin_def)
qed


lemma change_password_admin:
  assumes "has_admin (st_db st)"
  shows "has_admin (st_db (snd (change_password d e who current new st)))"
proof -
  have "has_admin (st_db (audit e action p n t out (with_db st' (snd (issue_session sha e u db)))))"
    if "set_password scrypt e uid new must (st_db st) = Inr db" for st' action p n t out sha u db scrypt uid must
    using set_password_admin [OF that assms] by (simp add: has_admin_def issue_session_users)
  then show ?thesis using assms
    by (auto simp: change_password_def current_principal_def Let_def has_admin_def issue_session_def
        split: option.splits sum.splits bool.splits prod.splits dest: set_password_admin [unfolded has_admin_def])
qed

lemma update_user_admin:
  assumes "has_admin (st_db st)" and "\<forall>p. who = Some p \<longrightarrow> (\<exists>v \<in> set (ad_users (st_db st)). us_is_active v \<and> p = principal_of v)"
  shows "has_admin (st_db (snd (update_user e who uid body st)))"
proof (cases "require ''admin'' who")
  case (Inl r)
  then show ?thesis using assms(1) by (simp add: update_user_def)
next
  case (Inr admin)
  then have who: "who = Some admin" "pr_role admin = ''admin''"
    by (auto simp: require_def current_principal_def can_def at_least_admin split: option.splits if_splits)
  then obtain v where v: "v \<in> set (ad_users (st_db st))" "us_is_active v" "admin = principal_of v"
    using assms(2) by blast
  then have va: "admin_account v" "us_id v = pr_user_id admin"
    using who(2) by (simp_all add: admin_account_def principal_of_def)
  have "has_admin (update_row uid (apply_update body) (st_db st))" if c: "check_update admin u body = None" "us_id u = uid" for u
  proof -
    let ?v = "if us_id v = uid then apply_update body v else v"
    have "?v \<in> set (ad_users (update_row uid (apply_update body) (st_db st)))" using v(1) by (auto simp: update_row_def)
    moreover have "admin_account ?v"
      using c va by (auto simp: check_update_def apply_update_def admin_account_def split: if_splits option.splits)
    ultimately show ?thesis unfolding has_admin_def by blast
  qed
  then show ?thesis using Inr assms(1)
    by (auto simp: update_user_def Let_def has_admin_def dest!: find_user_Some split: option.splits)
qed

lemma simple_handlers_admin:
  assumes "has_admin (st_db st)"
  shows "has_admin (st_db (logout d e rq who st))"
    and "has_admin (st_db (snd (add_user d e who username password role name st)))"
    and "has_admin (st_db (snd (reset_password d e who uid new st)))"
    and "has_admin (st_db (snd (judge_pass_switch d e who b st)))"
  using assms
  by (auto simp: logout_def revoke_session_def update_session_def add_user_def reset_password_def judge_pass_switch_def
      set_enabled_def Let_def has_admin_def split: option.splits sum.splits prod.splits
      dest: create_user_admin [unfolded has_admin_def] set_password_admin [unfolded has_admin_def])


lemma pass_redeem_admin:
  assumes "has_admin (st_db st)" and "auth_ok (st_db st) (en_now e)" and "en_uuid e \<notin> us_id ` set (ad_users (st_db st))"
  shows "has_admin (st_db (snd (pass_redeem d e pass_id password code email lang st)))"
proof -
  have "has_admin (update_row (us_id (is_user i)) (us_last_login_at_update (\<lambda>_. Some (en_now e))) db)"
    if "issue (dp_scrypt d) (dp_settings d) e pass_id password mail lg (st_db st) = Inr (i, db)" for mail lg i db
    using issue_ok [OF that assms(2,3)] assms(1) by (intro update_row_admin) (auto simp: has_admin_def)
  then show ?thesis using assms(1)
    by (auto simp: pass_redeem_def Let_def has_admin_def issue_session_def
        split: option.splits sum.splits pass_refusal.splits prod.splits)
qed

lemma handle_admin:
  assumes "has_admin (st_db st)" and "auth_ok (st_db st) (en_now e)" and "en_uuid e \<notin> us_id ` set (ad_users (st_db st))"
    and "\<forall>p. who = Some p \<longrightarrow> (\<exists>v \<in> set (ad_users (st_db st)). us_is_active v \<and> p = principal_of v)"
  shows "has_admin (st_db (handle d e rq who call st))"
  using assms
  by (cases call) (simp_all add: login_admin simple_handlers_admin change_password_admin update_user_admin pass_redeem_admin)

lemma served_admin:
  assumes "has_admin (st_db st)" and "auth_ok (st_db st) (en_now e)" and "en_uuid e \<notin> us_id ` set (ad_users (st_db st))"
  shows "has_admin (st_db (served d lookup_ok e rq call st))"
proof -
  obtain out db where m: "security_middleware (dp_sha d) [] lookup_ok e rq (st_db st) = (out, db)" by (rule prod.exhaust)
  have ok: "auth_ok db (en_now e)" "ad_users db = ad_users (st_db st)"
    using middleware_ok [OF assms(2), of "dp_sha d" "[]" lookup_ok rq]
      middleware_users [of "dp_sha d" "[]" lookup_ok e rq "st_db st"] m by simp_all
  have adm: "has_admin db" using assms(1) ok(2) by (simp add: has_admin_def)
  show ?thesis
  proof (cases out)
    case (Inl r)
    then show ?thesis using m adm by (simp add: served_def)
  next
    case (Inr who)
    have "\<forall>p. who = Some p \<longrightarrow> (\<exists>v \<in> set (ad_users db). us_is_active v \<and> p = principal_of v)"
      using middleware_principal [of "dp_sha d" "[]" lookup_ok e rq "st_db st" _ db] m Inr by metis
    then show ?thesis using m Inr handle_admin [of "with_db st db" e who] adm ok assms(3) by (simp add: served_def)
  qed
qed

text \<open>
  C9: an administrator remains. No step of the service - no request of any caller, no
  bootstrap, purge, delivery or restart - leaves a deployment that has an active admin
  account without one.
\<close>
theorem admin_never_lost:
  assumes "access_reachable d a" and "access_step d a b" and "has_admin (st_db (ac_service a))"
  shows "has_admin (st_db (ac_service b))"
  using assms(2)
proof (cases rule: access_step.cases)
  case (serving e rq call lookup_ok)
  then show ?thesis
    using served_admin [OF assms(3) auth_ok_later [OF access_reachable_ok [OF assms(1)] serving(2)] serving(3)] by simp
next
  case (bootstrapping e username name role force supplied generated)
  then show ?thesis using assms(3)
    by (auto simp: bootstrap_def Let_def has_admin_def split: sum.splits prod.splits
        dest: create_user_admin [unfolded has_admin_def])
next
  case (purging e)
  then show ?thesis using assms(3) by (simp add: has_admin_def purge_expired_sessions_def)
next
  case (delivering now transport db_ok pass_id)
  then show ?thesis using assms(3) by (simp add: has_admin_def deliver_tables)
qed (use assms(3) in simp)

section \<open>What signs a caller out\<close>

lemma revoked_never_resolves:
  assumes "\<forall>s \<in> set (ad_sessions db). se_user_id s = uid \<longrightarrow> se_revoked_at s \<noteq> None"
    and "fst (resolve_session sha e token db) = Some p"
  shows "pr_user_id p \<noteq> uid"
proof
  assume p: "pr_user_id p = uid"
  obtain row u where r: "find_session (sha token) db = Some row" "se_revoked_at row = None"
      "find_user (se_user_id row) db = Some u" "p = principal_of u"
    using resolve_session_Some [OF assms(2)] by blast
  then have "row \<in> set (ad_sessions db)" "se_user_id row = uid"
    using p find_user_Some [OF r(3)] by (auto simp: find_session_def find_Some_iff principal_of_def)
  then show False using assms(1) r(2) by blast
qed

lemma revoke_all_revokes:
  "\<forall>s \<in> set (ad_sessions (snd (revoke_all_sessions e uid db))). se_user_id s = uid \<longrightarrow> se_revoked_at s \<noteq> None"
proof
  fix s' assume "s' \<in> set (ad_sessions (snd (revoke_all_sessions e uid db)))"
  then obtain s where "s' = (if se_user_id s = uid \<and> se_revoked_at s = None
      then s\<lparr>se_revoked_at := Some (en_now e)\<rparr> else s)"
    unfolding revoke_all_sessions_def by force
  then show "se_user_id s' = uid \<longrightarrow> se_revoked_at s' \<noteq> None" by simp
qed

lemma set_password_revokes:
  "set_password scrypt e uid password must db = Inr db1 \<Longrightarrow>
     \<forall>s \<in> set (ad_sessions db1). se_user_id s = uid \<longrightarrow> se_revoked_at s \<noteq> None"
  using revoke_all_revokes by (auto dest!: set_password_Inr)

text \<open>
  C18: taking an account's access away is immediate. After an administrator's password reset,
  and after an administrator disabled the account, no token - whichever, whenever presented -
  resolves to that account until it signs in again.
\<close>
theorem credential_change_ends_sessions:
  assumes "reset_password d e who uid new st = (Inr (), st') \<or>
           update_user e who uid body st = (Inr view, st') \<and> uu_is_active body = Some False"
  shows "fst (resolve_session sha later token (st_db st')) = Some p \<longrightarrow> pr_user_id p \<noteq> uid"
proof
  assume res: "fst (resolve_session sha later token (st_db st')) = Some p"
  have "\<forall>s \<in> set (ad_sessions (st_db st')). se_user_id s = uid \<longrightarrow> se_revoked_at s \<noteq> None"
    using assms
  proof
    assume "reset_password d e who uid new st = (Inr (), st')"
    then have "\<exists>db. set_password (dp_scrypt d) e uid new True (st_db st) = Inr db \<and>
        ad_sessions (st_db st') = ad_sessions db"
      by (auto simp: reset_password_def split: sum.splits option.splits)
    then show ?thesis using set_password_revokes by metis
  next
    assume "update_user e who uid body st = (Inr view, st') \<and> uu_is_active body = Some False"
    then have "ad_sessions (st_db st') =
        ad_sessions (snd (revoke_all_sessions e uid (update_row uid (apply_update body) (st_db st))))"
      by (auto simp: update_user_def Let_def split: sum.splits option.splits)
    then show ?thesis using revoke_all_revokes by metis
  qed
  from revoked_never_resolves [OF this res] show "pr_user_id p \<noteq> uid" .
qed


section \<open>What a failed sign-in reveals\<close>

lemma authenticate_failures:
  assumes "st_failures st = st_failures st'"
    and "authenticate scrypt v6 absent e username password st = (Inl err, st1)"
    and "authenticate scrypt v6 absent e username password st' = (Inl err', st1')"
    and "\<forall>x. err \<noteq> Unexpected x" and "\<forall>x. err' \<noteq> Unexpected x"
  shows "err = err' \<and> st_failures st1 = st_failures st1'"
proof -
  let ?u = "normalise_username username"
  obtain wait fs where c: "lockout_check (lockout_keys v6 ?u (en_ip e)) (en_clock e) (st_failures st) = (wait, fs)"
    by (rule prod.exhaust)
  show ?thesis
  proof (cases "wait = 0")
    case False
    then show ?thesis using assms(1-3) c by (auto simp: authenticate_def Let_def)
  next
    case True
    have "err2 = INVALID \<and> st_failures st2 =
        record_login_failure v6 ?u (en_ip e) (en_clock e) (snd (shared_spray_delay (en_clock e) fs))"
      if "authenticate scrypt v6 absent e username password sta = (Inl err2, st2)" "\<forall>x. err2 \<noteq> Unexpected x"
        "st_failures sta = st_failures st" for sta err2 st2
      using that c True
      by (auto simp: authenticate_def Let_def audit_def split: sum.splits option.splits if_splits bool.splits)
    then show ?thesis using assms by metis
  qed
qed


section \<open>An end date can take the last administrator\<close>

text \<open>
  C38: the guards of \<open>update_user\<close> do not look at end dates. An administrator may promote a
  Judge Pass account, which may then demote the administrator; an active admin account
  remains, as promised, but from the minute the pass closes every request is refused the
  admin role.
\<close>
theorem promotion_can_lock_out:
  assumes "ad_users (st_db st) = [owner, judge]" and "admin_account owner" and "us_is_active judge"
    and "us_id owner \<noteq> us_id judge" and "us_access_expires_at judge = Some close"
    and "\<not> us_must_change_password owner" and "\<not> us_must_change_password judge"
    and "update_user e (Some (principal_of owner)) (us_id judge)
           \<lparr>uu_role = Some ''admin'', uu_is_active = None, uu_display_name = None\<rparr> st = (out1, st1)"
    and "update_user e (Some (principal_of (judge\<lparr>us_role := ''admin''\<rparr>))) (us_id owner)
           \<lparr>uu_role = Some ''viewer'', uu_is_active = None, uu_display_name = None\<rparr> st1 = (out2, st2)"
  shows "(\<exists>v w. out1 = Inr v \<and> out2 = Inr w) \<and> has_admin (st_db st2) \<and>
         (\<forall>e' rq who db. en_now e' \<ge> close \<longrightarrow>
            security_middleware sha ps lookup_ok e' rq (st_db st2) = (Inr who, db) \<longrightarrow>
              (\<exists>r. require ''admin'' who = Inl r))"
proof -
  let ?judge = "judge\<lparr>us_role := ''admin''\<rparr>" and ?owner = "owner\<lparr>us_role := ''viewer''\<rparr>"
  have 1: "isl out1 = False \<and> ad_users (st_db st1) = [owner, ?judge]"
    using assms(1-8)
    by (auto simp: update_user_def require_def current_principal_def can_def at_least_admin principal_of_def
        admin_account_def find_user_def check_update_def apply_update_def update_row_def ROLES_def ORDER_def Let_def)
  have 2: "isl out2 = False \<and> ad_users (st_db st2) = [?owner, ?judge]"
    using assms(2-7,9) 1
    by (auto simp: update_user_def require_def current_principal_def can_def at_least_admin principal_of_def
        admin_account_def find_user_def check_update_def apply_update_def update_row_def ROLES_def ORDER_def Let_def)
  have 3: "\<exists>r. require ''admin'' who = Inl r"
    if "en_now e' \<ge> close" "security_middleware sha ps lookup_ok e' rq (st_db st2) = (Inr who, db)" for e' rq who db
  proof (cases who)
    case None
    then show ?thesis by (simp add: require_def current_principal_def)
  next
    case (Some p)
    have "fst (resolve_principal sha e' rq (st_db st2)) = Some p"
      using that(2) Some by (auto simp: security_middleware_def Let_def split: if_splits prod.splits sum.splits)
    then have "fst (resolve_session sha e' (dict_get (rq_cookies rq) SESSION_COOKIE []) (st_db st2)) = Some p"
      by (rule resolve_principal_token)
    then have "\<exists>u \<in> set (ad_users (st_db st2)). \<not> access_expired u (en_now e') \<and> p = principal_of u"
      by (rule resolve_session_Some) (auto dest: find_user_Some)
    then have "p = principal_of ?owner"
      using 2 assms(5) that(1) by (auto simp: access_expired_def)
    then show ?thesis using Some
      by (simp add: require_def current_principal_def can_def at_least_admin principal_of_def)
  qed
  have "has_admin (st_db st2)" using 2 assms(3) by (simp add: has_admin_def admin_account_def)
  then show ?thesis using 1 2 3 by (cases out1; cases out2) auto
qed


section \<open>Examples\<close>

definition sample_deployment :: deployment where
  "sample_deployment =
     \<lparr>dp_scrypt = sample_scrypt, dp_sha = (\<lambda>t. t), dp_v6 = (\<lambda>_. None),
      dp_absent = ''scrypt$n=16384,r=8,p=1$00$00'', dp_settings = sample_pass_settings\<rparr>"

definition sample_service :: "auth_db \<Rightarrow> service_state" where
  "sample_service db = \<lparr>st_db = db, st_failures = [], st_audit_failures = 0\<rparr>"

lemma sample_policy: "policy ''correct horse battery'' = Inr ()"
  by (simp add: policy_def validate_def MIN_PASSWORD_LENGTH_def MAX_PASSWORD_LENGTH_def OBVIOUS_PASSWORDS_def
      lower_def lower_char_def)

lemma sample_hashed: "\<exists>h. hashed sample_scrypt sample_env ''correct horse battery'' = Inr h"
  by (simp add: hashed_def hash_password_def derive_def sample_scrypt_def)

lemma sample_bootstrap:
  obtains st u where "bootstrap sample_deployment sample_env ''Ahmed'' [] ''admin'' False (Some ''correct horse battery'') []
      (sample_service empty_auth_db) = (True, st)" and "ad_users (st_db st) = [u]" and "us_username u = ''ahmed''"
    and "us_role u = ''admin''" and "us_is_active u" and "us_id u = ''u2''" and "us_access_expires_at u = None"
    and "ad_sessions (st_db st) = []"
    and "hash_password sample_scrypt (en_salt sample_env) ''correct horse battery'' = Inr (us_password_hash u)"
proof -
  obtain h where h: "hashed sample_scrypt sample_env ''correct horse battery'' = Inr h" using sample_hashed by blast
  have n: "normalise_username ''Ahmed'' = ''ahmed''"
    by (simp add: normalise_username_def strip_def is_space_def lower_def lower_char_def char_of_def bit_Suc_0_iff)
  have "\<exists>u db. create_user sample_scrypt sample_env ''Ahmed'' ''correct horse battery'' ''admin'' [] None False empty_auth_db =
      Inr (u, db) \<and> us_access_expires_at u = None \<and> us_password_hash u = h"
    using h n sample_policy
    by (simp add: create_user_def ROLES_def ORDER_def user_named_def empty_auth_db_def default_organization_def Let_def)
  then obtain u db where c: "create_user sample_scrypt sample_env ''Ahmed'' ''correct horse battery'' ''admin'' [] None False
      empty_auth_db = Inr (u, db)" "us_access_expires_at u = None" "us_password_hash u = h" by blast
  have hp: "hash_password sample_scrypt (en_salt sample_env) ''correct horse battery'' = Inr h"
    using h by (simp add: hashed_def split: sum.splits)
  note t = create_user_tables [OF c(1)]
  show ?thesis
    by (rule that [of "audit sample_env ''user.bootstrap'' None (us_username u) '''' ''ok'' (with_db (sample_service empty_auth_db) db)" u])
      (use t c n hp sample_policy in \<open>simp_all add: bootstrap_def sample_deployment_def sample_service_def empty_auth_db_def Let_def
         sample_env_def with_db_def\<close>)
qed

lemma sample_bootstrapped:
  obtains a u where "access_reachable sample_deployment a" and "ad_users (st_db (ac_service a)) = [u]"
    and "us_username u = ''ahmed''" and "us_role u = ''admin''" and "us_is_active u" and "us_id u = ''u2''"
    and "ac_now a = en_now sample_env" and "us_access_expires_at u = None"
    and "ad_sessions (st_db (ac_service a)) = []" and "st_failures (ac_service a) = []"
    and "hash_password sample_scrypt (en_salt sample_env) ''correct horse battery'' = Inr (us_password_hash u)"
proof (rule sample_bootstrap)
  fix st u
  assume st: "bootstrap sample_deployment sample_env ''Ahmed'' [] ''admin'' False (Some ''correct horse battery'') []
      (sample_service empty_auth_db) = (True, st)" and u: "ad_users (st_db st) = [u]" "us_username u = ''ahmed''"
    "us_role u = ''admin''" "us_is_active u" "us_id u = ''u2''" "us_access_expires_at u = None" "ad_sessions (st_db st) = []"
    "hash_password sample_scrypt (en_salt sample_env) ''correct horse battery'' = Inr (us_password_hash u)"
  have f: "st_failures st = []" using st
    by (auto simp: bootstrap_def sample_service_def audit_def with_db_def Let_def split: sum.splits if_splits prod.splits)
  let ?start = "\<lparr>ac_service = sample_service empty_auth_db, ac_now = 0\<rparr>"
  have r: "access_reachable sample_deployment ?start"
    unfolding sample_service_def by (rule access_reachable.start)
  have "access_step sample_deployment ?start
      \<lparr>ac_service = snd (bootstrap sample_deployment sample_env ''Ahmed'' [] ''admin'' False
         (Some ''correct horse battery'') [] (ac_service ?start)), ac_now = en_now sample_env\<rparr>"
    by (rule access_step.bootstrapping)
      (simp_all add: sample_service_def empty_auth_db_def sample_env_def microseconds_def)
  then have "access_reachable sample_deployment \<lparr>ac_service = st, ac_now = en_now sample_env\<rparr>"
    using access_reachable.step [OF r] st by simp
  then show thesis using that u f by simp
qed

theorem accounts_well_formed_witness:
  "\<exists>a u. access_reachable sample_deployment a \<and> ad_users (st_db (ac_service a)) = [u] \<and>
         normalise_username (us_username u) = us_username u"
  by (rule sample_bootstrapped) (metis accounts_well_formed list.set_intros(1))

theorem admin_never_lost_witness:
  "\<exists>a. access_reachable sample_deployment a \<and> has_admin (st_db (ac_service a))"
proof (rule sample_bootstrapped)
  fix a u assume a: "access_reachable sample_deployment a" "ad_users (st_db (ac_service a)) = [u]"
    "us_role u = ''admin''" "us_is_active u"
  then have "has_admin (st_db (ac_service a))" by (simp add: has_admin_def admin_account_def)
  from admin_never_lost [OF a(1) access_step.restarting this] access_reachable.step [OF a(1) access_step.restarting]
  show ?thesis by blast
qed

lemma sample_set_password:
  "\<exists>db. set_password sample_scrypt sample_env uid ''correct horse battery'' True sample_auth_db = Inr db"
  using sample_hashed sample_policy by (auto simp: set_password_def)

theorem credential_change_ends_sessions_witness:
  "fst (resolve_session (\<lambda>t. t) sample_env ''token'' sample_auth_db) = Some (principal_of sample_user) \<and>
   (\<exists>st'. reset_password sample_deployment sample_env (Some (principal_of sample_user)) ''u1'' ''correct horse battery''
      (sample_service sample_auth_db) = (Inr (), st') \<and>
      fst (resolve_session (\<lambda>t. t) sample_env ''token'' (st_db st')) \<noteq> Some (principal_of sample_user))"
proof -
  have live: "fst (resolve_session (\<lambda>t. t) sample_env ''token'' sample_auth_db) = Some (principal_of sample_user)"
    by (simp add: resolve_session_def find_session_def find_user_def access_expired_def sample_account_defs)
  obtain db where "set_password sample_scrypt sample_env ''u1'' ''correct horse battery'' True sample_auth_db = Inr db"
    using sample_set_password by blast
  then obtain st' where r: "reset_password sample_deployment sample_env (Some (principal_of sample_user)) ''u1''
      ''correct horse battery'' (sample_service sample_auth_db) = (Inr (), st')"
    by (simp add: reset_password_def require_def current_principal_def can_def at_least_admin principal_of_def
        sample_user_def find_user_def sample_auth_db_def sample_service_def sample_deployment_def)
  have "fst (resolve_session (\<lambda>t. t) sample_env ''token'' (st_db st')) \<noteq> Some (principal_of sample_user)"
    using credential_change_ends_sessions [OF disjI1 [OF r], of "\<lambda>t. t" sample_env "''token''" "principal_of sample_user"]
    by (auto simp: principal_of_def sample_user_def)
  then show ?thesis using live r by blast
qed


definition sample_login :: request where
  "sample_login = \<lparr>rq_method = ''POST'', rq_path = ''/api/v1/auth/login'', rq_cookies = [], rq_headers = [], rq_client = None\<rparr>"

lemma sample_signed_in:
  obtains a row u where "access_reachable sample_deployment a" and "ad_sessions (st_db (ac_service a)) = [row]"
    and "ad_users (st_db (ac_service a)) = [u]" and "se_user_id row = us_id u" and "us_is_active u"
    and "us_access_expires_at u = None" and "se_token_hash row = ''fresh''" and "ac_now a = en_now sample_env"
    and "se_revoked_at row = None" and "se_expires_at row = en_now sample_env + ABSOLUTE_LIFETIME"
    and "se_last_seen_at row = en_now sample_env"
proof (rule sample_bootstrapped)
  fix a u
  assume a: "access_reachable sample_deployment a" "ad_users (st_db (ac_service a)) = [u]" "us_username u = ''ahmed''"
    "us_role u = ''admin''" "us_is_active u" "us_id u = ''u2''" "ac_now a = en_now sample_env"
    "us_access_expires_at u = None" "ad_sessions (st_db (ac_service a)) = []" "st_failures (ac_service a) = []"
    "hash_password sample_scrypt (en_salt sample_env) ''correct horse battery'' = Inr (us_password_hash u)"
  let ?e = "sample_env\<lparr>en_uuid := ''u3''\<rparr>" and ?st = "ac_service a" and ?pw = "''correct horse battery''"
  have n: "normalise_username ''ahmed'' = ''ahmed''"
    by (simp add: normalise_username_def strip_def is_space_def lower_def lower_char_def)
  have v: "verify sample_scrypt ?pw (us_password_hash u) = Inr True"
    using verify_hash [OF sample_scrypt_contract a(11), of ?pw] by simp
  have ip: "en_ip ?e = ''10.0.0.1''" by (simp add: sample_env_def)
  let ?fs = "clear_failures ''user:ahmed'' []"
  have au: "authenticate sample_scrypt (\<lambda>_. None) (dp_absent sample_deployment) ?e ''ahmed'' ?pw ?st =
      (Inr (signed_in ?e (us_password_hash u) u),
       ?st\<lparr>st_failures := ?fs, st_db := update_row (us_id u) (signed_in ?e (us_password_hash u)) (st_db ?st)\<rparr>)"
    using a v n hash_current(1) [OF a(11)]
    by (simp add: authenticate_def lockout_keys_def ip sample_addresses retry_after_def shared_spray_delay_def user_named_def
        access_expired_def signed_in_def [abs_def] Let_def)
  obtain tok row db where i: "issue_session (\<lambda>t. t) ?e (signed_in ?e (us_password_hash u) u)
      (update_row (us_id u) (signed_in ?e (us_password_hash u)) (st_db ?st)) = ((tok, row), db)" by (metis surj_pair)
  let ?b = "\<lparr>ac_service = served sample_deployment True ?e sample_login (Call_Login ''ahmed'' ?pw) ?st, ac_now = en_now ?e\<rparr>"
  have step: "access_step sample_deployment a ?b"
    by (rule access_step.serving) (use a in \<open>simp_all add: sample_login_def\<close>)
  have m: "security_middleware (\<lambda>t. t) [] True ?e sample_login (st_db ?st) = (Inr None, st_db ?st)"
    by (simp add: security_middleware_def sample_login_def is_public_def PUBLIC_PATHS_def resolve_principal_def dict_get_def
        check_csrf_def starts_with_def)
  have db: "st_db (ac_service ?b) = st_db (audit ?e ''auth.login'' None ''ahmed'' '''' ''ok''
      (with_db (?st\<lparr>st_failures := ?fs, st_db := update_row (us_id u) (signed_in ?e (us_password_hash u)) (st_db ?st)\<rparr>) db))"
    using m au i a(3) by (simp add: served_def sample_deployment_def login_def between_def with_db_def signed_in_def Let_def)
  have "ad_users (st_db (ac_service ?b)) = [signed_in ?e (us_password_hash u) u]"
    "ad_sessions (st_db (ac_service ?b)) = [row]"
    using i a(2,9) unfolding db by (auto simp: issue_session_def update_row_def Let_def)
  moreover have "se_user_id row = us_id u" "se_token_hash row = ''fresh''" "se_revoked_at row = None"
    "se_expires_at row = en_now sample_env + ABSOLUTE_LIFETIME" "se_last_seen_at row = en_now sample_env"
    using i a(8) by (auto simp: issue_session_def signed_in_def sample_env_def Let_def)
  ultimately show thesis
    using that [of ?b row "signed_in ?e (us_password_hash u) u"] access_reachable.step [OF a(1) step] a
    by (simp add: signed_in_def)
qed

theorem session_lifetime_bounded_witness:
  "\<exists>a p s. access_reachable sample_deployment a \<and> s \<in> set (ad_sessions (st_db (ac_service a))) \<and>
     fst (resolve_session (\<lambda>t. t) sample_env ''fresh'' (st_db (ac_service a))) = Some p \<and>
     en_now sample_env < se_created_at s + ABSOLUTE_LIFETIME"
proof (rule sample_signed_in)
  fix a row u
  assume a: "access_reachable sample_deployment a" "ad_sessions (st_db (ac_service a)) = [row]"
    "ad_users (st_db (ac_service a)) = [u]" "se_user_id row = us_id u" "us_is_active u" "us_access_expires_at u = None"
    "se_token_hash row = ''fresh''" "ac_now a = en_now sample_env" "se_revoked_at row = None"
    "se_expires_at row = en_now sample_env + ABSOLUTE_LIFETIME" "se_last_seen_at row = en_now sample_env"
  then have r: "fst (resolve_session (\<lambda>t. t) sample_env ''fresh'' (st_db (ac_service a))) = Some (principal_of u)"
    by (simp add: resolve_session_def find_session_def find_user_def access_expired_def ABSOLUTE_LIFETIME_def
        IDLE_TIMEOUT_def microseconds_def)
  from session_lifetime_bounded [OF a(1) _ r] a r show ?thesis by force
qed


lemma sample_failed_login:
  assumes "db \<in> {sample_auth_db, empty_auth_db}"
  shows "\<exists>st1. login sample_deployment sample_env ''ahmed'' ''wrong'' (sample_service db) = (Inl Unauthenticated, st1)"
proof -
  have n: "normalise_username ''ahmed'' = ''ahmed''"
    by (simp add: normalise_username_def strip_def is_space_def lower_def lower_char_def)
  have ip: "en_ip sample_env = ''10.0.0.1''" by (simp add: sample_env_def)
  have bad: "verify sample_scrypt ''wrong'' ''scrypt$'' = Inr False"
    by (simp add: verify_def stored_parts_def false_on_value_error_def)
  have absent: "verify sample_scrypt ''wrong'' ''scrypt$n=16384,r=8,p=1$00$00'' = Inr False"
    by (simp add: verify_def stored_parts_def default_params_parse is_ascii_space_def hex_value_def derive_def sample_scrypt_def
        utf8_def utf8_char_def false_on_value_error_def char_of_def)
  have u: "user_named ''ahmed'' db = (if db = empty_auth_db then None else Some sample_user)"
    using assms by (auto simp: user_named_def sample_auth_db_def empty_auth_db_def sample_user_def)
  have "\<exists>st1. authenticate sample_scrypt (\<lambda>_. None) ''scrypt$n=16384,r=8,p=1$00$00'' sample_env ''ahmed'' ''wrong''
      (sample_service db) = (Inl INVALID, st1)"
    using n bad absent u
    by (cases "db = empty_auth_db")
      (simp_all add: authenticate_def lockout_keys_def ip sample_addresses retry_after_def sample_service_def
         sample_user_def Let_def)
  then show ?thesis by (auto simp: login_def between_def sample_deployment_def INVALID_def)
qed


definition sample_judge :: user where
  "sample_judge = sample_user\<lparr>us_id := ''j1'', us_username := ''a@b.eg'', us_role := ''viewer'',
                              us_access_expires_at := Some (microseconds 90000)\<rparr>"

theorem promotion_can_lock_out_witness:
  "\<exists>st1 st2 out1 out2.
     update_user sample_env (Some (principal_of sample_user)) ''j1''
       \<lparr>uu_role = Some ''admin'', uu_is_active = None, uu_display_name = None\<rparr>
       (sample_service (sample_auth_db\<lparr>ad_users := [sample_user, sample_judge]\<rparr>)) = (Inr out1, st1) \<and>
     update_user sample_env (Some (principal_of (sample_judge\<lparr>us_role := ''admin''\<rparr>))) ''u1''
       \<lparr>uu_role = Some ''viewer'', uu_is_active = None, uu_display_name = None\<rparr> st1 = (Inr out2, st2) \<and>
     has_admin (st_db st2)"
proof -
  let ?st = "sample_service (sample_auth_db\<lparr>ad_users := [sample_user, sample_judge]\<rparr>)"
  obtain out1 st1 where 1: "update_user sample_env (Some (principal_of sample_user)) (us_id sample_judge)
       \<lparr>uu_role = Some ''admin'', uu_is_active = None, uu_display_name = None\<rparr> ?st = (out1, st1)" by (rule prod.exhaust)
  obtain out2 st2 where 2: "update_user sample_env (Some (principal_of (sample_judge\<lparr>us_role := ''admin''\<rparr>))) (us_id sample_user)
       \<lparr>uu_role = Some ''viewer'', uu_is_active = None, uu_display_name = None\<rparr> st1 = (out2, st2)" by (rule prod.exhaust)
  have "(\<exists>v w. out1 = Inr v \<and> out2 = Inr w) \<and> has_admin (st_db st2)"
    using promotion_can_lock_out [OF _ _ _ _ _ _ _ 1 2, of "microseconds 90000"]
    by (simp add: sample_service_def sample_judge_def sample_user_def admin_account_def)
  then show ?thesis using 1 2 by (auto simp: sample_judge_def sample_user_def)
qed

end
