(* ===== verification/Stored.thy ===== *)
theory Stored
  imports Portfolio Report
begin

text \<open>
  \<open>src/gemp/repository.py\<close> over the tables of \<open>src/gemp/db.py\<close>: stored buildings as domain
  buildings, the import of the portfolio fixture and of the catalogue, the stored candidates,
  the alerts and the readings.

  A table is the list of its rows. The database keeps primary keys and unique columns; its text
  order (the collation) is the parameter \<open>collate\<close>. A timestamp of these tables is an instant in
  microseconds. The properties of a feature of the fixture are a building before its validation; that
  a property is present and has its type is left to the reader of the file.
\<close>

section \<open>Errors, and inserting rows\<close>

datatype store_error =
    Unique_Violation
  | Foreign_Key_Violation
  | File_Not_Found
  | Commit_Failed
  | Raised py_error

type_synonym 'a stored = "store_error + 'a"

text \<open>
  \<open>insert_ignore\<close>: PostgreSQL and SQLite skip a row that clashes with a stored one; any other
  dialect gets a plain insert, which fails.
\<close>

fun insert_ignore :: "('a \<Rightarrow> 'a \<Rightarrow> bool) \<Rightarrow> string \<Rightarrow> 'a list \<Rightarrow> 'a list \<Rightarrow> 'a list stored" where
  "insert_ignore clash dialect [] table = Inr table"
| "insert_ignore clash dialect (r # rows) table =
     (if list_ex (clash r) table
      then if dialect = ''postgresql'' \<or> dialect = ''sqlite'' then insert_ignore clash dialect rows table
           else Inl Unique_Violation
      else insert_ignore clash dialect rows (table @ [r]))"

section \<open>Stored buildings\<close>

text \<open>
  The JSON column of the load shape. An entry on which \<open>float\<close> returns is that number; one on which
  it raises a \<open>TypeError\<close> or a \<open>ValueError\<close> (null, a nested value, a text that is no number) is
  malformed. A column that is null or holds something other than a list is \<open>No_Shape\<close>.
\<close>

datatype shape_entry = Entry rat | Malformed

datatype load_shape = No_Shape | Shape "shape_entry list"

record building_row =
  br_building :: building
  br_footprint :: string
  br_annual_kwh_source :: string
  br_load_shape :: load_shape
  br_load_shape_source :: "string option"
  br_updated_at :: int

abbreviation br_id :: "building_row \<Rightarrow> string" where
  "br_id r \<equiv> bld_id (br_building r)"

abbreviation br_code :: "building_row \<Rightarrow> string" where
  "br_code r \<equiv> bld_code (br_building r)"

fun read_entries :: "shape_entry list \<Rightarrow> rat list option" where
  "read_entries [] = Some []"
| "read_entries (Malformed # es) = None"
| "read_entries (Entry v # es) = map_option ((#) v) (read_entries es)"

definition shape_of :: "building_row \<Rightarrow> rat list option" where
  "shape_of r =
     (case br_load_shape r of
        No_Shape \<Rightarrow> None
      | Shape raw \<Rightarrow> if length raw \<noteq> 24 then None else read_entries raw)"

definition to_domain_building :: "building_row \<Rightarrow> building result" where
  "to_domain_building r =
     validate_building ((br_building r)\<lparr>bld_hourly_shape :=
       (case shape_of r of Some shape \<Rightarrow> shape | None \<Rightarrow> FLAT_SHAPE)\<rparr>)"

definition load_building_rows :: "(string \<Rightarrow> 'k::linorder) \<Rightarrow> building_row list \<Rightarrow> building_row list" where
  "load_building_rows collate table = sort_key (\<lambda>r. collate (br_code r)) table"

definition load_buildings :: "(string \<Rightarrow> 'k::linorder) \<Rightarrow> building_row list \<Rightarrow> building list result" where
  "load_buildings collate table = rmapM to_domain_building (load_building_rows collate table)"

section \<open>The portfolio fixture\<close>

record feature =
  ft_properties :: building
  ft_geometry :: string

text \<open>\<open>load_buildings\<close> and \<open>load_geojson\<close> of \<open>domain/portfolio.py\<close>: a missing file is \<open>None\<close>.\<close>

definition load_fixture_buildings :: "feature list option \<Rightarrow> building list stored" where
  "load_fixture_buildings file =
     (case file of
        None \<Rightarrow> Inl File_Not_Found
      | Some features \<Rightarrow>
          (case rmapM (\<lambda>f. validate_building (ft_properties f)) features of
             Inl e \<Rightarrow> Inl (Raised e)
           | Inr bs \<Rightarrow> Inr bs))"

definition load_geojson :: "feature list option \<Rightarrow> feature list stored" where
  "load_geojson file = (case file of None \<Rightarrow> Inl File_Not_Found | Some features \<Rightarrow> Inr features)"

definition building_record :: "int \<Rightarrow> feature \<Rightarrow> building_row" where
  "building_record now f =
     \<lparr>br_building = ft_properties f, br_footprint = ft_geometry f, br_annual_kwh_source = ''profile'',
      br_load_shape = No_Shape, br_load_shape_source = None, br_updated_at = now\<rparr>"

definition building_clash :: "building_row \<Rightarrow> building_row \<Rightarrow> bool" where
  "building_clash r s = (br_id r = br_id s \<or> br_code r = br_code s)"

text \<open>
  \<open>UPDATE building SET .. WHERE id = ..\<close> with every column, and the number of rows it matched; the
  unique code makes it fail when another building has the new code.
\<close>

definition update_building :: "building_row \<Rightarrow> building_row list \<Rightarrow> (building_row list \<times> nat) stored" where
  "update_building r table =
     (let matched = filter (\<lambda>s. br_id s = br_id r) table
      in if matched \<noteq> [] \<and> list_ex (\<lambda>s. br_id s \<noteq> br_id r \<and> br_code s = br_code r) table
         then Inl Unique_Violation
         else Inr (map (\<lambda>s. if br_id s = br_id r then r else s) table, length matched))"

fun replace_buildings :: "string \<Rightarrow> building_row list \<Rightarrow> building_row list \<Rightarrow> building_row list stored" where
  "replace_buildings dialect [] table = Inr table"
| "replace_buildings dialect (r # records) table =
     rbind (update_building r table) (\<lambda>(table', rowcount).
     rbind (if rowcount = 0 then insert_ignore building_clash dialect [r] table' else Inr table')
       (\<lambda>table''. replace_buildings dialect records table''))"

text \<open>A given collection has its features key, so it is true in \<open>geojson or load_geojson()\<close>.\<close>

definition import_portfolio ::
  "string \<Rightarrow> int \<Rightarrow> feature list option \<Rightarrow> feature list option \<Rightarrow> bool \<Rightarrow> building_row list
     \<Rightarrow> (nat \<times> building_row list) stored" where
  "import_portfolio dialect now file geojson overwrite table =
     rbind (case geojson of Some features \<Rightarrow> Inr features | None \<Rightarrow> load_geojson file) (\<lambda>features.
       let records = map (building_record now) features
       in rbind (if overwrite then replace_buildings dialect records table
                 else insert_ignore building_clash dialect records table)
            (\<lambda>table'. Inr (length records, table')))"

section \<open>The catalogue and the candidates\<close>

record intervention_row =
  ir_intervention :: intervention
  ir_loaded_at :: int

definition intervention_clash :: "intervention_row \<Rightarrow> intervention_row \<Rightarrow> bool" where
  "intervention_clash r s = (iv_id (ir_intervention r) = iv_id (ir_intervention s))"

definition import_catalog ::
  "string \<Rightarrow> int \<Rightarrow> intervention list \<Rightarrow> intervention_row list \<Rightarrow> (nat \<times> intervention_row list) stored" where
  "import_catalog dialect now catalog table =
     (let records = map (\<lambda>iv. \<lparr>ir_intervention = iv, ir_loaded_at = now\<rparr>) catalog
      in rbind (insert_ignore intervention_clash dialect records table)
           (\<lambda>table'. Inr (length records, table')))"

record candidate_row =
  cr_key :: string
  cr_building_id :: string
  cr_district :: string
  cr_intervention_ids :: "string list"
  cr_label :: string
  cr_cost_egp :: rat
  cr_annual_kwh_saving :: rat
  cr_lifetime_benefit :: rat
  cr_annual_egp_saving :: rat
  cr_computed_at :: int
  cr_inputs_hash :: string

definition candidate_record :: "int \<Rightarrow> string \<Rightarrow> candidate \<Rightarrow> candidate_row" where
  "candidate_record now h c =
     \<lparr>cr_key = cand_key c, cr_building_id = cand_building_id c, cr_district = cand_district c,
      cr_intervention_ids = cand_intervention_ids c, cr_label = cand_label c,
      cr_cost_egp = cand_cost_egp c, cr_annual_kwh_saving = cand_annual_kwh_saving c,
      cr_lifetime_benefit = cand_lifetime_benefit c, cr_annual_egp_saving = cand_annual_egp_saving c,
      cr_computed_at = now, cr_inputs_hash = h\<rparr>"

definition candidate_clash :: "candidate_row \<Rightarrow> candidate_row \<Rightarrow> bool" where
  "candidate_clash r s = (cr_key r = cr_key s)"

text \<open>The rows refer to buildings, \<open>known\<close> the ids of the building table.\<close>

definition materialize_candidates ::
  "string \<Rightarrow> int \<Rightarrow> string list \<Rightarrow> candidate list \<Rightarrow> string \<Rightarrow> candidate_row list
     \<Rightarrow> (nat \<times> candidate_row list) stored" where
  "materialize_candidates dialect now known candidates h table =
     (let kept = filter (\<lambda>r. \<not> cr_inputs_hash r \<noteq> h) table;
          records = map (candidate_record now h) candidates
      in rbind (insert_ignore candidate_clash dialect records kept) (\<lambda>table'.
           if list_ex (\<lambda>r. cr_building_id r \<notin> set known) (drop (length kept) table')
           then Inl Foreign_Key_Violation
           else Inr (length records, table')))"

definition stored_candidate_count :: "string option \<Rightarrow> candidate_row list \<Rightarrow> nat" where
  "stored_candidate_count h table =
     (case h of
        None \<Rightarrow> length table
      | Some h \<Rightarrow> if h = [] then length table else length (filter (\<lambda>r. cr_inputs_hash r = h) table))"

section \<open>Readings\<close>

text \<open>
  \<open>estimate\<close> is what the extension's estimate returned, \<open>None\<close> where the query failed or gave null.
\<close>

definition reading_count :: "int option \<Rightarrow> row list \<Rightarrow> int \<times> bool" where
  "reading_count estimate table =
     (case estimate of
        Some n \<Rightarrow> if n > 0 then (n, False) else (int (length table), True)
      | None \<Rightarrow> (int (length table), True))"

abbreviation row_instant :: "row \<Rightarrow> int" where
  "row_instant r \<equiv> instant (the (row_ts r))"

definition about_building :: "string option \<Rightarrow> row \<Rightarrow> bool" where
  "about_building b r = (case b of None \<Rightarrow> True | Some b \<Rightarrow> b = [] \<or> row_building_id r = Some b)"

definition latest_reading_ts :: "string option \<Rightarrow> row list \<Rightarrow> int option" where
  "latest_reading_ts b table =
     map_option row_instant (py_max_by row_instant (filter (about_building b) table))"

definition read_series ::
  "string \<Rightarrow> int option \<Rightarrow> int option \<Rightarrow> nat \<Rightarrow> row list \<Rightarrow> row list" where
  "read_series b start stop limit table =
     (let hits = filter (\<lambda>r. row_building_id r = Some b \<and>
                   (case start of None \<Rightarrow> True | Some t \<Rightarrow> t \<le> row_instant r) \<and>
                   (case stop of None \<Rightarrow> True | Some t \<Rightarrow> row_instant r < t)) table
      in rev (take limit (rev (sort_key row_instant hits))))"

section \<open>Alerts\<close>

record anomaly_row =
  an_id :: int
  an_building_id :: string
  an_ts :: int
  an_observed_kw :: rat
  an_expected_kw :: rat
  an_residual :: rat
  an_robust_z :: rat
  an_severity :: string
  an_acknowledged :: bool

record selector =
  sel_ids :: "int list option"
  sel_building_id :: "string option"
  sel_before :: "int option"
  sel_severity :: "string option"

definition selected :: "selector \<Rightarrow> anomaly_row \<Rightarrow> bool" where
  "selected s a =
     ((case sel_ids s of None \<Rightarrow> True | Some ids \<Rightarrow> ids = [] \<or> an_id a \<in> set ids) \<and>
      (case sel_building_id s of None \<Rightarrow> True | Some b \<Rightarrow> b = [] \<or> an_building_id a = b) \<and>
      (case sel_before s of None \<Rightarrow> True | Some t \<Rightarrow> an_ts a < t) \<and>
      (case sel_severity s of None \<Rightarrow> True | Some v \<Rightarrow> v = [] \<or> an_severity a = v))"

definition acknowledge_anomalies :: "selector \<Rightarrow> bool \<Rightarrow> anomaly_row list \<Rightarrow> nat \<times> anomaly_row list" where
  "acknowledge_anomalies s acknowledged table =
     (let hit = (\<lambda>a. selected s a \<and> an_acknowledged a = (\<not> acknowledged))
      in (length (filter hit table),
          map (\<lambda>a. if hit a then a\<lparr>an_acknowledged := acknowledged\<rparr> else a) table))"

definition open_anomaly_count :: "string option \<Rightarrow> anomaly_row list \<Rightarrow> nat" where
  "open_anomaly_count b table =
     length (filter (\<lambda>a. \<not> an_acknowledged a \<and>
       (case b of None \<Rightarrow> True | Some b \<Rightarrow> b = [] \<or> an_building_id a = b)) table)"


section \<open>Lemmas\<close>

abbreviation ignoring :: "string \<Rightarrow> bool" where
  "ignoring dialect \<equiv> dialect = ''postgresql'' \<or> dialect = ''sqlite''"

lemma insert_ignore_grows:
  assumes "insert_ignore clash dialect rows table = Inr table'"
  shows "\<exists>new. table' = table @ new \<and> set new \<subseteq> set rows \<and>
           (\<forall>r \<in> set rows. clash r r \<longrightarrow> list_ex (clash r) table')"
  using assms
proof (induction clash dialect rows table rule: insert_ignore.induct)
  case (1 clash dialect table)
  then show ?case by simp
next
  case (2 clash dialect r rows table)
  show ?case
  proof (cases "list_ex (clash r) table")
    case True
    with 2(3) have "ignoring dialect" and "insert_ignore clash dialect rows table = Inr table'"
      by (auto split: if_splits)
    from 2(1) [OF True this] True show ?thesis by fastforce
  next
    case False
    with 2(3) have "insert_ignore clash dialect rows (table @ [r]) = Inr table'" by simp
    from 2(2) [OF False this] show ?thesis by fastforce
  qed
qed

lemma insert_ignore_total:
  "ignoring dialect \<Longrightarrow> \<exists>table'. insert_ignore clash dialect rows table = Inr table'"
  by (induction rows arbitrary: table) auto

lemma insert_ignore_present:
  "ignoring dialect \<Longrightarrow> (\<And>r. r \<in> set rows \<Longrightarrow> list_ex (clash r) table) \<Longrightarrow>
     insert_ignore clash dialect rows table = Inr table"
  by (induction rows) auto

lemma insert_ignore_fresh:
  assumes "\<And>r. r \<in> set rows \<Longrightarrow> \<not> list_ex (clash r) table"
    and "sorted_wrt (\<lambda>r s. \<not> clash s r) rows"
  shows "insert_ignore clash dialect rows table = Inr (table @ rows)"
  using assms by (induction rows arbitrary: table) auto

lemma insert_keeps_keys:
  assumes "insert_ignore clash dialect rows table = Inr table'"
    and "\<And>r s. key r = key s \<Longrightarrow> clash r s" and "distinct (map key table)"
  shows "distinct (map key table')"
  using assms(1,3)
proof (induction rows arbitrary: table)
  case (Cons r rows)
  show ?case
  proof (cases "list_ex (clash r) table")
    case True
    then show ?thesis using Cons by (auto split: if_splits)
  next
    case False
    then have "key r \<notin> key ` set table" using assms(2) by (auto simp: list_ex_iff)
    then show ?thesis using Cons False by simp
  qed
qed simp

lemma rmapM_map: "rmapM f (map g xs) = rmapM (\<lambda>x. f (g x)) xs"
  by (induction xs) simp_all

lemma rmapM_Inr_iff:
  "rmapM f xs = Inr ys \<longleftrightarrow> map f xs = map Inr ys"
  by (induction xs arbitrary: ys) (auto simp: result_simps)

lemma rmapM_choice:
  assumes "rmapM f xs = Inr ys"
  shows "\<exists>g. (\<forall>x \<in> set xs. f x = Inr (g x)) \<and> ys = map g xs"
proof -
  define g where "g x = (case f x of Inr y \<Rightarrow> y)" for x
  have fs: "map f xs = map Inr ys" using assms by (simp add: rmapM_Inr_iff)
  have inr: "f x = Inr (g x)" if "x \<in> set xs" for x
  proof -
    have "f x \<in> set (map f xs)" using that by simp
    then obtain y where "f x = Inr y" unfolding fs by auto
    then show ?thesis by (simp add: g_def)
  qed
  have "map f xs = map Inr (map g xs)" using inr by simp
  then have "ys = map g xs" unfolding fs by (simp only: inj_map_eq_map [OF inj_Inr])
  then show ?thesis using inr by blast
qed

lemma rmapM_sort_key:
  assumes "rmapM f xs = Inr ys" and "\<And>x y. x \<in> set xs \<Longrightarrow> f x = Inr y \<Longrightarrow> k x = k' y"
  shows "rmapM f (sort_key k xs) = Inr (sort_key k' ys)"
proof -
  obtain g where inr: "\<And>x. x \<in> set xs \<Longrightarrow> f x = Inr (g x)" and "ys = map g xs"
    using rmapM_choice [OF assms(1)] by blast
  moreover have "sort_key k' (map g xs) = map g (sort_key k xs)"
  proof -
    have key: "k' (g x) = k x" if "x \<in> set xs" for x using assms(2) [OF that inr [OF that]] by simp
    have ins: "insort_key k' (g a) (map g zs) = map g (insort_key k a zs)"
      if "a \<in> set xs" "set zs \<subseteq> set xs" for a zs
      using that by (induction zs) (auto simp: key)
    have "sort_key k' (map g zs) = map g (sort_key k zs)" if "set zs \<subseteq> set xs" for zs
      using that by (induction zs) (auto simp: ins)
    then show ?thesis by simp
  qed
  moreover have "rmapM f (sort_key k xs) = Inr (map g (sort_key k xs))"
    by (rule rmapM_all_Inr) (simp add: inr)
  ultimately show ?thesis by simp
qed

lemma validate_keeps: "validate_building b = Inr b' \<Longrightarrow> b' = b\<lparr>bld_hourly_shape := bld_hourly_shape b'\<rparr>"
  by (auto simp: validate_building_def result_simps split: if_splits)

lemma validated_code: "validate_building b = Inr b' \<Longrightarrow> bld_code b' = bld_code b"
  by (auto simp: validate_building_def result_simps split: if_splits)


section \<open>The stored portfolio\<close>

lemma rmapM_fails:
  "x \<in> set xs \<Longrightarrow> f x = Inl e \<Longrightarrow> \<exists>e. rmapM f xs = Inl e"
proof (induction xs)
  case (Cons y ys)
  then show ?case by (cases "f y"; cases "x = y"; fastforce)
qed simp

lemma to_domain_record:
  assumes "bld_hourly_shape (ft_properties f) = FLAT_SHAPE"
  shows "to_domain_building (building_record now f) = validate_building (ft_properties f)"
  using assms by (cases "ft_properties f") (simp add: to_domain_building_def building_record_def shape_of_def)

text \<open>
  The buildings a fresh database gives back after the import are those the fixture itself
  gives, sorted by code: the optimiser sees the same portfolio from either source. The fixture's
  ids and codes are distinct and it carries no load shapes.
\<close>
lemma import_load:
  assumes "import_portfolio dialect now (Some fs) None overwrite [] = Inr (n, table)"
    and "load_fixture_buildings (Some fs) = Inr bs"
    and "distinct (map (bld_id \<circ> ft_properties) fs)" and "distinct (map (bld_code \<circ> ft_properties) fs)"
    and "\<forall>f \<in> set fs. bld_hourly_shape (ft_properties f) = FLAT_SHAPE"
  shows "n = length bs \<and> load_buildings collate table = Inr (sort_key (\<lambda>b. collate (bld_code b)) bs)"
proof -
  let ?rs = "map (building_record now) fs"
  have sep: "sorted_wrt (\<lambda>r s. \<not> building_clash s r) ?rs"
    using assms(3,4) by (induction fs) (auto simp: building_clash_def building_record_def image_iff)
  have plain: "insert_ignore building_clash dialect ?rs [] = Inr ?rs"
    using insert_ignore_fresh [OF _ sep, of "[]"] by simp
  have over: "replace_buildings dialect rs t = Inr (t @ rs)"
    if "\<And>r. r \<in> set rs \<Longrightarrow> \<not> list_ex (building_clash r) t" "sorted_wrt (\<lambda>r s. \<not> building_clash s r) rs"
    for rs t
    using that
  proof (induction rs arbitrary: t)
    case (Cons r rs)
    have "filter (\<lambda>s. br_id s = br_id r) t = []"
      using Cons.prems(1) [of r] by (auto simp: filter_empty_conv list_ex_iff building_clash_def)
    moreover have "map (\<lambda>s. if br_id s = br_id r then r else s) t = t"
      by (rule map_idI) (use Cons.prems(1) [of r] in \<open>auto simp: list_ex_iff building_clash_def\<close>)
    ultimately have u: "update_building r t = Inr (t, 0)" by (simp add: update_building_def)
    have "replace_buildings dialect rs (t @ [r]) = Inr ((t @ [r]) @ rs)"
      by (rule Cons.IH) (use Cons.prems in auto)
    then show ?case using u Cons.prems(1) [of r] by simp
  qed simp
  have table: "table = ?rs" "n = length fs"
    using assms(1) plain over [OF _ sep, of "[]"]
    by (auto simp: import_portfolio_def load_geojson_def Let_def split: if_splits)
  have bs: "rmapM (\<lambda>f. validate_building (ft_properties f)) fs = Inr bs"
    using assms(2) by (simp add: load_fixture_buildings_def split: sum.splits)
  then have "rmapM to_domain_building ?rs = Inr bs"
  proof -
    have "map (to_domain_building \<circ> building_record now) fs = map (\<lambda>f. validate_building (ft_properties f)) fs"
      using assms(5) by (simp add: to_domain_record)
    then show ?thesis using bs by (simp only: rmapM_Inr_iff map_map)
  qed
  then have "rmapM to_domain_building (sort_key (\<lambda>r. collate (br_code r)) ?rs) =
      Inr (sort_key (\<lambda>b. collate (bld_code b)) bs)"
    by (rule rmapM_sort_key) (auto simp: to_domain_building_def dest: validated_code)
  moreover have "n = length bs" using bs table(2) by (metis rmapM_Inr_iff length_map)
  ultimately show ?thesis by (simp add: load_buildings_def load_building_rows_def table(1))
qed

definition sample_fixture :: "feature list" where
  "sample_fixture = [\<lparr>ft_properties = sample_building ''b'' ''Dokki'', ft_geometry = ''{}''\<rparr>,
                     \<lparr>ft_properties = sample_building ''a'' ''Dokki'', ft_geometry = ''{}''\<rparr>]"

lemma sample_fixture_valid:
  "load_fixture_buildings (Some sample_fixture) =
     Inr [sample_building ''b'' ''Dokki'', sample_building ''a'' ''Dokki'']"
  by code_simp

definition overlay :: "building_row list \<Rightarrow> building_row \<Rightarrow> building_row" where
  "overlay rs s = (case find (\<lambda>r. br_id r = br_id s) rs of None \<Rightarrow> s | Some r \<Rightarrow> r)"

lemma find_map: "find P (map f xs) = map_option f (find (P \<circ> f) xs)"
  by (induction xs) auto

lemma overlay_absent: "br_id s \<notin> br_id ` set rs \<Longrightarrow> overlay rs s = s"
  by (induction rs) (auto simp: overlay_def)

lemma overlay_Cons: "overlay (r # rs) s = (if br_id s = br_id r then r else overlay rs s)"
  by (auto simp: overlay_def)

lemma replace_overlays:
  assumes "distinct (map br_id rs)" and "distinct (map br_code rs)"
    and "\<forall>r \<in> set rs. \<forall>s \<in> set t. br_code r = br_code s \<longrightarrow> br_id r = br_id s"
  shows "replace_buildings dialect rs t =
    Inr (map (overlay rs) t @ filter (\<lambda>r. br_id r \<notin> br_id ` set t) rs)"
  using assms
proof (induction rs arbitrary: t)
  case Nil
  then show ?case by (simp add: overlay_def map_idI)
next
  case (Cons r rs)
  have r: "overlay rs r = r" by (rule overlay_absent) (use Cons.prems(1) in auto)
  have others: "br_id x \<noteq> br_id r" "br_code x \<noteq> br_code r" if "x \<in> set rs" for x
    using that Cons.prems(1,2) by (auto simp: image_iff)
  have old: "br_id x = br_id s" if "x \<in> set rs" "s \<in> set t" "br_code x = br_code s" for x s
    using that Cons.prems(3) by simp
  have tail: "distinct (map br_id rs)" "distinct (map br_code rs)" using Cons.prems(1,2) by simp_all
  let ?t = "map (\<lambda>s. if br_id s = br_id r then r else s) t"
  have free: "\<not> list_ex (\<lambda>s. br_id s \<noteq> br_id r \<and> br_code s = br_code r) t"
    unfolding list_ex_iff using Cons.prems(3) by (metis list.set_intros(1))
  show ?case
  proof (cases "br_id r \<in> br_id ` set t")
    case True
    have ids: "br_id ` set ?t = br_id ` set t" unfolding set_map image_image by (rule image_cong) simp_all
    have "replace_buildings dialect rs ?t =
        Inr (map (overlay rs) ?t @ filter (\<lambda>r. br_id r \<notin> br_id ` set ?t) rs)"
    proof (rule Cons.IH [OF tail], intro ballI impI)
      fix x s assume x: "x \<in> set rs" and s: "s \<in> set ?t" and c: "br_code x = br_code s"
      from s obtain s' where s': "s' \<in> set t" "s = (if br_id s' = br_id r then r else s')" by auto
      show "br_id x = br_id s"
        using s' others(2) [OF x] old [OF x s'(1)] c by (simp split: if_splits)
    qed
    moreover have "map (overlay rs) ?t = map (overlay (r # rs)) t" by (simp add: overlay_Cons r)
    moreover have "update_building r t = Inr (?t, length (filter (\<lambda>s. br_id s = br_id r) t))"
      "filter (\<lambda>s. br_id s = br_id r) t \<noteq> []"
      using free True by (auto simp: update_building_def filter_empty_conv)
    ultimately show ?thesis using True by (simp only: ids) simp
  next
    case False
    have same: "?t = t" by (rule map_idI) (use False in \<open>metis image_eqI\<close>)
    have "filter (\<lambda>s. br_id s = br_id r) t = []"
      unfolding filter_empty_conv using False by (metis image_eqI)
    then have u: "update_building r t = Inr (t, 0)" unfolding update_building_def Let_def same by simp
    have fresh: "\<not> list_ex (building_clash r) t"
      unfolding list_ex_iff building_clash_def using False Cons.prems(3)
      by (metis image_eqI list.set_intros(1))
    have "replace_buildings dialect rs (t @ [r]) =
        Inr (map (overlay rs) (t @ [r]) @ filter (\<lambda>x. br_id x \<notin> br_id ` set (t @ [r])) rs)"
    proof (rule Cons.IH [OF tail], intro ballI impI)
      fix x s assume x: "x \<in> set rs" and s: "s \<in> set (t @ [r])" and c: "br_code x = br_code s"
      from s have "s = r \<or> s \<in> set t" by auto
      then show "br_id x = br_id s" using others(2) [OF x] old [OF x] c by metis
    qed
    moreover have "map (overlay rs) t = map (overlay (r # rs)) t"
      by (rule map_cong [OF refl]) (use False in \<open>metis overlay_Cons image_eqI\<close>)
    moreover have "filter (\<lambda>x. br_id x \<notin> br_id ` set (t @ [r])) rs = filter (\<lambda>x. br_id x \<notin> br_id ` set t) rs"
      by (rule filter_cong [OF refl]) (auto dest: others)
    ultimately show ?thesis using u fresh False r by simp
  qed
qed

text \<open>
  Replacing makes every stored building the fixture names equal to the fixture, adds the ones
  it lacks, and leaves every other stored building exactly as it was - it does not remove them.
  This is when no code of the fixture belongs to another stored building.
\<close>
theorem replace_matches_fixture:
  assumes "distinct (map (bld_id \<circ> ft_properties) fs)" and "distinct (map (bld_code \<circ> ft_properties) fs)"
    and "\<forall>f \<in> set fs. \<forall>s \<in> set table.
           bld_code (ft_properties f) = br_code s \<longrightarrow> bld_id (ft_properties f) = br_id s"
  shows "import_portfolio dialect now file (Some fs) True table =
    Inr (length fs,
      map (\<lambda>s. case find (\<lambda>f. bld_id (ft_properties f) = br_id s) fs of
                 None \<Rightarrow> s | Some f \<Rightarrow> building_record now f) table @
      map (building_record now) (filter (\<lambda>f. bld_id (ft_properties f) \<notin> br_id ` set table) fs))"
proof -
  let ?rs = "map (building_record now) fs"
  have "replace_buildings dialect ?rs table =
      Inr (map (overlay ?rs) table @ filter (\<lambda>r. br_id r \<notin> br_id ` set table) ?rs)"
    by (rule replace_overlays)
      (use assms in \<open>auto simp: building_record_def comp_def\<close>)
  moreover have "overlay ?rs s = (case find (\<lambda>f. bld_id (ft_properties f) = br_id s) fs of
      None \<Rightarrow> s | Some f \<Rightarrow> building_record now f)" for s
    by (simp add: overlay_def find_map building_record_def comp_def split: option.splits)
  ultimately show ?thesis
    by (simp add: import_portfolio_def Let_def filter_map comp_def building_record_def)
qed


theorem replace_matches_fixture_witness:
  "\<exists>table. import_portfolio ''sqlite'' 9 None (Some (take 1 sample_fixture)) True
       (map (building_record 7) sample_fixture) = Inr (1, table) \<and>
     map br_id table = [''b'', ''a''] \<and> map br_updated_at table = [9, 7]"
proof -
  have "import_portfolio ''sqlite'' 9 None (Some (take 1 sample_fixture)) True
       (map (building_record 7) sample_fixture) =
    Inr (length (take 1 sample_fixture),
      map (\<lambda>s. case find (\<lambda>f. bld_id (ft_properties f) = br_id s) (take 1 sample_fixture) of
                 None \<Rightarrow> s | Some f \<Rightarrow> building_record 9 f) (map (building_record 7) sample_fixture) @
      map (building_record 9) (filter (\<lambda>f. bld_id (ft_properties f) \<notin> br_id ` set (map (building_record 7) sample_fixture))
        (take 1 sample_fixture)))"
    by (rule replace_matches_fixture)
      (simp_all add: sample_fixture_def building_record_def sample_building_def)
  then show ?thesis by (simp add: sample_fixture_def building_record_def sample_building_def)
qed

text \<open>
  Replacing depends on the order of the features. The stored b gave its code away: with a
  listed first, its insertion clashes with the b that has not been updated yet and is skipped
  without a word, so the count says two and the new building is missing.
\<close>
theorem replace_skips_a_building:
  "let a = sample_building ''a'' ''Dokki''; b = sample_building ''b'' ''Dokki'';
       fs = [\<lparr>ft_properties = a\<lparr>bld_code := ''b''\<rparr>, ft_geometry = g\<rparr>,
             \<lparr>ft_properties = b\<lparr>bld_code := ''c''\<rparr>, ft_geometry = g\<rparr>];
       stored = [building_record 0 \<lparr>ft_properties = b, ft_geometry = g\<rparr>]
   in (\<exists>table. import_portfolio ''postgresql'' 1 None (Some fs) True stored = Inr (2, table) \<and>
               map br_id table = [''b'']) \<and>
      (\<exists>table. import_portfolio ''postgresql'' 1 None (Some (rev fs)) True stored = Inr (2, table) \<and>
               map br_id table = [''b'', ''a''])"
  by (simp add: Let_def import_portfolio_def update_building_def building_clash_def building_record_def
      sample_building_def)

text \<open>
  One stored load shape of twenty-four numbers with an entry that is not positive makes the
  loading of the whole portfolio fail, however well formed the other buildings are.
\<close>
theorem one_bad_shape_hides_all:
  assumes "r \<in> set table" and "shape_of r = Some shape" and "v \<in> set shape" and "v \<le> 0"
  shows "\<exists>e. load_buildings collate table = Inl e"
proof -
  have "list_ex (\<lambda>v. v \<le> 0) shape" using assms(3,4) by (auto simp: list_ex_iff)
  then have "\<exists>e. to_domain_building r = Inl e"
    using assms(2) by (simp add: to_domain_building_def validate_building_def shape_is_a_normalised_day_def)
  moreover have "r \<in> set (load_building_rows collate table)"
    using assms(1) by (simp add: load_building_rows_def)
  ultimately show ?thesis unfolding load_buildings_def by (meson rmapM_fails)
qed

theorem one_bad_shape_hides_all_witness:
  "\<exists>e. load_buildings length
     [building_record 0 \<lparr>ft_properties = sample_building ''a'' ''Dokki'', ft_geometry = []\<rparr>,
      (building_record 0 \<lparr>ft_properties = sample_building ''b'' ''Dokki'', ft_geometry = []\<rparr>)
        \<lparr>br_load_shape := Shape (Entry 0 # replicate 23 (Entry 1))\<rparr>] = Inl e"
  by (rule one_bad_shape_hides_all [where v = 0 and shape = "0 # replicate 23 1"
        and r = "(building_record 0 \<lparr>ft_properties = sample_building ''b'' ''Dokki'', ft_geometry = []\<rparr>)
          \<lparr>br_load_shape := Shape (Entry 0 # replicate 23 (Entry 1))\<rparr>"])
    (simp_all add: shape_of_def building_record_def numeral_eq_Suc)

section \<open>The stored candidates\<close>

lemma materialized_rows:
  assumes "materialize_candidates dialect now known cs h table = Inr (n, table')"
  shows "n = length cs" and "\<forall>r \<in> set table'. cr_inputs_hash r = h"
    and "cand_key ` set cs \<subseteq> cr_key ` set table'"
    and "{r \<in> set table. cr_inputs_hash r = h} \<subseteq> set table'"
    and "distinct (map cr_key table) \<Longrightarrow> distinct (map cr_key table')"
proof -
  let ?kept = "filter (\<lambda>r. \<not> cr_inputs_hash r \<noteq> h) table"
  let ?rs = "map (candidate_record now h) cs"
  have ins: "insert_ignore candidate_clash dialect ?rs ?kept = Inr table'" and n: "n = length cs"
    using assms by (auto simp: materialize_candidates_def Let_def result_simps split: if_splits)
  show "n = length cs" by (rule n)
  obtain new where new: "table' = ?kept @ new" "set new \<subseteq> set ?rs"
    "\<forall>r \<in> set ?rs. list_ex (candidate_clash r) table'"
    using insert_ignore_grows [OF ins] by (auto simp: candidate_clash_def)
  show "\<forall>r \<in> set table'. cr_inputs_hash r = h" using new(1,2) by (auto simp: candidate_record_def)
  show "cand_key ` set cs \<subseteq> cr_key ` set table'"
  proof (rule image_subsetI)
    fix c assume "c \<in> set cs"
    then have "list_ex (candidate_clash (candidate_record now h c)) table'" using new(3) by simp
    then obtain r where "r \<in> set table'" "cand_key c = cr_key r"
      by (auto simp: list_ex_iff candidate_clash_def candidate_record_def)
    then show "cand_key c \<in> cr_key ` set table'" by simp
  qed
  show "{r \<in> set table. cr_inputs_hash r = h} \<subseteq> set table'" using new(1) by auto
  assume "distinct (map cr_key table)"
  then show "distinct (map cr_key table')"
    by (intro insert_keeps_keys [OF ins]) (simp_all add: candidate_clash_def distinct_map_filter)
qed

text \<open>
  After a candidate set is stored, the table holds rows of that fingerprint only, every
  candidate has its row, and no key is there twice; a row of the same fingerprint that was there
  before is kept as it was, not refreshed.
\<close>
theorem one_candidate_generation:
  assumes "materialize_candidates dialect now known cs h table = Inr (n, table')"
    and "distinct (map cr_key table)"
  shows "n = length cs \<and> (\<forall>r \<in> set table'. cr_inputs_hash r = h) \<and>
         cand_key ` set cs \<subseteq> cr_key ` set table' \<and> distinct (map cr_key table') \<and>
         {r \<in> set table. cr_inputs_hash r = h} \<subseteq> set table'"
  using materialized_rows [OF assms(1)] assms(2) by simp

theorem one_candidate_generation_witness:
  "\<exists>table. materialize_candidates ''sqlite'' 5 [''a'', ''b''] sample_candidates ''new''
       [(candidate_record 1 ''old'' (hd sample_candidates))] = Inr (length sample_candidates, table) \<and>
     (\<forall>r \<in> set table. cr_inputs_hash r = ''new'') \<and> distinct (map cr_key table)"
proof -
  obtain n table where t: "materialize_candidates ''sqlite'' 5 [''a'', ''b''] sample_candidates ''new''
       [(candidate_record 1 ''old'' (hd sample_candidates))] = Inr (n, table)"
    by (simp add: materialize_candidates_def Let_def candidate_record_def candidate_clash_def
        sample_candidates_def sample_option_def)
  from one_candidate_generation [OF this] t show ?thesis by simp
qed

section \<open>Alerts and series\<close>

text \<open>
  Acknowledging changes exactly the alerts the selector names that are still open, changes
  nothing else in them or in any other alert, and returns their number; doing it again changes
  nothing and returns zero, and so many fewer alerts are open. Reopening does the reverse.
\<close>
lemma acknowledge_exact:
  assumes "acknowledge_anomalies s v table = (n, table')"
  shows "length table' = length table \<and>
    (\<forall>i < length table.
       table' ! i = (if selected s (table ! i) then (table ! i)\<lparr>an_acknowledged := v\<rparr> else table ! i)) \<and>
    n = card {i. i < length table \<and> table' ! i \<noteq> table ! i} \<and>
    acknowledge_anomalies s v table' = (0, table') \<and>
    (if v then open_anomaly_count None table' + n = open_anomaly_count None table
     else open_anomaly_count None table' = open_anomaly_count None table + n)"
proof -
  let ?hit = "\<lambda>a. selected s a \<and> an_acknowledged a = (\<not> v)"
  let ?set = "\<lambda>a. a\<lparr>an_acknowledged := v\<rparr>"
  have t: "table' = map (\<lambda>a. if ?hit a then ?set a else a) table" and n: "n = length (filter ?hit table)"
    using assms by (auto simp: acknowledge_anomalies_def Let_def)
  have same: "an_acknowledged a = v \<Longrightarrow> ?set a = a" for a by simp
  have each: "table' ! i = (if selected s (table ! i) then ?set (table ! i) else table ! i)"
    if "i < length table" for i
    using that by (cases "an_acknowledged (table ! i) = v") (simp_all add: t same)
  have differs: "?set a \<noteq> a \<longleftrightarrow> an_acknowledged a = (\<not> v)" for a by (cases a) auto
  have "table' ! i \<noteq> table ! i \<longleftrightarrow> ?hit (table ! i)" if "i < length table" for i
    unfolding each [OF that] using differs [of "table ! i"] by (cases "selected s (table ! i)") simp_all
  then have "{i. i < length table \<and> table' ! i \<noteq> table ! i} = {i. i < length table \<and> ?hit (table ! i)}"
    by blast
  then have card: "n = card {i. i < length table \<and> table' ! i \<noteq> table ! i}"
    by (simp add: n length_filter_conv_card)
  have sel: "selected s (a\<lparr>an_acknowledged := v\<rparr>) = selected s a" for a
    by (simp add: selected_def split: option.split)
  have again: "acknowledge_anomalies s v table' = (0, table')"
    by (auto simp: acknowledge_anomalies_def Let_def t sel filter_empty_conv)
  have "if v then open_anomaly_count None table' + n = open_anomaly_count None table
     else open_anomaly_count None table' = open_anomaly_count None table + n"
    unfolding t n open_anomaly_count_def by (induction table) auto
  then show ?thesis using each card again by (simp add: t)
qed

definition sample_alert :: "int \<Rightarrow> bool \<Rightarrow> anomaly_row" where
  "sample_alert i ack = \<lparr>an_id = i, an_building_id = ''a'', an_ts = i, an_observed_kw = 9,
     an_expected_kw = 1, an_residual = 8, an_robust_z = 12, an_severity = ''critical'', an_acknowledged = ack\<rparr>"

definition all_of :: "string \<Rightarrow> selector" where
  "all_of b = \<lparr>sel_ids = None, sel_building_id = Some b, sel_before = None, sel_severity = None\<rparr>"

text \<open>
  Reopening what a bulk acknowledgement closed does not give the former state back: with the
  same selector it also opens the alerts that had been closed before, one by one.
\<close>
theorem acknowledgement_not_reversible:
  "\<exists>s table. snd (acknowledge_anomalies s False (snd (acknowledge_anomalies s True table))) \<noteq> table \<and>
     open_anomaly_count None table = 1 \<and>
     open_anomaly_count None (snd (acknowledge_anomalies s False (snd (acknowledge_anomalies s True table)))) = 2"
  by (rule exI [where x = "all_of ''a''"], rule exI [where x = "[sample_alert 1 False, sample_alert 2 True]"])
    (simp add: acknowledge_anomalies_def Let_def all_of_def selected_def sample_alert_def open_anomaly_count_def)

text \<open>
  A series is in time order, holds only rows of the building inside the window, as many as the
  limit allows, and when the limit cuts, the rows it drops are the oldest ones.
\<close>
theorem read_series_newest:
  fixes table b start stop
  defines "hits \<equiv> filter (\<lambda>r. row_building_id r = Some b \<and>
      (case start of None \<Rightarrow> True | Some t \<Rightarrow> t \<le> row_instant r) \<and>
      (case stop of None \<Rightarrow> True | Some t \<Rightarrow> row_instant r < t)) table"
  shows "sorted (map row_instant (read_series b start stop limit table)) \<and>
     length (read_series b start stop limit table) = min limit (length hits) \<and>
     (\<exists>dropped. mset hits = mset dropped + mset (read_series b start stop limit table) \<and>
        (\<forall>d \<in> set dropped. \<forall>r \<in> set (read_series b start stop limit table). row_instant d \<le> row_instant r))"
proof -
  let ?s = "sort_key row_instant hits"
  let ?k = "length ?s - limit"
  have r: "read_series b start stop limit table = drop ?k ?s"
    by (simp add: read_series_def Let_def hits_def take_rev)
  have srt: "sorted (map row_instant ?s)" by simp
  have split: "?s = take ?k ?s @ drop ?k ?s" by simp
  have "sorted (map row_instant (take ?k ?s) @ map row_instant (drop ?k ?s))"
    using srt by (metis split map_append)
  then have "sorted (map row_instant (drop ?k ?s))"
    "\<forall>d \<in> set (take ?k ?s). \<forall>x \<in> set (drop ?k ?s). row_instant d \<le> row_instant x"
    by (auto simp: sorted_append)
  moreover have "mset hits = mset (take ?k ?s) + mset (drop ?k ?s)"
    by (metis split mset_append mset_sort)
  moreover have "length (drop ?k ?s) = min limit (length hits)" by simp
  ultimately show ?thesis unfolding r by blast
qed

end
