(* ===== verification/Service.thy ===== *)
theory Service
  imports Stored
begin

text \<open>
  \<open>src/gemp/services.py\<close>: the fingerprint of the inputs, the optimiser context with its
  candidates, solving and storing a run, and reading a run back. The hash is a function \<open>digest\<close>
  of the JSON payload; the payload is the value that is encoded.

  A request works in a transaction over the tables of runs: rows it has flushed become visible to
  other sessions at its commit. \<open>durable\<close> says whether that commit succeeds.
\<close>

section \<open>The fingerprint of the inputs\<close>

type_synonym building_print = "string \<times> rat \<times> rat \<times> rat \<times> int \<times> string \<times> string"

record payload =
  pl_buildings :: "building_print list"
  pl_catalog :: "intervention list"
  pl_params :: params

text \<open>\<open>model_dump(exclude={"notes", "label"})\<close>: the notes are not part of the record.\<close>

definition building_print :: "building \<Rightarrow> building_print" where
  "building_print b =
     (bld_id b, bld_annual_kwh b, bld_roof_area_m2 b, bld_floor_area_m2 b, bld_hvac_age_yr b,
      bld_insulation_quality b, bld_occupancy_pattern b)"

definition inputs_payload :: "building list \<Rightarrow> intervention list \<Rightarrow> params \<Rightarrow> payload" where
  "inputs_payload buildings catalog p =
     \<lparr>pl_buildings = map building_print buildings,
      pl_catalog = map (\<lambda>iv. iv\<lparr>iv_label := []\<rparr>) catalog, pl_params = p\<rparr>"

definition inputs_hash :: "(payload \<Rightarrow> string) \<Rightarrow> building list \<Rightarrow> intervention list \<Rightarrow> params \<Rightarrow> string" where
  "inputs_hash digest buildings catalog p = digest (inputs_payload buildings catalog p)"

section \<open>The optimiser context\<close>

record context_state =
  cx_buildings :: "building list"
  cx_catalog :: "intervention list"
  cx_params :: params
  cx_candidates :: "candidate list"
  cx_inputs_hash :: string

definition optimizer_context ::
  "(rat \<Rightarrow> string) \<Rightarrow> (payload \<Rightarrow> string) \<Rightarrow> building list \<Rightarrow> intervention list \<Rightarrow> params \<Rightarrow> context_state result" where
  "optimizer_context fr digest buildings catalog p =
     rbind (expand_portfolio fr buildings catalog p None) (\<lambda>candidates.
       Inr \<lparr>cx_buildings = buildings, cx_catalog = catalog, cx_params = p,
            cx_candidates = candidates, cx_inputs_hash = inputs_hash digest buildings catalog p\<rparr>)"

text \<open>The catalogue and the parameters are what their loaders returned.\<close>

definition context_from_db ::
  "(rat \<Rightarrow> string) \<Rightarrow> (payload \<Rightarrow> string) \<Rightarrow> (string \<Rightarrow> 'k::linorder) \<Rightarrow> intervention list result \<Rightarrow>
     params result \<Rightarrow> building_row list \<Rightarrow> context_state result" where
  "context_from_db fr digest collate catalog p table =
     rbind (load_buildings collate table) (\<lambda>buildings. rbind catalog (\<lambda>catalog. rbind p (\<lambda>p.
       optimizer_context fr digest buildings catalog p)))"

definition context_from_fixtures ::
  "(rat \<Rightarrow> string) \<Rightarrow> (payload \<Rightarrow> string) \<Rightarrow> feature list option \<Rightarrow> intervention list result \<Rightarrow>
     params result \<Rightarrow> context_state stored" where
  "context_from_fixtures fr digest file catalog p =
     rbind (load_fixture_buildings file) (\<lambda>buildings.
       (case rbind catalog (\<lambda>catalog. rbind p (\<lambda>p. optimizer_context fr digest buildings catalog p)) of
          Inl e \<Rightarrow> Inl (Raised e)
        | Inr c \<Rightarrow> Inr c))"

section \<open>Stored runs\<close>

text \<open>\<open>solve_ms\<close>, a wall-clock measurement, is left out.\<close>

record run_row =
  rr_id :: string
  rr_created_at :: int
  rr_budget_egp :: rat
  rr_objective :: string
  rr_solver :: string
  rr_status :: string
  rr_max_funded_per_district :: "int option"
  rr_objective_value :: rat
  rr_total_cost_egp :: rat
  rr_total_kwh_saving :: rat
  rr_total_benefit :: rat
  rr_buildings_funded :: nat
  rr_inputs_hash :: string

record allocation_row =
  al_run_id :: string
  al_item :: allocation_item

record run_tables =
  rt_runs :: "run_row list"
  rt_allocations :: "allocation_row list"

definition run_record ::
  "string \<Rightarrow> int \<Rightarrow> rat \<Rightarrow> string \<Rightarrow> string \<Rightarrow> int option \<Rightarrow> string \<Rightarrow> allocation \<Rightarrow> run_row" where
  "run_record i now budget objective solver cap h a =
     \<lparr>rr_id = i, rr_created_at = now, rr_budget_egp = budget, rr_objective = objective,
      rr_solver = solver, rr_status = alloc_status a, rr_max_funded_per_district = cap,
      rr_objective_value = total_benefit_kgco2e a, rr_total_cost_egp = total_cost_egp a,
      rr_total_kwh_saving = total_kwh_saving a, rr_total_benefit = total_benefit_kgco2e a,
      rr_buildings_funded = buildings_funded a, rr_inputs_hash = h\<rparr>"

definition add_run :: "run_row \<Rightarrow> run_tables \<Rightarrow> run_tables stored" where
  "add_run r t =
     (if rr_id r \<in> rr_id ` set (rt_runs t) then Inl Unique_Violation
      else Inr (t\<lparr>rt_runs := rt_runs t @ [r]\<rparr>))"

definition add_allocations :: "allocation_row list \<Rightarrow> run_tables \<Rightarrow> run_tables stored" where
  "add_allocations rows t =
     (if list_ex (\<lambda>r. al_run_id r \<notin> rr_id ` set (rt_runs t)) rows then Inl Foreign_Key_Violation
      else Inr (t\<lparr>rt_allocations := rt_allocations t @ rows\<rparr>))"

text \<open>
  The tables another session sees before and after: an error on the way, or a failed commit,
  leaves them as they were.
\<close>

definition persist_run ::
  "bool \<Rightarrow> run_row \<Rightarrow> allocation_item list \<Rightarrow> run_tables \<Rightarrow> run_tables stored" where
  "persist_run durable r items t =
     rbind (add_run r t) (\<lambda>t1.
     rbind (add_allocations (map (\<lambda>i. \<lparr>al_run_id = rr_id r, al_item = i\<rparr>) items) t1) (\<lambda>t2.
       if durable then Inr t2 else Inl Commit_Failed))"

record run_request =
  rq_budget_egp :: pyfloat
  rq_objective :: string
  rq_solver :: string
  rq_max_funded_per_district :: "int option"
  rq_persist :: bool

text \<open>\<open>solve\<close> has refused every budget that is not finite.\<close>

definition finite_part :: "pyfloat \<Rightarrow> rat" where
  "finite_part x = (case x of Fin b \<Rightarrow> b | _ \<Rightarrow> 0)"

definition run_optimization ::
  "cp_solver \<Rightarrow> context_state \<Rightarrow> run_request \<Rightarrow> string \<Rightarrow> int \<Rightarrow> bool \<Rightarrow> run_tables
     \<Rightarrow> (string \<times> allocation) stored \<times> run_tables" where
  "run_optimization cpsat cx rq uuid now durable t =
     (let cap = (case rq_max_funded_per_district rq of
                   None \<Rightarrow> par_max_funded_per_district (cx_params cx) | Some k \<Rightarrow> Some k)
      in case solve cpsat (cx_candidates cx) (cx_buildings cx) (rq_budget_egp rq) (rq_solver rq)
                (rq_objective rq) cap True of
           Inl e \<Rightarrow> (Inl (Raised e), t)
         | Inr a \<Rightarrow>
             if rq_persist rq
             then (case persist_run durable
                          (run_record uuid now (finite_part (rq_budget_egp rq)) (rq_objective rq) (rq_solver rq) cap
                             (cx_inputs_hash cx) a) (alloc_items a) t of
                     Inl e \<Rightarrow> (Inl e, t)
                   | Inr t' \<Rightarrow> (Inr (uuid, a), t'))
             else (Inr (uuid, a), t))"

text \<open>The order of a query without \<open>ORDER BY\<close> is the parameter \<open>heap_order\<close>.\<close>

definition get_run ::
  "(allocation_row list \<Rightarrow> allocation_row list) \<Rightarrow> string \<Rightarrow> run_tables
     \<Rightarrow> (run_row \<times> allocation_item list) result" where
  "get_run heap_order i t =
     (case find (\<lambda>r. rr_id r = i) (rt_runs t) of
        None \<Rightarrow> Inl (KeyError ''run'')
      | Some r \<Rightarrow> Inr (r, map al_item (heap_order (filter (\<lambda>a. al_run_id a = i) (rt_allocations t)))))"


section \<open>Lemmas\<close>

text \<open>Run ids are unique, and every allocation row refers to a run.\<close>

definition runs_wf :: "run_tables \<Rightarrow> bool" where
  "runs_wf t \<longleftrightarrow> distinct (map rr_id (rt_runs t)) \<and>
     (\<forall>a \<in> set (rt_allocations t). al_run_id a \<in> rr_id ` set (rt_runs t))"

lemma persist_run_Inr:
  assumes "persist_run durable r items t = Inr t'"
  shows "t' = \<lparr>rt_runs = rt_runs t @ [r],
           rt_allocations = rt_allocations t @ map (\<lambda>i. \<lparr>al_run_id = rr_id r, al_item = i\<rparr>) items\<rparr>"
    and "rr_id r \<notin> rr_id ` set (rt_runs t)"
  using assms
  by (auto simp: persist_run_def add_run_def add_allocations_def result_simps split: if_splits)

lemma run_optimization_Inr:
  assumes "run_optimization cpsat cx rq uuid now durable t = (Inr (i, a), t')"
  shows "i = uuid"
    and "rq_persist rq \<Longrightarrow> \<exists>cap. persist_run durable (run_record uuid now (finite_part (rq_budget_egp rq))
           (rq_objective rq) (rq_solver rq) cap (cx_inputs_hash cx) a) (alloc_items a) t = Inr t'"
  using assms by (auto simp: run_optimization_def Let_def split: sum.splits if_splits)

lemma run_optimization_Inl:
  "run_optimization cpsat cx rq uuid now durable t = (Inl e, t') \<Longrightarrow> t' = t"
  by (auto simp: run_optimization_def Let_def split: sum.splits if_splits)

lemma run_record_sel [simp]:
  "rr_id (run_record i now b ob s cap h a) = i"
  "rr_total_cost_egp (run_record i now b ob s cap h a) = total_cost_egp a"
  "rr_total_benefit (run_record i now b ob s cap h a) = total_benefit_kgco2e a"
  "rr_buildings_funded (run_record i now b ob s cap h a) = buildings_funded a"
  "rr_inputs_hash (run_record i now b ob s cap h a) = h"
  by (simp_all add: run_record_def)

lemma get_run_other:
  assumes "persist_run durable r items t = Inr t'" and "j \<noteq> rr_id r"
  shows "get_run heap_order j t' = get_run heap_order j t"
proof -
  have "find (\<lambda>x. rr_id x = j) (xs @ [r]) = find (\<lambda>x. rr_id x = j) xs" for xs
    using assms(2) by (induction xs) auto
  moreover have "filter (\<lambda>x. al_run_id x = j) (map (\<lambda>i. \<lparr>al_run_id = rr_id r, al_item = i\<rparr>) items) = []"
    using assms(2) by (auto simp: filter_empty_conv)
  ultimately show ?thesis using persist_run_Inr(1) [OF assms(1)]
    by (simp add: get_run_def split: option.split)
qed

lemma get_run_new:
  assumes "persist_run durable r items t = Inr t'" and "runs_wf t"
  shows "get_run heap_order (rr_id r) t' =
    Inr (r, map al_item (heap_order (map (\<lambda>i. \<lparr>al_run_id = rr_id r, al_item = i\<rparr>) items)))"
    and "runs_wf t'"
proof -
  note p = persist_run_Inr [OF assms(1)]
  have "find (\<lambda>x. rr_id x = rr_id r) (xs @ [r]) = Some r" if "rr_id r \<notin> rr_id ` set xs" for xs
    using that by (induction xs) auto
  then have "find (\<lambda>x. rr_id x = rr_id r) (rt_runs t') = Some r" using p by simp
  moreover have "filter (\<lambda>a. al_run_id a = rr_id r) (rt_allocations t) = []"
    using assms(2) p(2) unfolding runs_wf_def filter_empty_conv by metis
  moreover have "filter (\<lambda>a. al_run_id a = rr_id r) (map (\<lambda>i. \<lparr>al_run_id = rr_id r, al_item = i\<rparr>) items) =
      map (\<lambda>i. \<lparr>al_run_id = rr_id r, al_item = i\<rparr>) items"
    by (rule filter_True) auto
  ultimately show "get_run heap_order (rr_id r) t' =
      Inr (r, map al_item (heap_order (map (\<lambda>i. \<lparr>al_run_id = rr_id r, al_item = i\<rparr>) items)))"
    using p(1) by (simp add: get_run_def)
  show "runs_wf t'" using assms(2) p by (auto simp: runs_wf_def)
qed

lemma run_totals:
  "mset items = mset (alloc_items a) \<Longrightarrow>
     sum_list (map item_cost_egp items) = total_cost_egp a \<and>
     sum_list (map item_lifetime_benefit items) = total_benefit_kgco2e a \<and>
     card (set (map item_building_id items)) = buildings_funded a"
proof -
  assume m: "mset items = mset (alloc_items a)"
  have "sum_list (map f items) = sum_list (map f (alloc_items a))" for f :: "allocation_item \<Rightarrow> rat"
    using m by (metis mset_map sum_mset_sum_list)
  moreover have "set items = set (alloc_items a)" using m by (metis set_mset_mset)
  ultimately show ?thesis
    by (simp add: total_cost_egp_def total_benefit_kgco2e_def buildings_funded_def length_remdups_card_conv)
qed

lemma stored_run_reads_back:
  assumes "run_optimization cpsat cx rq uuid now durable t = (Inr (i, a), t')" and "rq_persist rq"
    and "runs_wf t" and "\<And>xs. mset (heap_order xs) = mset xs"
  shows "\<exists>r items. get_run heap_order i t' = Inr (r, items) \<and> mset items = mset (alloc_items a) \<and>
            rr_inputs_hash r = cx_inputs_hash cx \<and>
            rr_total_cost_egp r = sum_list (map item_cost_egp items) \<and>
            rr_total_benefit r = sum_list (map item_lifetime_benefit items) \<and>
            rr_buildings_funded r = card (set (map item_building_id items))"
    and "durable" and "runs_wf t'" and "j \<noteq> i \<Longrightarrow> get_run heap_order j t' = get_run heap_order j t"
proof -
  note run = run_optimization_Inr [OF assms(1)]
  obtain cap where p: "persist_run durable (run_record uuid now (finite_part (rq_budget_egp rq))
      (rq_objective rq) (rq_solver rq) cap (cx_inputs_hash cx) a) (alloc_items a) t = Inr t'"
    using run(2) [OF assms(2)] by blast
  let ?rows = "map (\<lambda>x. \<lparr>al_run_id = uuid, al_item = x\<rparr>) (alloc_items a)"
  obtain items where items: "items = map al_item (heap_order ?rows)" by simp
  have "mset items = mset (map al_item ?rows)" by (simp only: items mset_map assms(4))
  then have m: "mset items = mset (alloc_items a)" by (simp add: comp_def)
  show durable using p by (auto simp: persist_run_def result_simps split: if_splits)
  have "get_run heap_order i t' = Inr (run_record uuid now (finite_part (rq_budget_egp rq))
      (rq_objective rq) (rq_solver rq) cap (cx_inputs_hash cx) a, items)"
    using get_run_new(1) [OF p assms(3), of heap_order] by (simp add: items run(1))
  then show "\<exists>r items. get_run heap_order i t' = Inr (r, items) \<and> mset items = mset (alloc_items a) \<and>
            rr_inputs_hash r = cx_inputs_hash cx \<and>
            rr_total_cost_egp r = sum_list (map item_cost_egp items) \<and>
            rr_total_benefit r = sum_list (map item_lifetime_benefit items) \<and>
            rr_buildings_funded r = card (set (map item_building_id items))"
    using run_totals [OF m] m by simp
  show "runs_wf t'" by (rule get_run_new(2) [OF p assms(3)])
  show "j \<noteq> i \<Longrightarrow> get_run heap_order j t' = get_run heap_order j t"
    using get_run_other [OF p] run(1) by simp
qed

section \<open>Properties\<close>

text \<open>
  An id that leaves \<open>run_optimization\<close> names a run that every other session can read: it has
  the fingerprint of the inputs and exactly the items of the allocation, and its stored totals are
  the sums over those items. No other run changes, an error leaves the tables as they were, and
  the tables stay well formed. A query without an order returns the rows in some order.
\<close>
theorem run_durable:
  assumes "run_optimization cpsat cx rq uuid now durable t = (outcome, t')" and "rq_persist rq"
    and "runs_wf t" and "\<And>xs. mset (heap_order xs) = mset xs"
  shows "runs_wf t' \<and>
    (case outcome of
       Inl e \<Rightarrow> t' = t
     | Inr (i, a) \<Rightarrow> durable \<and>
         (\<exists>r items. get_run heap_order i t' = Inr (r, items) \<and> mset items = mset (alloc_items a) \<and>
            rr_inputs_hash r = cx_inputs_hash cx \<and>
            rr_total_cost_egp r = sum_list (map item_cost_egp items) \<and>
            rr_total_benefit r = sum_list (map item_lifetime_benefit items) \<and>
            rr_buildings_funded r = card (set (map item_building_id items))) \<and>
         (\<forall>j. j \<noteq> i \<longrightarrow> get_run heap_order j t' = get_run heap_order j t))"
proof (cases outcome)
  case (Inl e)
  then show ?thesis using assms(1,3) by (auto dest: run_optimization_Inl)
next
  case (Inr ia)
  obtain i a where ia: "ia = (i, a)" by (cases ia)
  show ?thesis using stored_run_reads_back [OF assms(1) [unfolded Inr ia] assms(2-4)] by (simp add: Inr ia)
qed

definition sample_context :: context_state where
  "sample_context = \<lparr>cx_buildings = sample_buildings, cx_catalog = [], cx_params = shipped_params,
     cx_candidates = sample_candidates, cx_inputs_hash = ''h''\<rparr>"

definition sample_request :: run_request where
  "sample_request = \<lparr>rq_budget_egp = Fin 40, rq_objective = ''lca_carbon'', rq_solver = ''cpsat'',
     rq_max_funded_per_district = Some 5, rq_persist = True\<rparr>"

definition no_runs :: run_tables where
  "no_runs = \<lparr>rt_runs = [], rt_allocations = []\<rparr>"

lemma sample_request_run:
  "\<exists>t. run_optimization exhaustive_search sample_context sample_request ''u1'' 5 True no_runs =
     (Inr (''u1'', sample_run), t)"
proof -
  have "solve exhaustive_search sample_candidates sample_buildings (Fin 40) ''cpsat'' ''lca_carbon'' (Some 5)
      True = Inr sample_run" by code_simp
  then show ?thesis
    by (simp add: run_optimization_def sample_context_def sample_request_def no_runs_def persist_run_def
        add_run_def add_allocations_def list_ex_iff)
qed

theorem run_durable_witness:
  "\<exists>t r items. run_optimization exhaustive_search sample_context sample_request ''u1'' 5 True no_runs =
       (Inr (''u1'', sample_run), t) \<and>
     get_run rev ''u1'' t = Inr (r, items) \<and> mset items = mset (alloc_items sample_run)"
proof -
  obtain t where t: "run_optimization exhaustive_search sample_context sample_request ''u1'' 5 True no_runs =
     (Inr (''u1'', sample_run), t)" using sample_request_run by blast
  have "runs_wf no_runs" by (simp add: no_runs_def runs_wf_def)
  from run_durable [OF t _ this, of rev] show ?thesis using t by (auto simp: sample_request_def)
qed

text \<open>
  The two sources of a portfolio lead to the same optimiser: a context from a database that has
  just imported the fixture has the buildings of the context from the fixture, sorted by code, and
  the same candidates up to their order. The fixture's ids and codes are distinct and it carries no
  load shapes.
\<close>
theorem contexts_agree:
  assumes "import_portfolio dialect now (Some fs) None overwrite [] = Inr (n, table)"
    and "distinct (map (bld_id \<circ> ft_properties) fs)" and "distinct (map (bld_code \<circ> ft_properties) fs)"
    and "\<forall>f \<in> set fs. bld_hourly_shape (ft_properties f) = FLAT_SHAPE"
    and "context_from_fixtures fr digest (Some fs) catalog p = Inr cx"
  shows "\<exists>cx'. context_from_db fr digest collate catalog p table = Inr cx' \<and>
     cx_buildings cx' = sort_key (\<lambda>b. collate (bld_code b)) (cx_buildings cx) \<and>
     mset (cx_candidates cx') = mset (cx_candidates cx) \<and>
     cx_catalog cx' = cx_catalog cx \<and> cx_params cx' = cx_params cx"
proof -
  obtain bs cat q where bs: "load_fixture_buildings (Some fs) = Inr bs"
    and cat: "catalog = Inr cat" "p = Inr q"
    and cx: "optimizer_context fr digest bs cat q = Inr cx"
    using assms(5) unfolding context_from_fixtures_def
    by (cases "load_fixture_buildings (Some fs)"; cases catalog; cases p) (auto split: sum.splits)
  let ?bs = "sort_key (\<lambda>b. collate (bld_code b)) bs"
  have db: "load_buildings collate table = Inr ?bs"
    using import_load [OF assms(1) bs assms(2-4)] by blast
  from cx obtain css where css: "rmapM (\<lambda>b. expand_building fr b cat q None) bs = Inr css"
    and cands: "cx_candidates cx = concat css" and b: "cx_buildings cx = bs"
    and rest': "cx_catalog cx = cat" "cx_params cx = q"
    by (auto simp: optimizer_context_def expand_portfolio_def result_simps)
  obtain g where g: "\<And>b. b \<in> set bs \<Longrightarrow> expand_building fr b cat q None = Inr (g b)" "css = map g bs"
    using rmapM_choice [OF css] by blast
  have "rmapM (\<lambda>b. expand_building fr b cat q None) ?bs = Inr (map g ?bs)"
    by (rule rmapM_all_Inr) (simp add: g(1))
  moreover have "mset (concat (map g ?bs)) = mset (concat css)"
  proof -
    have "mset (map (mset \<circ> g) ?bs) = mset (map (mset \<circ> g) bs)" by simp
    then have "sum_list (map (mset \<circ> g) ?bs) = sum_list (map (mset \<circ> g) bs)"
      by (metis sum_mset_sum_list)
    then show ?thesis by (simp add: mset_concat g(2))
  qed
  ultimately show ?thesis
    by (simp add: context_from_db_def db cat optimizer_context_def expand_portfolio_def cands b rest')
qed


definition school_features :: "feature list" where
  "school_features = [\<lparr>ft_properties = sample_school, ft_geometry = ''{}''\<rparr>]"

theorem contexts_agree_witness:
  "\<exists>table cx cx'.
     import_portfolio ''sqlite'' 7 (Some school_features) None True [] = Inr (1, table) \<and>
     context_from_fixtures (\<lambda>_. []) (\<lambda>_. ''h'') (Some school_features) (Inr shipped_catalog)
       (Inr shipped_params) = Inr cx \<and>
     context_from_db (\<lambda>_. []) (\<lambda>_. ''h'') length (Inr shipped_catalog) (Inr shipped_params) table = Inr cx' \<and>
     mset (cx_candidates cx') = mset (cx_candidates cx)"
proof -
  obtain table where t: "import_portfolio ''sqlite'' 7 (Some school_features) None True [] = Inr (1, table)"
    by (simp add: import_portfolio_def school_features_def update_building_def load_geojson_def Let_def)
  obtain cs where "expand_building (\<lambda>_. []) sample_school shipped_catalog shipped_params None = Inr cs"
    using sample_expansion by blast
  then obtain cx where cx: "context_from_fixtures (\<lambda>_. []) (\<lambda>_. ''h'') (Some school_features)
      (Inr shipped_catalog) (Inr shipped_params) = Inr cx"
    by (simp add: context_from_fixtures_def load_fixture_buildings_def school_features_def
        sample_school_valid optimizer_context_def expand_portfolio_def)
  show ?thesis
    using contexts_agree [OF t _ _ _ cx, of length] t cx
    by (simp add: school_features_def sample_school_def) blast
qed

text \<open>
  The fingerprint covers seven fields of a building. Portfolios that differ in nothing but the
  others have one fingerprint, whatever the hash.
\<close>
lemma fingerprint_fields:
  assumes "list_all2 (\<lambda>b b'. bld_id b = bld_id b' \<and> bld_annual_kwh b = bld_annual_kwh b' \<and>
      bld_roof_area_m2 b = bld_roof_area_m2 b' \<and> bld_floor_area_m2 b = bld_floor_area_m2 b' \<and>
      bld_hvac_age_yr b = bld_hvac_age_yr b' \<and> bld_insulation_quality b = bld_insulation_quality b' \<and>
      bld_occupancy_pattern b = bld_occupancy_pattern b') bs bs'"
  shows "inputs_hash digest bs catalog p = inputs_hash digest bs' catalog p"
proof -
  from assms have "map building_print bs = map building_print bs'"
    by (induction rule: list_all2_induct) (auto simp: building_print_def)
  then show ?thesis by (simp add: inputs_hash_def inputs_payload_def)
qed

definition corrected_school :: building where
  "corrected_school = sample_school\<lparr>bld_glazing_area_m2 := 600\<rparr>"

definition single_offer :: "building \<Rightarrow> rat \<Rightarrow> bool" where
  "single_offer b cost =
     (case expand_portfolio (\<lambda>_. []) [b] [glazing_upgrade] shipped_params None of
        Inr [c] \<Rightarrow> cand_cost_egp c = cost \<and> cand_key c = ''b-1|glazing_upgrade_v1'' \<and>
          cand_building_id c = ''b-1''
      | _ \<Rightarrow> False)"

lemma single_offers: "single_offer sample_school 960000" "single_offer corrected_school 1440000"
  by code_simp+

lemma single_offerE:
  assumes "single_offer b cost"
  obtains c where "expand_portfolio (\<lambda>_. []) [b] [glazing_upgrade] shipped_params None = Inr [c]"
    and "cand_cost_egp c = cost" and "cand_key c = ''b-1|glazing_upgrade_v1''"
    and "cand_building_id c = ''b-1''"
  using assms by (auto simp: single_offer_def split: sum.splits list.splits)

text \<open>
  Correcting the glazing area of a building changes what its glazing retrofit costs and not
  the fingerprint, whatever the hash: stored after the correction, the candidate set keeps the row
  with the old cost, and the stored count for the fingerprint agrees as if nothing were stale.
\<close>
theorem stale_candidates_kept:
  "inputs_hash digest [sample_school] [glazing_upgrade] shipped_params =
     inputs_hash digest [corrected_school] [glazing_upgrade] shipped_params \<and>
   (\<exists>c c'. expand_portfolio (\<lambda>_. []) [sample_school] [glazing_upgrade] shipped_params None = Inr [c] \<and>
      expand_portfolio (\<lambda>_. []) [corrected_school] [glazing_upgrade] shipped_params None = Inr [c'] \<and>
      cand_cost_egp c = 960000 \<and> cand_cost_egp c' = 1440000 \<and>
      (\<exists>first second. materialize_candidates ''sqlite'' 1 [''b-1''] [c] h [] = Inr (1, first) \<and>
         materialize_candidates ''sqlite'' 2 [''b-1''] [c'] h first = Inr (1, second) \<and>
         map cr_cost_egp second = [960000]))"
proof -
  obtain c where c: "expand_portfolio (\<lambda>_. []) [sample_school] [glazing_upgrade] shipped_params None = Inr [c]"
    "cand_cost_egp c = 960000" "cand_key c = ''b-1|glazing_upgrade_v1''" "cand_building_id c = ''b-1''"
    using single_offers(1) by (rule single_offerE)
  obtain c' where c': "expand_portfolio (\<lambda>_. []) [corrected_school] [glazing_upgrade] shipped_params None = Inr [c']"
    "cand_cost_egp c' = 1440000" "cand_key c' = ''b-1|glazing_upgrade_v1''" "cand_building_id c' = ''b-1''"
    using single_offers(2) by (rule single_offerE)
  have "inputs_hash digest [sample_school] [glazing_upgrade] shipped_params =
      inputs_hash digest [corrected_school] [glazing_upgrade] shipped_params"
    by (rule fingerprint_fields) (simp add: corrected_school_def)
  moreover have "materialize_candidates ''sqlite'' 1 [''b-1''] [c] h [] = Inr (1, [candidate_record 1 h c])"
    using c(4) by (simp add: materialize_candidates_def Let_def candidate_record_def)
  moreover have "materialize_candidates ''sqlite'' 2 [''b-1''] [c'] h [candidate_record 1 h c] =
      Inr (1, [candidate_record 1 h c])"
    using c(3) c'(3) by (simp add: materialize_candidates_def Let_def candidate_record_def candidate_clash_def)
  ultimately show ?thesis using c c' by (auto simp: candidate_record_def)
qed

end
