(* ===== verification/ContextCache.thy ===== *)
theory ContextCache
  imports Service
begin

text \<open>
  The cached optimiser context of \<open>src/gemp/api/main.py\<close> (\<open>get_context\<close>, \<open>reset_context\<close>,
  \<open>recompute_candidates\<close>) and the nightly refit of \<open>src/gemp/scheduler.py\<close> that clears it.
  Requests and the scheduler run in threads; what runs under \<open>_context_lock\<close> is one step, what
  runs outside it is a step of its own. The inputs change between steps: a file of \<open>data/\<close> is
  edited, or a job in another process writes to the building table.
\<close>

section \<open>The state\<close>

record inputs =
  in_buildings :: "building_row list"
  in_catalog :: "intervention list result"
  in_params :: "params result"

definition build_context ::
  "(rat \<Rightarrow> string) \<Rightarrow> (payload \<Rightarrow> string) \<Rightarrow> (string \<Rightarrow> 'k::linorder) \<Rightarrow> inputs \<Rightarrow> context_state result" where
  "build_context fr digest collate i =
     context_from_db fr digest collate (in_catalog i) (in_params i) (in_buildings i)"

text \<open>
  The program points: a request that asks for the context, one that found none and waits for the
  lock, one that has its context; a recompute that waits for the lock, one that has stored its
  context in the cache and is about to write the candidates; a refit that has written its
  figures, and one that has written the candidates and is about to clear the cache.
\<close>

datatype web_point =
    Asking
  | Waiting
  | Holding context_state
  | Recomputing
  | Materialising context_state
  | Refitted
  | Clearing
  | Finished
  | Failed store_error

record web =
  wb_inputs :: inputs
  wb_context :: "context_state option"
  wb_candidates :: "candidate_row list"
  wb_threads :: "(nat \<times> web_point) list"
  wb_builds :: nat
  wb_renewals :: nat

definition start_web :: "inputs \<Rightarrow> web" where
  "start_web i = \<lparr>wb_inputs = i, wb_context = None, wb_candidates = [], wb_threads = [],
     wb_builds = 0, wb_renewals = 0\<rparr>"

definition at_point :: "nat \<Rightarrow> web_point \<Rightarrow> web \<Rightarrow> web" where
  "at_point t pt w = w\<lparr>wb_threads := AList.update t pt (wb_threads w)\<rparr>"

section \<open>The operations\<close>

text \<open>\<open>get_context\<close>: the read without the lock, and the section under it with its second read.\<close>

definition get_context_fast :: "nat \<Rightarrow> web \<Rightarrow> web" where
  "get_context_fast t w =
     (case wb_context w of
        Some c \<Rightarrow> at_point t (Holding c) w
      | None \<Rightarrow> at_point t Waiting w)"

definition get_context_locked :: "(inputs \<Rightarrow> context_state result) \<Rightarrow> nat \<Rightarrow> web \<Rightarrow> web" where
  "get_context_locked build t w =
     (case wb_context w of
        Some c \<Rightarrow> at_point t (Holding c) w
      | None \<Rightarrow>
          (case build (wb_inputs w) of
             Inl e \<Rightarrow> at_point t (Failed (Raised e)) w
           | Inr c \<Rightarrow> at_point t (Holding c) (w\<lparr>wb_context := Some c, wb_builds := wb_builds w + 1\<rparr>)))"

definition reset_context :: "web \<Rightarrow> web" where
  "reset_context w = w\<lparr>wb_context := None, wb_renewals := wb_renewals w + 1\<rparr>"

definition recompute_locked :: "(inputs \<Rightarrow> context_state result) \<Rightarrow> nat \<Rightarrow> web \<Rightarrow> web" where
  "recompute_locked build t w =
     (case build (wb_inputs w) of
        Inl e \<Rightarrow> at_point t (Failed (Raised e)) w
      | Inr c \<Rightarrow> at_point t (Materialising c)
          (w\<lparr>wb_context := Some c, wb_builds := wb_builds w + 1, wb_renewals := wb_renewals w + 1\<rparr>))"

definition store_context :: "string \<Rightarrow> int \<Rightarrow> nat \<Rightarrow> web_point \<Rightarrow> context_state \<Rightarrow> web \<Rightarrow> web" where
  "store_context dialect now t next_point c w =
     (case materialize_candidates dialect now (map br_id (in_buildings (wb_inputs w)))
             (cx_candidates c) (cx_inputs_hash c) (wb_candidates w) of
        Inl e \<Rightarrow> at_point t (Failed e) w
      | Inr (n, table) \<Rightarrow> at_point t next_point (w\<lparr>wb_candidates := table\<rparr>))"

text \<open>The second part of \<open>nightly_refit\<close>: its own context, the candidates, then the reset.\<close>

definition refit_store ::
  "(inputs \<Rightarrow> context_state result) \<Rightarrow> string \<Rightarrow> int \<Rightarrow> nat \<Rightarrow> web \<Rightarrow> web" where
  "refit_store build dialect now t w =
     (case build (wb_inputs w) of
        Inl e \<Rightarrow> at_point t (Failed (Raised e)) w
      | Inr c \<Rightarrow> store_context dialect now t Clearing c w)"

definition refit_clear :: "nat \<Rightarrow> web \<Rightarrow> web" where
  "refit_clear t w = at_point t Finished (reset_context w)"

text \<open>A recompute on its own, as an administrator sees it.\<close>

definition recompute_candidates ::
  "(inputs \<Rightarrow> context_state result) \<Rightarrow> string \<Rightarrow> int \<Rightarrow> nat \<Rightarrow> web \<Rightarrow> web" where
  "recompute_candidates build dialect now t w =
     (let w1 = recompute_locked build t w
      in case map_of (wb_threads w1) t of
           Some (Materialising c) \<Rightarrow> store_context dialect now t Finished c w1
         | _ \<Rightarrow> w1)"

section \<open>Interleavings\<close>

datatype web_action = Input_Change | Request | Recompute | Refit

inductive web_step ::
  "(inputs \<Rightarrow> context_state result) \<Rightarrow> string \<Rightarrow> web_action \<Rightarrow> web \<Rightarrow> web \<Rightarrow> bool"
  for build :: "inputs \<Rightarrow> context_state result" and dialect :: string where
  change: "web_step build dialect Input_Change w (w\<lparr>wb_inputs := i\<rparr>)"
| ask: "t \<notin> fst ` set (wb_threads w) \<Longrightarrow> web_step build dialect Request w (at_point t Asking w)"
| fast: "map_of (wb_threads w) t = Some Asking \<Longrightarrow> web_step build dialect Request w (get_context_fast t w)"
| locked: "map_of (wb_threads w) t = Some Waiting \<Longrightarrow>
    web_step build dialect Request w (get_context_locked build t w)"
| order: "t \<notin> fst ` set (wb_threads w) \<Longrightarrow> web_step build dialect Recompute w (at_point t Recomputing w)"
| rebuild: "map_of (wb_threads w) t = Some Recomputing \<Longrightarrow>
    web_step build dialect Recompute w (recompute_locked build t w)"
| store: "map_of (wb_threads w) t = Some (Materialising c) \<Longrightarrow>
    web_step build dialect Recompute w (store_context dialect now t Finished c w)"
| refitted: "t \<notin> fst ` set (wb_threads w) \<Longrightarrow>
    web_step build dialect Refit w (at_point t Refitted (w\<lparr>wb_inputs := i\<rparr>))"
| restore: "map_of (wb_threads w) t = Some Refitted \<Longrightarrow>
    web_step build dialect Refit w (refit_store build dialect now t w)"
| clear: "map_of (wb_threads w) t = Some Clearing \<Longrightarrow>
    web_step build dialect Refit w (refit_clear t w)"

inductive web_runs ::
  "(inputs \<Rightarrow> context_state result) \<Rightarrow> string \<Rightarrow> web_action set \<Rightarrow> web \<Rightarrow> web \<Rightarrow> bool"
  for build :: "inputs \<Rightarrow> context_state result" and dialect :: string and acts :: "web_action set" and w0 :: web where
  none: "web_runs build dialect acts w0 w0"
| more: "web_runs build dialect acts w0 w \<Longrightarrow> a \<in> acts \<Longrightarrow> web_step build dialect a w w' \<Longrightarrow>
    web_runs build dialect acts w0 w'"

inductive_cases web_stepE: "web_step build dialect a w w'"

lemma at_point_sel [simp]:
  "wb_inputs (at_point t pt w) = wb_inputs w" "wb_context (at_point t pt w) = wb_context w"
  "wb_candidates (at_point t pt w) = wb_candidates w" "wb_builds (at_point t pt w) = wb_builds w"
  "wb_renewals (at_point t pt w) = wb_renewals w"
  "map_of (wb_threads (at_point t pt w)) = (map_of (wb_threads w))(t \<mapsto> pt)"
  by (simp_all add: at_point_def dict_simps)

lemmas web_ops = get_context_fast_def get_context_locked_def reset_context_def recompute_locked_def
  store_context_def refit_store_def refit_clear_def


section \<open>Lemmas\<close>

lemma web_ops_case:
  "get_context_fast t w = w' \<Longrightarrow> wb_inputs w' = wb_inputs w \<and> wb_context w' = wb_context w \<and>
     wb_builds w' = wb_builds w \<and> wb_renewals w' = wb_renewals w"
  "store_context dialect now t pt c w = w' \<Longrightarrow> wb_inputs w' = wb_inputs w \<and> wb_context w' = wb_context w \<and>
     wb_builds w' = wb_builds w \<and> wb_renewals w' = wb_renewals w"
  "refit_store build dialect now t w = w' \<Longrightarrow> wb_inputs w' = wb_inputs w \<and> wb_context w' = wb_context w \<and>
     wb_builds w' = wb_builds w \<and> wb_renewals w' = wb_renewals w"
  by (auto simp: web_ops split: option.splits sum.splits prod.splits)

text \<open>Every build under the lock is paid for: by a renewal, or by being the one that is cached.\<close>

definition builds_paid :: "web \<Rightarrow> bool" where
  "builds_paid w \<longleftrightarrow> wb_builds w \<le> wb_renewals w + (if wb_context w = None then 0 else 1)"

lemma builds_paid_step:
  assumes "web_step build dialect a w w'" and "builds_paid w"
  shows "builds_paid w'"
  using assms
  by (cases rule: web_step.cases)
    (auto simp: builds_paid_def get_context_locked_def recompute_locked_def refit_clear_def
       reset_context_def web_ops_case [OF refl] split: option.splits sum.splits if_splits)

lemma builds_paid_runs:
  "web_runs build dialect acts w w' \<Longrightarrow> builds_paid w \<Longrightarrow> builds_paid w'"
  by (induction rule: web_runs.induct) (auto intro: builds_paid_step)

text \<open>The cached context is the one the inputs give, as long as nothing changes them.\<close>

definition current_context :: "(inputs \<Rightarrow> context_state result) \<Rightarrow> web \<Rightarrow> bool" where
  "current_context build w \<longleftrightarrow> (\<forall>c. wb_context w = Some c \<longrightarrow> build (wb_inputs w) = Inr c)"

lemma current_step:
  assumes "web_step build dialect a w w'" and "a \<in> {Request, Recompute}" and "current_context build w"
  shows "wb_inputs w' = wb_inputs w \<and> current_context build w' \<and>
    (\<forall>t c. map_of (wb_threads w') t = Some (Holding c) \<longrightarrow>
       map_of (wb_threads w) t = Some (Holding c) \<or> build (wb_inputs w) = Inr c)"
  using assms
  by (cases rule: web_step.cases)
    (auto simp: current_context_def web_ops split: option.splits sum.splits prod.splits if_splits)

lemma current_runs:
  "web_runs build dialect {Request, Recompute} w w' \<Longrightarrow> current_context build w \<Longrightarrow>
     wb_inputs w' = wb_inputs w \<and> current_context build w' \<and>
     (\<forall>t c. map_of (wb_threads w') t = Some (Holding c) \<longrightarrow>
       map_of (wb_threads w) t = Some (Holding c) \<or> build (wb_inputs w) = Inr c)"
proof (induction rule: web_runs.induct)
  case (more w' a w'')
  then have IH: "wb_inputs w' = wb_inputs w" "current_context build w'"
    "\<forall>t c. map_of (wb_threads w') t = Some (Holding c) \<longrightarrow>
       map_of (wb_threads w) t = Some (Holding c) \<or> build (wb_inputs w) = Inr c" by blast+
  from current_step [OF more.hyps(3,2) IH(2)] IH show ?case by metis
qed simp

lemma cached_step:
  assumes "web_step build dialect a w w'" and "a \<in> {Input_Change, Request}" and "wb_context w = Some c"
  shows "wb_context w' = Some c \<and> wb_builds w' = wb_builds w \<and>
    (\<forall>t c'. map_of (wb_threads w') t = Some (Holding c') \<longrightarrow>
       map_of (wb_threads w) t = Some (Holding c') \<or> c' = c)"
  using assms
  by (cases rule: web_step.cases) (auto simp: web_ops split: option.splits sum.splits if_splits)

section \<open>Properties\<close>

text \<open>
  However requests, recomputes and refits interleave, a candidate set is built under the lock
  at most once more than the cache was renewed: requests that arrive together at a cold process
  build it once between them.
\<close>
theorem context_built_once:
  assumes "web_runs build dialect acts (start_web i) w"
  shows "wb_builds w \<le> wb_renewals w + 1"
  using builds_paid_runs [OF assms] by (simp add: builds_paid_def start_web_def split: if_splits)

text \<open>
  Once a context is cached, no change of the catalogue, the parameters or the stored buildings
  reaches a request: while only requests and changes happen - a refit started as a job writes from
  another process, which is such a change - every answer is the context from before.
\<close>
theorem cache_outlives_changes:
  assumes "web_runs build dialect {Input_Change, Request} w w'" and "wb_context w = Some c"
  shows "wb_context w' = Some c \<and>
    (\<forall>t c'. map_of (wb_threads w) t = None \<longrightarrow> map_of (wb_threads w') t = Some (Holding c') \<longrightarrow> c' = c)"
proof -
  from assms have "wb_context w' = Some c \<and>
    (\<forall>t c'. map_of (wb_threads w') t = Some (Holding c') \<longrightarrow>
       map_of (wb_threads w) t = Some (Holding c') \<or> c' = c)"
  proof (induction rule: web_runs.induct)
    case (more w' a w'')
    from cached_step [OF more.hyps(3,2)] more.IH more.prems show ?case by metis
  qed simp
  then show ?thesis by fastforce
qed

text \<open>
  The nightly refit takes effect: once it has cleared the cache, every request that gets its
  context afterwards gets the one the refitted figures give, until the inputs change again.
\<close>
theorem nightly_refit_takes_effect:
  assumes "map_of (wb_threads w) t = Some Clearing"
    and "web_runs build dialect {Request, Recompute} (refit_clear t w) w'"
    and "map_of (wb_threads w') t' = Some (Holding c)" and "map_of (wb_threads w) t' \<noteq> Some (Holding c)"
  shows "build (wb_inputs w) = Inr c"
proof -
  have "current_context build (refit_clear t w)" by (simp add: current_context_def web_ops)
  from current_runs [OF assms(2) this] assms(3,4)
  have "map_of (wb_threads (refit_clear t w)) t' = Some (Holding c) \<or> build (wb_inputs w) = Inr c"
    by (simp add: web_ops)
  then show ?thesis using assms(1,4) by (auto simp: web_ops split: if_splits)
qed


lemma insert_covers:
  assumes "insert_ignore clash dialect rows [] = Inr table" and "rows \<noteq> []"
  shows "table \<noteq> [] \<and> set table \<subseteq> set rows"
proof -
  obtain r rs where "rows = r # rs" using assms(2) by (cases rows) auto
  then obtain t where "insert_ignore clash dialect rs [r] = Inr table" using assms(1) by auto
  from insert_ignore_grows [OF this] insert_ignore_grows [OF assms(1)] show ?thesis by auto
qed

lemma materialize_over_other_hash:
  assumes "ignoring dialect" and "cand_building_id ` set cs \<subseteq> set known"
    and "\<forall>r \<in> set table. cr_inputs_hash r \<noteq> h"
  shows "\<exists>table'. materialize_candidates dialect now known cs h table = Inr (length cs, table') \<and>
     (\<forall>r \<in> set table'. cr_inputs_hash r = h) \<and> (cs \<noteq> [] \<longrightarrow> table' \<noteq> [])"
proof -
  let ?rs = "map (candidate_record now h) cs"
  have none: "filter (\<lambda>r. \<not> cr_inputs_hash r \<noteq> h) table = []"
    using assms(3) by (simp add: filter_empty_conv)
  obtain table' where t: "insert_ignore candidate_clash dialect ?rs [] = Inr table'"
    using insert_ignore_total [OF assms(1)] by blast
  have sub: "set table' \<subseteq> set ?rs" using insert_ignore_grows [OF t] by auto
  have "\<not> list_ex (\<lambda>r. cr_building_id r \<notin> set known) (drop 0 table')"
    using sub assms(2) by (force simp: list_ex_iff candidate_record_def)
  then have "materialize_candidates dialect now known cs h table = Inr (length cs, table')"
    unfolding materialize_candidates_def Let_def none by (simp add: t)
  moreover have "\<forall>r \<in> set table'. cr_inputs_hash r = h" using sub by (force simp: candidate_record_def)
  moreover have "cs \<noteq> [] \<longrightarrow> table' \<noteq> []" using insert_covers [OF t] by simp
  ultimately show ?thesis by blast
qed

text \<open>
  A recompute that no other one overlaps leaves the cache and the table in step: the cached
  context is the one the inputs give now, and the stored candidates are those of its fingerprint,
  every one of its options among them.
\<close>
theorem recompute_pairs:
  assumes "recompute_candidates build dialect now t w = w'"
    and "map_of (wb_threads w') t = Some Finished"
  shows "\<exists>c. wb_context w' = Some c \<and> build (wb_inputs w) = Inr c \<and>
     (\<forall>r \<in> set (wb_candidates w'). cr_inputs_hash r = cx_inputs_hash c) \<and>
     cand_key ` set (cx_candidates c) \<subseteq> cr_key ` set (wb_candidates w')"
proof (cases "build (wb_inputs w)")
  case (Inl e)
  then show ?thesis using assms by (auto simp: recompute_candidates_def Let_def recompute_locked_def)
next
  case (Inr c)
  then obtain w1 where w1: "w1 = recompute_locked build t w" "wb_context w1 = Some c"
    "map_of (wb_threads w1) t = Some (Materialising c)" "wb_inputs w1 = wb_inputs w"
    by (simp add: recompute_locked_def)
  then have st: "store_context dialect now t Finished c w1 = w'"
    using assms(1) by (simp add: recompute_candidates_def Let_def)
  obtain n table where m: "materialize_candidates dialect now (map br_id (in_buildings (wb_inputs w1)))
      (cx_candidates c) (cx_inputs_hash c) (wb_candidates w1) = Inr (n, table)" "wb_candidates w' = table"
    using st assms(2) by (auto simp: store_context_def split: sum.splits)
  from materialized_rows [OF m(1)] m(2) show ?thesis using Inr web_ops_case(2) [OF st] w1(2) by auto
qed

text \<open>
  Two recomputes that overlap can leave them out of step for good: the one that read the older
  inputs writes its candidates last, nobody is in flight any more, and the table holds the
  candidates of another fingerprint than the cached context.
\<close>
theorem recompute_race:
  assumes "build i1 = Inr c1" and "build i2 = Inr c2" and "cx_inputs_hash c1 \<noteq> cx_inputs_hash c2"
    and "cx_candidates c1 \<noteq> []" and "ignoring dialect"
    and "cand_building_id ` set (cx_candidates c1) \<subseteq> set (map br_id (in_buildings i2))"
    and "cand_building_id ` set (cx_candidates c2) \<subseteq> set (map br_id (in_buildings i2))"
  shows "\<exists>w. web_runs build dialect {Input_Change, Recompute} (start_web i1) w \<and>
     set (map snd (wb_threads w)) = {Finished} \<and> wb_inputs w = i2 \<and> wb_context w = Some c2 \<and>
     wb_candidates w \<noteq> [] \<and> (\<forall>r \<in> set (wb_candidates w). cr_inputs_hash r = cx_inputs_hash c1)"
proof -
  let ?runs = "web_runs build dialect {Input_Change, Recompute} (start_web i1)"
  let ?known = "map br_id (in_buildings i2)"
  define w0 where "w0 = at_point 2 Recomputing (at_point 1 Recomputing (start_web i1))"
  define w1 where "w1 = (recompute_locked build 1 w0)\<lparr>wb_inputs := i2\<rparr>"
  define w2 where "w2 = recompute_locked build 2 w1"
  have rec: "?runs w'" if "?runs w" "web_step build dialect Recompute w w'" for w w'
    by (rule more [OF that(1) _ that(2)]) simp
  have chg: "?runs w'" if "?runs w" "web_step build dialect Input_Change w w'" for w w'
    by (rule more [OF that(1) _ that(2)]) simp
  have first: "?runs (at_point 1 Recomputing (start_web i1))"
    by (rule rec [OF none], rule order) (simp add: start_web_def)
  have w0: "?runs w0" unfolding w0_def
    by (rule rec [OF first], rule order) (simp add: start_web_def at_point_def)
  have "?runs (recompute_locked build 1 w0)"
    by (rule rec [OF w0], rule rebuild) (simp add: w0_def)
  then have w1: "?runs w1" unfolding w1_def by (rule chg) (rule change)
  have s1: "w1 = \<lparr>wb_inputs = i2, wb_context = Some c1, wb_candidates = [],
      wb_threads = [(1, Materialising c1), (2, Recomputing)], wb_builds = 1, wb_renewals = 1\<rparr>"
    using assms(1) by (simp add: w1_def recompute_locked_def w0_def start_web_def at_point_def)
  have w2: "?runs w2" unfolding w2_def
    by (rule rec [OF w1], rule rebuild) (simp add: s1)
  have s2: "w2 = \<lparr>wb_inputs = i2, wb_context = Some c2, wb_candidates = [],
      wb_threads = [(1, Materialising c1), (2, Materialising c2)], wb_builds = 2, wb_renewals = 2\<rparr>"
    using assms(2) by (simp add: w2_def s1 recompute_locked_def at_point_def)
  have no_rows: "\<forall>r \<in> set []. cr_inputs_hash r \<noteq> cx_inputs_hash c2" by simp
  obtain t2 where t2: "materialize_candidates dialect 0 ?known (cx_candidates c2) (cx_inputs_hash c2) [] =
      Inr (length (cx_candidates c2), t2)" "\<forall>r \<in> set t2. cr_inputs_hash r = cx_inputs_hash c2"
    using materialize_over_other_hash [OF assms(5,7) no_rows] by blast
  have "\<forall>r \<in> set t2. cr_inputs_hash r \<noteq> cx_inputs_hash c1" using t2(2) assms(3) by metis
  then obtain t1 where t1: "materialize_candidates dialect 0 ?known (cx_candidates c1) (cx_inputs_hash c1) t2 =
      Inr (length (cx_candidates c1), t1)" "\<forall>r \<in> set t1. cr_inputs_hash r = cx_inputs_hash c1" "t1 \<noteq> []"
    using materialize_over_other_hash [OF assms(5,6)] assms(4) by blast
  define w3 where "w3 = store_context dialect 0 2 Finished c2 w2"
  define w4 where "w4 = store_context dialect 0 1 Finished c1 w3"
  have w3: "?runs w3" unfolding w3_def
    by (rule rec [OF w2], rule store) (simp add: s2)
  have s3: "w3 = w2\<lparr>wb_candidates := t2, wb_threads := [(1, Materialising c1), (2, Finished)]\<rparr>"
    using t2(1) by (simp add: w3_def s2 store_context_def at_point_def)
  have w4: "?runs w4" unfolding w4_def
    by (rule rec [OF w3], rule store) (simp add: s3)
  have s4: "w4 = w2\<lparr>wb_candidates := t1, wb_threads := [(1, Finished), (2, Finished)]\<rparr>"
    using t1(1) by (simp add: w4_def s3 s2 store_context_def at_point_def)
  show ?thesis
    by (rule exI [of _ w4]) (use w4 t1(2,3) in \<open>simp add: s4 s2\<close>)
qed


section \<open>Witnesses\<close>

definition school_inputs :: "intervention list \<Rightarrow> inputs" where
  "school_inputs catalog = \<lparr>in_buildings = map (building_record 0) school_features,
     in_catalog = Inr catalog, in_params = Inr shipped_params\<rparr>"

definition catalog_digest :: "payload \<Rightarrow> string" where
  "catalog_digest pl = (if pl_catalog pl = [] then ''empty'' else ''full'')"

abbreviation school_build :: "inputs \<Rightarrow> context_state result" where
  "school_build \<equiv> build_context (\<lambda>_. []) catalog_digest length"

definition full_context :: context_state where
  "full_context = (case school_build (school_inputs [glazing_upgrade]) of Inr c \<Rightarrow> c)"

definition empty_context :: context_state where
  "empty_context = (case school_build (school_inputs []) of Inr c \<Rightarrow> c)"

lemma school_contexts:
  "school_build (school_inputs [glazing_upgrade]) = Inr full_context"
  "cx_inputs_hash full_context = ''full''"
  "map cand_building_id (cx_candidates full_context) = [''b-1'']"
  "school_build (school_inputs []) = Inr empty_context"
  "cx_inputs_hash empty_context = ''empty''" "cx_candidates empty_context = []"
proof -
  have b: "load_buildings length (map (building_record 0) school_features) = Inr [sample_school]"
    by (simp add: load_buildings_def load_building_rows_def school_features_def building_record_def
        to_domain_building_def shape_of_def sample_school_def) code_simp
  obtain c where "expand_portfolio (\<lambda>_. []) [sample_school] [glazing_upgrade] shipped_params None = Inr [c]"
    "cand_building_id c = ''b-1''" using single_offers(1) by (rule single_offerE)
  then show "school_build (school_inputs [glazing_upgrade]) = Inr full_context"
    "cx_inputs_hash full_context = ''full''"
    "map cand_building_id (cx_candidates full_context) = [''b-1'']"
    by (simp_all add: full_context_def build_context_def context_from_db_def school_inputs_def b
        optimizer_context_def inputs_hash_def inputs_payload_def catalog_digest_def)
  have "expand_portfolio (\<lambda>_. []) [sample_school] [] shipped_params None = Inr []" by code_simp
  then show "school_build (school_inputs []) = Inr empty_context"
    "cx_inputs_hash empty_context = ''empty''" "cx_candidates empty_context = []"
    by (simp_all add: empty_context_def build_context_def context_from_db_def school_inputs_def b
        optimizer_context_def inputs_hash_def inputs_payload_def catalog_digest_def)
qed

theorem recompute_race_witness:
  "\<exists>w. web_runs school_build ''postgresql'' {Input_Change, Recompute}
       (start_web (school_inputs [glazing_upgrade])) w \<and>
     set (map snd (wb_threads w)) = {Finished} \<and> wb_inputs w = school_inputs [] \<and>
     wb_context w = Some empty_context \<and>
     wb_candidates w \<noteq> [] \<and> (\<forall>r \<in> set (wb_candidates w). cr_inputs_hash r = cx_inputs_hash full_context)"
proof -
  have ids: "map br_id (in_buildings (school_inputs [])) = [''b-1'']"
    by (simp add: school_inputs_def school_features_def building_record_def sample_school_def)
  have b1: "cand_building_id ` set (cx_candidates full_context) = {''b-1''}"
    unfolding set_map [symmetric] school_contexts(3) by simp
  have ne: "cx_candidates full_context \<noteq> []" using school_contexts(3) by auto
  show ?thesis
    by (rule recompute_race [OF school_contexts(1,4) _ ne])
      (simp_all add: school_contexts(2,5,6) ids b1)
qed

definition one_recompute :: web where
  "one_recompute = recompute_candidates school_build ''sqlite'' 0 1 (start_web (school_inputs []))"

lemma one_recompute_ran: "map_of (wb_threads one_recompute) 1 = Some Finished"
  by (simp add: one_recompute_def recompute_candidates_def recompute_locked_def start_web_def Let_def
      store_context_def materialize_candidates_def at_point_def school_contexts(4,6))

theorem recompute_pairs_witness:
  "\<exists>c. wb_context one_recompute = Some c \<and> school_build (school_inputs []) = Inr c"
  using recompute_pairs [OF one_recompute_def [symmetric] one_recompute_ran] by (auto simp: start_web_def)

theorem context_built_once_witness:
  "wb_builds (at_point 1 Asking (start_web i)) \<le> wb_renewals (at_point 1 Asking (start_web i)) + 1"
  by (rule context_built_once [where acts = UNIV and build = school_build and dialect = "''sqlite''"],
      rule more [OF none UNIV_I], rule ask) (simp add: start_web_def)

definition cached_web :: "context_state \<Rightarrow> web" where
  "cached_web c = (start_web (school_inputs []))\<lparr>wb_context := Some c\<rparr>"

theorem cache_outlives_changes_witness:
  "\<exists>w. web_runs school_build ''sqlite'' {Input_Change, Request} (cached_web sample_context) w \<and>
     wb_inputs w = school_inputs [glazing_upgrade] \<and> map_of (wb_threads w) 1 = Some (Holding sample_context) \<and>
     wb_context w = Some sample_context"
proof -
  let ?runs = "web_runs school_build ''sqlite'' {Input_Change, Request} (cached_web sample_context)"
  let ?w1 = "(cached_web sample_context)\<lparr>wb_inputs := school_inputs [glazing_upgrade]\<rparr>"
  let ?w2 = "get_context_fast 1 (at_point 1 Asking ?w1)"
  have act: "?runs w'" if "?runs w" "web_step school_build ''sqlite'' Request w w'" for w w'
    by (rule more [OF that(1) _ that(2)]) simp
  have r1: "?runs ?w1" by (rule more [OF none _ change]) simp
  have r2: "?runs (at_point 1 Asking ?w1)" by (rule act [OF r1], rule ask) (simp add: cached_web_def start_web_def)
  have r3: "?runs ?w2" by (rule act [OF r2], rule fast) simp
  have "wb_context ?w2 = Some sample_context"
    using cache_outlives_changes [OF r3, of sample_context] by (simp add: cached_web_def)
  then show ?thesis using r3 by (auto simp: get_context_fast_def cached_web_def)
qed

theorem nightly_refit_takes_effect_witness:
  "\<exists>c. school_build (school_inputs []) = Inr c"
proof -
  let ?w = "at_point 1 Clearing (start_web (school_inputs []))"
  let ?runs = "web_runs school_build ''sqlite'' {Request, Recompute} (refit_clear 1 ?w)"
  have act: "?runs w'" if "?runs w" "web_step school_build ''sqlite'' Request w w'" for w w'
    by (rule more [OF that(1) _ that(2)]) simp
  let ?w1 = "at_point 2 Asking (refit_clear 1 ?w)"
  let ?w3 = "get_context_locked school_build 2 (get_context_fast 2 ?w1)"
  have r1: "?runs ?w1" by (rule act [OF none], rule ask) (simp add: web_ops start_web_def at_point_def)
  have r2: "?runs (get_context_fast 2 ?w1)" by (rule act [OF r1], rule fast) simp
  have r3: "?runs ?w3" by (rule act [OF r2], rule locked) (simp add: web_ops)
  have h: "map_of (wb_threads ?w3) 2 = Some (Holding empty_context)"
    by (simp add: web_ops start_web_def school_contexts(4))
  have "school_build (wb_inputs ?w) = Inr empty_context"
    by (rule nightly_refit_takes_effect [OF _ r3 h]) (simp_all add: start_web_def)
  then show ?thesis by (auto simp: start_web_def)
qed

end
