(* ===== verification/Boq.thy ===== *)
theory Boq
  imports ContextCache
begin

text \<open>
  \<open>run_boq\<close> of \<open>src/gemp/api/main.py\<close>: a stored run as a bill of quantities, its lines priced with
  the catalogue and the parameters of the context. The lemmas compare the bill with the stored
  cost of the run.
\<close>

section \<open>Numbers and labels\<close>

text \<open>\<open>round(x, 2)\<close>.\<close>

definition round2 :: "rat \<Rightarrow> rat" where
  "round2 x = of_int (py_round (x * 100)) / 100"

text \<open>\<open>f"{x:,.0f}"\<close>: rounded to an integer, its digits in groups of three.\<close>

fun group_digits :: "string \<Rightarrow> string" where
  "group_digits (a # b # c # d # ds) = [a, b, c] @ '','' @ group_digits (d # ds)"
| "group_digits ds = ds"

definition thousands :: "rat \<Rightarrow> string" where
  "thousands x =
     (let n = py_round \<bar>x\<bar>
      in (if x < 0 then ''-'' else '''') @ rev (group_digits (rev (show_int n))))"

definition remove_prefix :: "string \<Rightarrow> string \<Rightarrow> string" where
  "remove_prefix pre s = (if prefix pre s then drop (length pre) s else s)"

text \<open>\<open>s.replace(old, new)\<close> with a text that is not empty, given as its first character and the others.\<close>

function replace_text :: "char \<Rightarrow> string \<Rightarrow> string \<Rightarrow> string \<Rightarrow> string" where
  "replace_text c old new [] = []"
| "replace_text c old new (x # s) =
     (if prefix (c # old) (x # s) then new @ replace_text c old new (drop (length old) s)
      else x # replace_text c old new s)"
  by pat_completeness auto
termination
  by (relation "measure (\<lambda>(c, old, new, s). length s)") auto

section \<open>The bill\<close>

record boq_line =
  bq_building_code :: string
  bq_building_name :: string
  bq_district :: string
  bq_intervention_id :: string
  bq_measure :: string
  bq_end_use :: string
  bq_quantity :: rat
  bq_basis :: string
  bq_unit_rate :: string
  bq_line_total_egp :: rat
  bq_service_life_yr :: int
  bq_citation :: "string option"

definition boq_line :: "params \<Rightarrow> allocation_item \<Rightarrow> building \<Rightarrow> intervention \<Rightarrow> boq_line result" where
  "boq_line p i b iv =
     rbind (if iv_cost_type iv = ''solar''
            then Inr (solar_kwp b p,
                      thousands (sol_fixed_egp (par_solar p)) @ '' EGP fixed + '' @
                        thousands (sol_egp_per_kwp (par_solar p)) @ '' EGP/kWp'',
                      ''kWp'')
            else rbind (dimension b (iv_cost_type iv) p) (\<lambda>qty.
                   Inr (qty,
                        thousands (iv_cost_value iv) @ '' EGP per '' @
                          replace_text (CHR ''_'') [] '' '' (remove_prefix ''per_'' (iv_cost_type iv)),
                        replace_text (CHR ''_'') ''m2'' ('' m'' @ [CHR 0xB2])
                          (remove_prefix ''per_'' (iv_cost_type iv)))))
       (\<lambda>(qty, unit_rate, basis). rbind (upfront_cost_egp b iv p) (\<lambda>cost.
          Inr \<lparr>bq_building_code = item_building_code i, bq_building_name = bld_name b,
               bq_district = item_district i, bq_intervention_id = iv_id iv, bq_measure = iv_label iv,
               bq_end_use = iv_end_use iv, bq_quantity = round2 qty, bq_basis = basis,
               bq_unit_rate = unit_rate, bq_line_total_egp = round2 cost,
               bq_service_life_yr = iv_service_life_yr iv,
               bq_citation = (if needs_citation iv then Some (iv_source_ref iv) else None)\<rparr>))"

text \<open>A dictionary comprehension: of two entries with one key the later stays.\<close>

definition dict_of :: "('a \<Rightarrow> 'k) \<Rightarrow> 'a list \<Rightarrow> 'k \<Rightarrow> 'a option" where
  "dict_of key xs = map_of (rev (map (\<lambda>x. (key x, x)) xs))"

definition item_lines :: "context_state \<Rightarrow> allocation_item \<Rightarrow> boq_line list result" where
  "item_lines cx i =
     (case dict_of bld_id (cx_buildings cx) (item_building_id i) of
        None \<Rightarrow> Inr []
      | Some b \<Rightarrow>
          rbind (rmapM (\<lambda>iv_id'. case dict_of iv_id (cx_catalog cx) iv_id' of
                          None \<Rightarrow> Inr []
                        | Some iv \<Rightarrow> rbind (boq_line (cx_params cx) i b iv) (\<lambda>l. Inr [l]))
                   (item_intervention_ids i))
            (\<lambda>lss. Inr (concat lss)))"

record bill =
  bi_run_id :: string
  bi_inputs_hash :: string
  bi_objective :: string
  bi_solver :: string
  bi_lines :: "boq_line list"
  bi_total_egp :: rat

text \<open>The answer 404 is a \<open>KeyError\<close>, the answer 422 a \<open>ValueError\<close> of the costing.\<close>

definition run_boq ::
  "(allocation_row list \<Rightarrow> allocation_row list) \<Rightarrow> context_state \<Rightarrow> string \<Rightarrow> run_tables \<Rightarrow> bill result" where
  "run_boq heap_order cx i t =
     rbind (get_run heap_order i t) (\<lambda>(r, items).
     rbind (rmapM (item_lines cx) items) (\<lambda>lss.
       let lines = concat lss
       in Inr \<lparr>bi_run_id = i, bi_inputs_hash = rr_inputs_hash r, bi_objective = rr_objective r,
               bi_solver = rr_solver r, bi_lines = lines,
               bi_total_egp = round2 (sum_list (map bq_line_total_egp lines))\<rparr>))"

section \<open>Lemmas\<close>

lemma round2_error: "\<bar>round2 x - x\<bar> \<le> 1 / 200"
proof -
  have "\<bar>x * 100 - of_int (py_round (x * 100))\<bar> \<le> 1 / 2" by (rule py_round_error)
  then have "x * 100 - of_int (py_round (x * 100)) \<le> 1 / 2" "- (1 / 2) \<le> x * 100 - of_int (py_round (x * 100))"
    by linarith+
  then show ?thesis unfolding round2_def abs_le_iff by linarith
qed

lemma round2_sum: "round2 (sum_list (map round2 xs)) = sum_list (map round2 xs)"
proof -
  have "sum_list (map round2 xs) * 100 = of_int (sum_list (map (\<lambda>x. py_round (x * 100)) xs))"
    by (induction xs) (auto simp: round2_def algebra_simps)
  then show ?thesis by (simp add: round2_def [of "sum_list (map round2 xs)"])
qed

lemma dict_of_member:
  assumes "distinct (map key xs)" and "x \<in> set xs"
  shows "dict_of key xs (key x) = Some x"
proof -
  have "distinct (map fst (rev (map (\<lambda>x. (key x, x)) xs)))"
    using assms(1) by (simp add: comp_def flip: rev_map)
  then show ?thesis unfolding dict_of_def using assms(2) by (intro map_of_is_SomeI) auto
qed

lemma boq_line_total:
  assumes "upfront_cost_egp b iv p = Inr cost"
  shows "\<exists>l. boq_line p i b iv = Inr l \<and> bq_line_total_egp l = round2 cost"
  using assms by (auto simp: boq_line_def upfront_cost_egp_def result_simps split: if_splits)

lemma portfolio_option:
  assumes "expand_portfolio fr bs catalog p m = Inr cs" and "c \<in> set cs"
  obtains b combo where "b \<in> set bs" and "cand_building_id c = bld_id b" and "set combo \<subseteq> set catalog"
    and "cand_intervention_ids c = map iv_id combo" and "bundle_cost_egp b combo p = Inr (cand_cost_egp c)"
proof -
  obtain css where css: "rmapM (\<lambda>b. expand_building fr b catalog p m) bs = Inr css" "cs = concat css"
    using assms(1) by (auto simp: expand_portfolio_def result_simps)
  then obtain ds where ds: "ds \<in> set css" "c \<in> set ds" using assms(2) by auto
  obtain b where b: "b \<in> set bs" "expand_building fr b catalog p m = Inr ds"
    using rmapM_from [OF css(1) ds(1)] by blast
  obtain combo where sub: "subseq combo (filter (\<lambda>iv. applies fr iv b = Inr True) catalog)"
    and combo: "expand_combo b p combo = Inr [c]" using expand_building_member [OF b(2) ds(2)] by blast
  have "set combo \<subseteq> set catalog" using list_emb_set [OF sub] by auto
  then show ?thesis using that [OF b(1), of combo] expand_combo_Inr(2) [OF combo, of c] by auto
qed

lemma rsum_Inr:
  "rsum f xs = Inr s \<Longrightarrow> \<exists>ys. map f xs = map Inr ys \<and> s = sum_list ys"
proof (induction xs arbitrary: s)
  case (Cons x xs)
  then obtain y s' where "f x = Inr y" "rsum f xs = Inr s'" "s = y + s'" by (auto simp: result_simps)
  moreover obtain ys where "map f xs = map Inr ys" "s' = sum_list ys" using Cons.IH calculation(2) by blast
  ultimately show ?case by (intro exI [of _ "y # ys"]) simp
qed simp

lemma item_bill:
  assumes "expand_portfolio fr bs catalog p m = Inr cs" and "c \<in> set cs" and "to_item bs c = Inr i"
    and "distinct (map bld_id bs)" and "distinct (map iv_id catalog)"
    and "cx_buildings cx = bs" and "cx_catalog cx = catalog" and "cx_params cx = p"
  shows "\<exists>ls. item_lines cx i = Inr ls \<and> length ls = length (item_intervention_ids i) \<and>
     (\<exists>costs. map bq_line_total_egp ls = map round2 costs \<and> item_cost_egp i = sum_list costs)"
proof -
  obtain b combo where b: "b \<in> set bs" "cand_building_id c = bld_id b" "set combo \<subseteq> set catalog"
    and ids: "cand_intervention_ids c = map iv_id combo"
    and cost: "bundle_cost_egp b combo p = Inr (cand_cost_egp c)"
    using assms(1,2) by (rule portfolio_option)
  have i: "item_building_id i = bld_id b" "item_intervention_ids i = map iv_id combo"
    "item_cost_egp i = cand_cost_egp c"
    using assms(3) b(2) ids by (auto simp: to_item_def split: option.splits)
  obtain costs where costs: "map (\<lambda>iv. upfront_cost_egp b iv p) combo = map Inr costs"
    "cand_cost_egp c = sum_list costs"
    using rsum_Inr [OF cost [unfolded bundle_cost_egp_def]] by blast
  have dict: "dict_of bld_id bs (bld_id b) = Some b" by (rule dict_of_member [OF assms(4) b(1)])
  have lines: "\<exists>lss. rmapM (\<lambda>iv_id'. case dict_of iv_id catalog iv_id' of None \<Rightarrow> Inr []
          | Some iv \<Rightarrow> rbind (boq_line p i b iv) (\<lambda>l. Inr [l])) (map iv_id ivs) = Inr lss \<and>
        length (concat lss) = length ivs \<and> map bq_line_total_egp (concat lss) = map round2 cs'"
    if "map (\<lambda>iv. upfront_cost_egp b iv p) ivs = map Inr cs'" "set ivs \<subseteq> set catalog" for ivs cs'
    using that
  proof (induction ivs arbitrary: cs')
    case (Cons iv ivs)
    then obtain y ys where cs': "cs' = y # ys" "upfront_cost_egp b iv p = Inr y"
      "map (\<lambda>iv. upfront_cost_egp b iv p) ivs = map Inr ys" by (cases cs') auto
    obtain l where l: "boq_line p i b iv = Inr l" "bq_line_total_egp l = round2 y"
      using boq_line_total [OF cs'(2)] by blast
    have "dict_of iv_id catalog (iv_id iv) = Some iv"
      using dict_of_member [OF assms(5)] Cons.prems(2) by simp
    then show ?case using Cons.IH [OF cs'(3)] Cons.prems(2) l cs'(1) by force
  qed simp
  obtain lss where lss: "rmapM (\<lambda>iv_id'. case dict_of iv_id catalog iv_id' of None \<Rightarrow> Inr []
        | Some iv \<Rightarrow> rbind (boq_line p i b iv) (\<lambda>l. Inr [l])) (map iv_id combo) = Inr lss"
    "length (concat lss) = length combo" "map bq_line_total_egp (concat lss) = map round2 costs"
    using lines [OF costs(1) b(3)] by blast
  have "item_lines cx i = Inr (concat lss)"
    unfolding item_lines_def assms(6-8) i dict by (simp add: lss(1))
  then show ?thesis using lss(2,3) costs(2) i(2,3) by auto
qed


lemma solve_Inr:
  assumes "solve cpsat cs bs budget solver objective cap prune = Inr a"
  obtains b where "budget = Fin b" and "0 \<le> b" and "solver \<in> set SOLVERS"
    and "objective \<in> set (map fst OBJECTIVES)"
  using assms by (auto simp: solve_def split: if_splits pyfloat.splits)

lemma bill_of_items:
  assumes "\<forall>i \<in> set items. \<exists>ls. item_lines cx i = Inr ls \<and> length ls = length (item_intervention_ids i) \<and>
     (\<exists>costs. map bq_line_total_egp ls = map round2 costs \<and> item_cost_egp i = sum_list costs)"
  shows "\<exists>lss costs. rmapM (item_lines cx) items = Inr lss \<and>
     length (concat lss) = sum_list (map (\<lambda>i. length (item_intervention_ids i)) items) \<and>
     map bq_line_total_egp (concat lss) = map round2 costs \<and>
     sum_list costs = sum_list (map item_cost_egp items)"
  using assms
proof (induction items)
  case (Cons i items)
  then obtain lss costs where IH: "rmapM (item_lines cx) items = Inr lss"
    "length (concat lss) = sum_list (map (\<lambda>i. length (item_intervention_ids i)) items)"
    "map bq_line_total_egp (concat lss) = map round2 costs"
    "sum_list costs = sum_list (map item_cost_egp items)" by auto
  obtain ls cs where "item_lines cx i = Inr ls" "length ls = length (item_intervention_ids i)"
    "map bq_line_total_egp ls = map round2 cs" "item_cost_egp i = sum_list cs"
    using Cons.prems by auto
  then show ?case using IH by (intro exI [of _ "ls # lss"] exI [of _ "cs @ costs"]) simp
qed simp

lemma rounded_bill: "\<bar>sum_list (map round2 costs) - sum_list costs\<bar> \<le> of_nat (length costs) / 200"
proof (induction costs)
  case (Cons c costs)
  have "\<bar>round2 c - c\<bar> \<le> 1 / 200" by (rule round2_error)
  moreover have "\<bar>(round2 c - c) + (sum_list (map round2 costs) - sum_list costs)\<bar> \<le>
      \<bar>round2 c - c\<bar> + \<bar>sum_list (map round2 costs) - sum_list costs\<bar>"
    by (rule abs_triangle_ineq)
  ultimately show ?case using Cons by (simp add: algebra_simps add_divide_distrib)
qed simp

section \<open>Properties\<close>

text \<open>
  The bill of a run that was solved and stored with the same context exists, has one line for
  every measure of every funded building, and its total differs from the cost of the run by at
  most half a piastre a line. Building and catalogue ids are distinct; the solver keeps its contract.
\<close>
theorem boq_prices_the_run:
  assumes "cpsat_contract cpsat" and "optimizer_context fr digest bs catalog p = Inr cx"
    and "distinct (map bld_id bs)" and "distinct (map iv_id catalog)"
    and "run_optimization cpsat cx rq uuid now durable t = (Inr (i, a), t')" and "rq_persist rq"
    and "runs_wf t" and "\<And>xs. mset (heap_order xs) = mset xs"
  shows "\<exists>b. run_boq heap_order cx i t' = Inr b \<and> bi_inputs_hash b = cx_inputs_hash cx \<and>
     length (bi_lines b) = sum_list (map (\<lambda>i. length (item_intervention_ids i)) (alloc_items a)) \<and>
     \<bar>bi_total_egp b - total_cost_egp a\<bar> \<le> of_nat (length (bi_lines b)) / 200"
proof -
  obtain cs where cs: "expand_portfolio fr bs catalog p None = Inr cs" "cx_candidates cx = cs"
    "cx_buildings cx = bs" "cx_catalog cx = catalog" "cx_params cx = p"
    using assms(2) by (auto simp: optimizer_context_def result_simps)
  obtain cap where sv: "solve cpsat cs bs (rq_budget_egp rq) (rq_solver rq) (rq_objective rq) cap True = Inr a"
    using assms(5) by (auto simp: run_optimization_def Let_def cs split: sum.splits if_splits)
  obtain b where b: "rq_budget_egp rq = Fin b" "0 \<le> b" "rq_solver rq \<in> set SOLVERS"
    "rq_objective rq \<in> set (map fst OBJECTIVES)" using sv by (rule solve_Inr)
  then have s: "solve cpsat cs bs (Fin b) (rq_solver rq) (rq_objective rq) cap True = Inr a"
    using sv by simp
  obtain a' where a': "solve cpsat cs bs (Fin b) (rq_solver rq) (rq_objective rq) cap True = Inr a'"
    "\<forall>i \<in> set (alloc_items a'). \<exists>c \<in> set cs. to_item bs c = Inr i"
    using solve_items_sound [OF assms(1) b(3,4,2) expanded_consistent(1) [OF cs(1) assms(3)] assms(3)
      expanded_consistent(2) [OF cs(1) assms(3)], of cap True] by blast
  then have from_cands: "\<forall>i \<in> set (alloc_items a). \<exists>c \<in> set cs. to_item bs c = Inr i"
    using s by simp
  obtain r items where run: "get_run heap_order i t' = Inr (r, items)" "mset items = mset (alloc_items a)"
    "rr_inputs_hash r = cx_inputs_hash cx"
    using stored_run_reads_back [OF assms(5-8)] by blast
  have "set items = set (alloc_items a)" using run(2) by (metis set_mset_mset)
  then have "\<forall>i \<in> set items. \<exists>ls. item_lines cx i = Inr ls \<and> length ls = length (item_intervention_ids i) \<and>
     (\<exists>costs. map bq_line_total_egp ls = map round2 costs \<and> item_cost_egp i = sum_list costs)"
    using from_cands item_bill [OF cs(1) _ _ assms(3,4) cs(3-5)] by blast
  from bill_of_items [OF this] obtain lss costs where lss: "rmapM (item_lines cx) items = Inr lss"
    "length (concat lss) = sum_list (map (\<lambda>i. length (item_intervention_ids i)) items)"
    "map bq_line_total_egp (concat lss) = map round2 costs"
    "sum_list costs = sum_list (map item_cost_egp items)" by blast
  have total: "sum_list (map item_cost_egp items) = total_cost_egp a" using run_totals [OF run(2)] by simp
  have n: "sum_list (map (\<lambda>i. length (item_intervention_ids i)) items) =
      sum_list (map (\<lambda>i. length (item_intervention_ids i)) (alloc_items a))"
    using run(2) by (metis mset_map sum_mset_sum_list)
  have len: "length costs = length (concat lss)" using lss(3) by (metis length_map)
  have "\<bar>sum_list (map bq_line_total_egp (concat lss)) - total_cost_egp a\<bar> \<le> of_nat (length (concat lss)) / 200"
    using rounded_bill [of costs] unfolding lss(3) len lss(4) total .
  then show ?thesis
    using lss(1,2) run(1,3) n by (simp add: run_boq_def Let_def lss(3) round2_sum)
qed


lemma full_context_built:
  "optimizer_context (\<lambda>_. []) catalog_digest [sample_school] [glazing_upgrade] shipped_params = Inr full_context"
proof -
  have "load_buildings length (map (building_record 0) school_features) = Inr [sample_school]"
    by (simp add: load_buildings_def load_building_rows_def school_features_def building_record_def
        to_domain_building_def shape_of_def sample_school_def) code_simp
  then show ?thesis
    using school_contexts(1) by (simp add: build_context_def context_from_db_def school_inputs_def)
qed

definition school_request :: run_request where
  "school_request = \<lparr>rq_budget_egp = Fin 1000000, rq_objective = ''lca_carbon'', rq_solver = ''cpsat'',
     rq_max_funded_per_district = Some 5, rq_persist = True\<rparr>"

theorem boq_prices_the_run_witness:
  "\<exists>a t b. run_optimization exhaustive_search full_context school_request ''u1'' 5 True no_runs =
       (Inr (''u1'', a), t) \<and>
     run_boq rev full_context ''u1'' t = Inr b \<and>
     \<bar>bi_total_egp b - total_cost_egp a\<bar> \<le> of_nat (length (bi_lines b)) / 200"
proof -
  obtain cs where e: "expand_portfolio (\<lambda>_. []) [sample_school] [glazing_upgrade] shipped_params None = Inr cs"
    and f: "\<lparr>cx_buildings = [sample_school], cx_catalog = [glazing_upgrade], cx_params = shipped_params,
       cx_candidates = cs, cx_inputs_hash = inputs_hash catalog_digest [sample_school] [glazing_upgrade]
         shipped_params\<rparr> = full_context"
    using full_context_built by (auto simp: optimizer_context_def result_simps)
  note cs = e arg_cong [OF f, of cx_candidates, simplified, symmetric]
    arg_cong [OF f, of cx_buildings, simplified, symmetric]
  have one: "distinct (map bld_id [sample_school])" "distinct (map iv_id [glazing_upgrade])" by simp_all
  obtain a where a: "solve exhaustive_search cs [sample_school] (Fin 1000000) ''cpsat'' ''lca_carbon'' (Some 5) True = Inr a"
    using solve_items_sound [OF exhaustive_search_contract _ _ _ expanded_consistent(1) [OF cs(1) one(1)] one(1)
      expanded_consistent(2) [OF cs(1) one(1)], of "''cpsat''" "''lca_carbon''" 1000000 "Some 5" True]
    by (auto simp: SOLVERS_def OBJECTIVES_def)
  then obtain t where t: "run_optimization exhaustive_search full_context school_request ''u1'' 5 True no_runs =
      (Inr (''u1'', a), t)"
    by (simp add: run_optimization_def school_request_def no_runs_def persist_run_def add_run_def
        add_allocations_def list_ex_iff cs(2,3))
  have p: "rq_persist school_request" by (simp add: school_request_def)
  have w: "runs_wf no_runs" by (simp add: no_runs_def runs_wf_def)
  show ?thesis
    using boq_prices_the_run [OF exhaustive_search_contract full_context_built one t p w, of rev] t
    by (simp only: mset_rev) blast
qed

definition glazing_item :: allocation_item where
  "glazing_item = \<lparr>item_building_id = ''b-1'', item_building_code = ''SCH-01'', item_district = ''Nasr City'',
     item_candidate_key = ''b-1|glazing_upgrade_v1'', item_intervention_ids = [''glazing_upgrade_v1''],
     item_label = ''Double glazing retrofit'', item_cost_egp = 960000, item_annual_kwh_saving = 9000,
     item_lifetime_benefit = 90000, item_annual_egp_saving = 9000\<rparr>"

text \<open>
  The bill of a stored run is priced with the context of the day, not with the run: after a
  correction of the building that the fingerprint does not notice, the run of 960,000 EGP has a
  bill of 1,440,000 EGP under the same fingerprint.
\<close>
theorem bill_follows_context:
  "\<exists>cx t b. optimizer_context (\<lambda>_. []) digest [corrected_school] [glazing_upgrade] shipped_params = Inr cx \<and>
     persist_run True (run_record ''u1'' 5 1000000 ''lca_carbon'' ''cpsat'' None
           (inputs_hash digest [sample_school] [glazing_upgrade] shipped_params)
           \<lparr>alloc_solver = ''cpsat'', alloc_objective = ''lca_carbon'', alloc_status = ''OPTIMAL'',
            alloc_budget_egp = 1000000, alloc_items = [glazing_item]\<rparr>) [glazing_item] no_runs = Inr t \<and>
     (\<exists>r. get_run id ''u1'' t = Inr (r, [glazing_item]) \<and> rr_total_cost_egp r = 960000) \<and>
     run_boq id cx ''u1'' t = Inr b \<and> bi_total_egp b = 1440000 \<and> bi_inputs_hash b = cx_inputs_hash cx"
proof -
  obtain c' where "expand_portfolio (\<lambda>_. []) [corrected_school] [glazing_upgrade] shipped_params None = Inr [c']"
    using single_offers(2) by (rule single_offerE)
  then obtain cx where cx: "optimizer_context (\<lambda>_. []) digest [corrected_school] [glazing_upgrade] shipped_params = Inr cx"
    by (simp add: optimizer_context_def)
  let ?h = "inputs_hash digest [sample_school] [glazing_upgrade] shipped_params"
  have same: "inputs_hash digest [sample_school] [glazing_upgrade] shipped_params =
      inputs_hash digest [corrected_school] [glazing_upgrade] shipped_params"
    by (rule fingerprint_fields) (simp add: corrected_school_def)
  have c: "cx_buildings cx = [corrected_school]" "cx_catalog cx = [glazing_upgrade]"
    "cx_params cx = shipped_params" "cx_inputs_hash cx = ?h"
    using cx same by (auto simp: optimizer_context_def result_simps)
  have "(case item_lines \<lparr>cx_buildings = [corrected_school], cx_catalog = [glazing_upgrade],
      cx_params = shipped_params, cx_candidates = [], cx_inputs_hash = []\<rparr> glazing_item of
      Inr [l] \<Rightarrow> bq_line_total_egp l = 1440000 | _ \<Rightarrow> False)" by code_simp
  moreover have "item_lines cx i = item_lines \<lparr>cx_buildings = [corrected_school], cx_catalog = [glazing_upgrade],
      cx_params = shipped_params, cx_candidates = [], cx_inputs_hash = []\<rparr> i" for i
    by (simp only: item_lines_def c context_state.select_convs)
  ultimately have "\<exists>l. item_lines cx glazing_item = Inr [l] \<and> bq_line_total_egp l = 1440000"
    by (simp split: sum.splits list.splits)
  then obtain l where l: "item_lines cx glazing_item = Inr [l]" "bq_line_total_egp l = 1440000" by blast
  have r: "round2 1440000 = 1440000" by code_simp
  show ?thesis
    by (intro exI [of _ cx]) (simp add: cx persist_run_def add_run_def add_allocations_def no_runs_def
        get_run_def run_boq_def l r Let_def c(4) total_cost_egp_def, simp add: glazing_item_def)
qed

end
