(* ===== verification/Api.thy ===== *)
theory Api
  imports Boq
begin

text \<open>
  Routes of \<open>src/gemp/api/main.py\<close>: the check for several workers at startup, optimising and
  comparing, reading a run, and acknowledging alerts. An answer is its status, for the refusals,
  or the body. The exception handlers turn a \<open>ValueError\<close> into 422 and everything else into 500.

  The session and the role of the caller are checked before (\<open>Gate\<close>, \<open>Access\<close>). Whether
  \<open>solve_slot\<close> lets a request in is an argument here; its rules are in \<open>Slots\<close>.
\<close>

section \<open>Startup\<close>

text \<open>\<open>str.isdigit\<close> below 256: the decimal digits and the three superscripts, which \<open>int\<close> rejects.\<close>

definition isdigit :: "string \<Rightarrow> bool" where
  "isdigit s = (s \<noteq> [] \<and> list_all (\<lambda>c. is_digit c \<or> (of_char c :: nat) \<in> {0xB2, 0xB3, 0xB9}) s)"

datatype startup = Starts | Refuses_Workers | Startup_Fails

definition more_than_one :: "string \<Rightarrow> startup" where
  "more_than_one s =
     (if isdigit s
      then (case py_int s of None \<Rightarrow> Startup_Fails | Some n \<Rightarrow> if n > 1 then Refuses_Workers else Starts)
      else Starts)"

definition flag_value :: "string \<Rightarrow> string list \<Rightarrow> string option" where
  "flag_value flag argv =
     (if flag \<in> set argv
      then (case drop 1 (dropWhile (\<lambda>a. a \<noteq> flag) argv) of [] \<Rightarrow> Some [] | v # _ \<Rightarrow> Some v)
      else None)"

fun check_flags :: "string list \<Rightarrow> string list \<Rightarrow> startup" where
  "check_flags [] argv = Starts"
| "check_flags (flag # flags) argv =
     (case flag_value flag argv of
        None \<Rightarrow> check_flags flags argv
      | Some v \<Rightarrow> (case more_than_one v of Starts \<Rightarrow> check_flags flags argv | s \<Rightarrow> s))"

definition refuse_multiple_workers :: "string option \<Rightarrow> string list \<Rightarrow> startup" where
  "refuse_multiple_workers concurrency argv =
     (case more_than_one (strip (case concurrency of None \<Rightarrow> [] | Some v \<Rightarrow> v)) of
        Starts \<Rightarrow> check_flags [''--workers'', ''-w''] argv
      | s \<Rightarrow> s)"

section \<open>Errors as answers\<close>

type_synonym 'a answer = "nat + 'a"

definition error_status :: "py_error \<Rightarrow> nat" where
  "error_status e =
     (case e of ValueError _ \<Rightarrow> 422 | SavingsError _ \<Rightarrow> 422 | IntegrityError _ \<Rightarrow> 422 | _ \<Rightarrow> 500)"

definition stored_status :: "store_error \<Rightarrow> nat" where
  "stored_status e = (case e of Raised e \<Rightarrow> error_status e | _ \<Rightarrow> 500)"

definition answer_of :: "'a result \<Rightarrow> 'a answer" where
  "answer_of r = (case r of Inl e \<Rightarrow> Inl (error_status e) | Inr x \<Rightarrow> Inr x)"

section \<open>Optimising\<close>

definition MAX_BUDGET_EGP :: rat where
  "MAX_BUDGET_EGP = 10 ^ 12"

definition MAX_SOLVE_SECONDS :: rat where
  "MAX_SOLVE_SECONDS = 60"

definition DEFAULT_SOLVE_SECONDS :: rat where
  "DEFAULT_SOLVE_SECONDS = 10"

record optimize_request =
  or_budget_egp :: pyfloat
  or_objective :: string
  or_solver :: string
  or_max_funded_per_district :: "int option"
  or_persist :: bool
  or_max_seconds :: pyfloat

definition bounded_positive :: "pyfloat \<Rightarrow> rat \<Rightarrow> bool" where
  "bounded_positive x hi = (case x of Fin r \<Rightarrow> 0 < r \<and> r \<le> hi | _ \<Rightarrow> False)"

definition valid_optimize_request :: "optimize_request \<Rightarrow> bool" where
  "valid_optimize_request r =
     (bounded_positive (or_budget_egp r) MAX_BUDGET_EGP \<and>
      (case or_max_funded_per_district r of None \<Rightarrow> True | Some k \<Rightarrow> k \<ge> 1) \<and>
      bounded_positive (or_max_seconds r) MAX_SOLVE_SECONDS)"

definition as_run_request :: "string \<Rightarrow> bool \<Rightarrow> optimize_request \<Rightarrow> run_request" where
  "as_run_request solver persist r =
     \<lparr>rq_budget_egp = or_budget_egp r, rq_objective = or_objective r, rq_solver = solver,
      rq_max_funded_per_district = or_max_funded_per_district r, rq_persist = persist\<rparr>"

record optimize_response =
  op_run_id :: "string option"
  op_solver :: string
  op_objective :: string
  op_status :: string
  op_budget_egp :: rat
  op_total_cost_egp :: rat
  op_budget_used_frac :: rat
  op_buildings_funded :: nat
  op_total_kwh_saving :: rat
  op_total_egp_saving :: rat
  op_total_benefit :: rat
  op_benefit_per_egp :: rat
  op_items :: "allocation_item list"

definition build_response :: "string option \<Rightarrow> allocation \<Rightarrow> optimize_response" where
  "build_response i a =
     \<lparr>op_run_id = i, op_solver = alloc_solver a, op_objective = alloc_objective a,
      op_status = alloc_status a, op_budget_egp = alloc_budget_egp a,
      op_total_cost_egp = total_cost_egp a, op_budget_used_frac = budget_used_frac a,
      op_buildings_funded = buildings_funded a, op_total_kwh_saving = total_kwh_saving a,
      op_total_egp_saving = total_egp_saving a, op_total_benefit = total_benefit_kgco2e a,
      op_benefit_per_egp = benefit_per_egp a, op_items = alloc_items a\<rparr>"

text \<open>The context is a dependency: it is resolved before the body is validated.\<close>

definition optimize ::
  "cp_solver \<Rightarrow> context_state result \<Rightarrow> optimize_request \<Rightarrow> bool \<Rightarrow> string \<Rightarrow> int \<Rightarrow> bool \<Rightarrow> run_tables
     \<Rightarrow> optimize_response answer \<times> run_tables" where
  "optimize cpsat context r slot uuid now durable t =
     (case context of
        Inl e \<Rightarrow> (Inl (error_status e), t)
      | Inr cx \<Rightarrow>
          if \<not> valid_optimize_request r then (Inl 422, t)
          else if or_objective r \<notin> set (map fst OBJECTIVES) then (Inl 422, t)
          else if or_solver r \<notin> set SOLVERS then (Inl 422, t)
          else if \<not> slot then (Inl 429, t)
          else (case run_optimization cpsat cx (as_run_request (or_solver r) (or_persist r) r) uuid now durable t of
                  (Inl e, t') \<Rightarrow> (Inl (stored_status e), t')
                | (Inr (i, a), t') \<Rightarrow> (Inr (build_response (if or_persist r then Some i else None) a), t')))"

section \<open>Comparing\<close>

definition comparable :: "pyfloat option \<Rightarrow> pyfloat option" where
  "comparable v = (case v of Some (Fin x) \<Rightarrow> Some (Fin x) | _ \<Rightarrow> None)"

record comparison_row =
  cw_status :: string
  cw_buildings_funded :: nat
  cw_total_cost_egp :: rat
  cw_total_benefit :: rat
  cw_total_kwh_saving :: rat
  cw_improvement :: "pyfloat option"

record comparison =
  cm_results :: "(string \<times> comparison_row) list"
  cm_vs_greedy_upgrade :: "pyfloat option"
  cm_vs_greedy :: "pyfloat option"
  cm_equal_split_scored :: bool

definition comparison_row_of :: "string \<Rightarrow> allocation \<Rightarrow> string \<Rightarrow> allocation \<Rightarrow> comparison_row result" where
  "comparison_row_of objective baseline name a =
     rbind (if name = ''equal_split'' then Inr None
            else rbind (improvement_pct a baseline objective) (\<lambda>x. Inr (comparable (Some x))))
       (\<lambda>v. Inr \<lparr>cw_status = alloc_status a, cw_buildings_funded = buildings_funded a,
                 cw_total_cost_egp = total_cost_egp a, cw_total_benefit = total_benefit_kgco2e a,
                 cw_total_kwh_saving = total_kwh_saving a, cw_improvement = v\<rparr>)"

text \<open>The loop over the solvers; nothing is stored, so every solver starts from the same tables.\<close>

definition run_all ::
  "cp_solver \<Rightarrow> context_state \<Rightarrow> optimize_request \<Rightarrow> (string \<times> allocation) list stored" where
  "run_all cpsat cx r =
     rmapM (\<lambda>solver. rbind (fst (run_optimization cpsat cx (as_run_request solver False r) [] 0 True
               \<lparr>rt_runs = [], rt_allocations = []\<rparr>)) (\<lambda>(_, a). Inr (solver, a))) SOLVERS"

definition result_of :: "(string \<times> 'a) list \<Rightarrow> string \<Rightarrow> 'a result" where
  "result_of results name = (case map_of results name of None \<Rightarrow> Inl (KeyError name) | Some a \<Rightarrow> Inr a)"

definition comparison_of :: "string \<Rightarrow> (string \<times> allocation) list \<Rightarrow> comparison result" where
  "comparison_of objective results =
     rbind (result_of results ''equal_split'') (\<lambda>baseline.
     rbind (rmapM (\<lambda>(name, a). rbind (comparison_row_of objective baseline name a)
                                 (\<lambda>w. Inr (name, w))) results) (\<lambda>rows.
     rbind (result_of results ''cpsat'') (\<lambda>cpsat.
     rbind (result_of results ''greedy_upgrade'') (\<lambda>upgrade.
     rbind (result_of results ''greedy'') (\<lambda>greedy.
     rbind (improvement_pct cpsat upgrade objective) (\<lambda>vs_upgrade.
     rbind (improvement_pct cpsat greedy objective) (\<lambda>vs_greedy.
       Inr \<lparr>cm_results = rows, cm_vs_greedy_upgrade = comparable (Some vs_upgrade),
            cm_vs_greedy = comparable (Some vs_greedy),
            cm_equal_split_scored = (buildings_funded baseline > 0)\<rparr>)))))))"

definition compare_solvers ::
  "cp_solver \<Rightarrow> context_state result \<Rightarrow> optimize_request \<Rightarrow> bool \<Rightarrow> comparison answer" where
  "compare_solvers cpsat context r slot =
     (case context of
        Inl e \<Rightarrow> Inl (error_status e)
      | Inr cx \<Rightarrow>
          if \<not> valid_optimize_request r then Inl 422
          else if or_objective r \<notin> set (map fst OBJECTIVES) then Inl 422
          else if \<not> slot then Inl 429
          else (case run_all cpsat cx r of
                  Inl e \<Rightarrow> Inl (stored_status e)
                | Inr results \<Rightarrow> answer_of (comparison_of (or_objective r) results)))"

section \<open>Reading a run\<close>

definition read_run ::
  "(allocation_row list \<Rightarrow> allocation_row list) \<Rightarrow> string \<Rightarrow> run_tables
     \<Rightarrow> (run_row \<times> allocation_item list) answer" where
  "read_run heap_order i t = (case get_run heap_order i t of Inl _ \<Rightarrow> Inl 404 | Inr x \<Rightarrow> Inr x)"

section \<open>Alerts\<close>

definition SEVERITIES :: "string list" where
  "SEVERITIES = [''critical'', ''high'', ''medium'']"

record acknowledge_request =
  ak_all_open :: bool
  ak_selector :: selector
  ak_acknowledged :: bool

definition any_selector :: "selector \<Rightarrow> bool" where
  "any_selector s \<longleftrightarrow>
     (case sel_ids s of None \<Rightarrow> False | Some ids \<Rightarrow> ids \<noteq> []) \<or>
     (case sel_building_id s of None \<Rightarrow> False | Some b \<Rightarrow> b \<noteq> []) \<or>
     sel_before s \<noteq> None \<or>
     (case sel_severity s of None \<Rightarrow> False | Some v \<Rightarrow> v \<noteq> [])"

record acknowledged =
  ad_changed :: nat
  ad_acknowledged :: bool
  ad_open_remaining :: nat

definition acknowledge ::
  "acknowledge_request \<Rightarrow> anomaly_row list \<Rightarrow> acknowledged answer \<times> anomaly_row list" where
  "acknowledge r table =
     (let s = ak_selector r
      in if \<not> any_selector s \<and> \<not> ak_all_open r then (Inl 422, table)
         else if (case sel_severity s of None \<Rightarrow> False | Some v \<Rightarrow> v \<noteq> [] \<and> v \<notin> set SEVERITIES)
           then (Inl 422, table)
         else let (changed, table') = acknowledge_anomalies s (ak_acknowledged r) table
              in (Inr \<lparr>ad_changed = changed, ad_acknowledged = ak_acknowledged r,
                       ad_open_remaining = open_anomaly_count (sel_building_id s) table'\<rparr>, table'))"

definition acknowledge_one :: "int \<Rightarrow> anomaly_row list \<Rightarrow> nat answer \<times> anomaly_row list" where
  "acknowledge_one i table =
     (let (changed, table') = acknowledge_anomalies
            \<lparr>sel_ids = Some [i], sel_building_id = None, sel_before = None, sel_severity = None\<rparr> True table
      in if changed = 0 then (Inl 404, table) else (Inr changed, table'))"


section \<open>Lemmas\<close>

lemma run_optimization_outcome:
  assumes "cpsat_contract cpsat" and "optimizer_context fr digest bs catalog p = Inr cx"
    and "distinct (map bld_id bs)" and "rq_budget_egp rq = Fin b" and "0 \<le> b"
    and "rq_solver rq \<in> set SOLVERS" and "rq_objective rq \<in> set (map fst OBJECTIVES)"
    and "uuid \<notin> rr_id ` set (rt_runs t)"
  shows "\<exists>a t'. run_optimization cpsat cx rq uuid now True t = (Inr (uuid, a), t') \<and>
     total_cost_egp a \<le> b + slack_of (rq_solver rq) (length (alloc_items a)) \<and>
     distinct (map item_building_id (alloc_items a)) \<and> (\<not> rq_persist rq \<longrightarrow> t' = t)"
proof -
  obtain cs where cs: "expand_portfolio fr bs catalog p None = Inr cs" "cx_candidates cx = cs" "cx_buildings cx = bs"
    using assms(2) by (auto simp: optimizer_context_def result_simps)
  obtain cap where cap: "(case rq_max_funded_per_district rq of
      None \<Rightarrow> par_max_funded_per_district (cx_params cx) | Some k \<Rightarrow> Some k) = cap" by simp
  obtain a where a: "solve cpsat cs bs (Fin b) (rq_solver rq) (rq_objective rq) cap True = Inr a"
    "distinct (map item_building_id (alloc_items a))"
    "total_cost_egp a \<le> b + slack_of (rq_solver rq) (length (alloc_items a))"
    using solve_items_sound [OF assms(1,6,7,5) expanded_consistent(1) [OF cs(1) assms(3)] assms(3)
      expanded_consistent(2) [OF cs(1) assms(3)], of cap True] by blast
  have "\<exists>t'. persist_run True (run_record uuid now (finite_part (rq_budget_egp rq)) (rq_objective rq)
      (rq_solver rq) cap (cx_inputs_hash cx) a) (alloc_items a) t = Inr t'"
    using assms(8) by (auto simp: persist_run_def add_run_def add_allocations_def list_ex_iff)
  then show ?thesis using a by (auto simp: run_optimization_def Let_def cap cs(2,3) assms(4))
qed

section \<open>Properties\<close>

text \<open>
  The optimise route answers 422 for a body out of its bounds or an unknown objective or
  solver, 429 without a slot, and otherwise always a plan: within the budget, up to the rounding
  of the exact programme, one option per building. A stored plan reads back under the id that was
  returned, and a refusal or an unstored plan leaves the tables alone.
\<close>
theorem optimize_answers:
  assumes "cpsat_contract cpsat" and "optimizer_context fr digest bs catalog p = Inr cx"
    and "distinct (map bld_id bs)" and "uuid \<notin> rr_id ` set (rt_runs t)" and "runs_wf t"
    and "\<And>xs. mset (heap_order xs) = mset xs"
    and "optimize cpsat (Inr cx) r slot uuid now True t = (ans, t')"
  shows "if \<not> valid_optimize_request r \<or> or_objective r \<notin> set (map fst OBJECTIVES) \<or>
            or_solver r \<notin> set SOLVERS
         then ans = Inl 422 \<and> t' = t
         else if \<not> slot then ans = Inl 429 \<and> t' = t
         else \<exists>resp. ans = Inr resp \<and>
           op_total_cost_egp resp \<le> finite_part (or_budget_egp r) + slack_of (or_solver r) (length (op_items resp)) \<and>
           distinct (map item_building_id (op_items resp)) \<and>
           (if or_persist r
            then op_run_id resp = Some uuid \<and>
              (\<exists>row items. read_run heap_order uuid t' = Inr (row, items) \<and> mset items = mset (op_items resp))
            else op_run_id resp = None \<and> t' = t)"
proof (cases "valid_optimize_request r \<and> or_objective r \<in> set (map fst OBJECTIVES) \<and>
    or_solver r \<in> set SOLVERS \<and> slot")
  case False
  then show ?thesis using assms(7) unfolding optimize_def
    by (simp split: if_splits)
next
  case True
  let ?rq = "as_run_request (or_solver r) (or_persist r) r"
  obtain b where b: "or_budget_egp r = Fin b" "0 < b"
    using True by (auto simp: valid_optimize_request_def bounded_positive_def split: pyfloat.splits)
  obtain a t1 where a: "run_optimization cpsat cx ?rq uuid now True t = (Inr (uuid, a), t1)"
    "total_cost_egp a \<le> b + slack_of (or_solver r) (length (alloc_items a))"
    "distinct (map item_building_id (alloc_items a))" "\<not> or_persist r \<longrightarrow> t1 = t"
    using run_optimization_outcome [OF assms(1-3), of ?rq b uuid t now] True b assms(4)
    by (auto simp: as_run_request_def)
  have ans: "ans = Inr (build_response (if or_persist r then Some uuid else None) a)" "t' = t1"
    using assms(7) True a(1) by (auto simp: optimize_def)
  have "\<exists>row items. read_run heap_order uuid t1 = Inr (row, items) \<and> mset items = mset (alloc_items a)"
    if "or_persist r"
    using stored_run_reads_back(1) [OF a(1) _ assms(5,6)] that
    by (auto simp: as_run_request_def read_run_def)
  then show ?thesis using True a(2-4) ans b(1) by (auto simp: build_response_def finite_part_def)
qed

text \<open>
  Comparing runs exactly the four solvers of the comparison of the optimizer on the context's
  candidates, with the default cap where the request names none, and hands its error on unchanged.
\<close>
theorem compare_route_runs_compare:
  "run_all cpsat cx r =
     (case compare cpsat (cx_candidates cx) (cx_buildings cx) (or_budget_egp r) (or_objective r)
             (case or_max_funded_per_district r of
                None \<Rightarrow> par_max_funded_per_district (cx_params cx) | Some k \<Rightarrow> Some k) True of
        Inl e \<Rightarrow> Inl (Raised e)
      | Inr results \<Rightarrow> Inr results)"
proof -
  let ?cap = "case or_max_funded_per_district r of
      None \<Rightarrow> par_max_funded_per_district (cx_params cx) | Some k \<Rightarrow> Some k"
  let ?solve = "\<lambda>s. solve cpsat (cx_candidates cx) (cx_buildings cx) (or_budget_egp r) s (or_objective r) ?cap True"
  have each: "rbind (fst (run_optimization cpsat cx (as_run_request s False r) [] 0 True
        \<lparr>rt_runs = [], rt_allocations = []\<rparr>)) (\<lambda>(_, a). Inr (s, a)) =
      (case ?solve s of Inl e \<Rightarrow> Inl (Raised e) | Inr a \<Rightarrow> Inr (s, a))" for s
    by (simp add: run_optimization_def as_run_request_def Let_def split: sum.split)
  have "rmapM (\<lambda>s. case ?solve s of Inl e \<Rightarrow> Inl (Raised e) | Inr a \<Rightarrow> Inr (s, a)) ss =
      (case rmapM (\<lambda>s. rbind (?solve s) (\<lambda>a. Inr (s, a))) ss of
         Inl e \<Rightarrow> Inl (Raised e) | Inr results \<Rightarrow> Inr results)" for ss
    by (induction ss) (auto simp: rbind_def split: sum.splits)
  then show ?thesis by (simp add: run_all_def compare_def each)
qed

text \<open>
  The acknowledge route refuses a body without a selector that does not ask for everything, and
  changes nothing then; otherwise it changes exactly the named alerts whose flag differs, reports
  their number and how many are open now, and a second identical request changes none.
\<close>
theorem acknowledge_answers:
  assumes "acknowledge r table = (ans, table')"
  shows "(case ans of
       Inl status \<Rightarrow> status = 422 \<and> table' = table
     | Inr body \<Rightarrow> (any_selector (ak_selector r) \<or> ak_all_open r) \<and>
         (\<forall>i < length table. table' ! i = (if selected (ak_selector r) (table ! i)
            then (table ! i)\<lparr>an_acknowledged := ak_acknowledged r\<rparr> else table ! i)) \<and>
         ad_changed body = card {i. i < length table \<and> table' ! i \<noteq> table ! i} \<and>
         ad_open_remaining body = open_anomaly_count (sel_building_id (ak_selector r)) table' \<and>
         acknowledge r table' = (Inr (body\<lparr>ad_changed := 0\<rparr>), table'))"
proof (cases ans)
  case (Inl s)
  then show ?thesis using assms by (auto simp: acknowledge_def Let_def split: if_splits prod.splits)
next
  case (Inr body)
  obtain n t where a: "acknowledge_anomalies (ak_selector r) (ak_acknowledged r) table = (n, t)" by fastforce
  have ok: "any_selector (ak_selector r) \<or> ak_all_open r"
    "\<not> (case sel_severity (ak_selector r) of None \<Rightarrow> False | Some v \<Rightarrow> v \<noteq> [] \<and> v \<notin> set SEVERITIES)"
    using assms Inr by (auto simp: acknowledge_def Let_def split: if_splits)
  then have body: "body = \<lparr>ad_changed = n, ad_acknowledged = ak_acknowledged r,
      ad_open_remaining = open_anomaly_count (sel_building_id (ak_selector r)) t\<rparr>" "table' = t"
    using assms Inr a by (auto simp: acknowledge_def Let_def)
  note exact = acknowledge_exact [OF a]
  have "acknowledge r t = (Inr (body\<lparr>ad_changed := 0\<rparr>), t)"
    using ok exact by (simp add: acknowledge_def Let_def body)
  then show ?thesis using exact ok by (simp add: Inr body)
qed


section \<open>Witnesses\<close>

definition school_body :: "bool \<Rightarrow> optimize_request" where
  "school_body persist = \<lparr>or_budget_egp = Fin 1000000, or_objective = ''lca_carbon'', or_solver = ''cpsat'',
     or_max_funded_per_district = None, or_persist = persist, or_max_seconds = Fin 10\<rparr>"

theorem optimize_answers_witness:
  "\<exists>resp t. optimize exhaustive_search (Inr full_context) (school_body True) True ''u1'' 5 True no_runs = (Inr resp, t) \<and>
     op_run_id resp = Some ''u1'' \<and>
     (\<exists>row items. read_run rev ''u1'' t = Inr (row, items) \<and> mset items = mset (op_items resp))"
proof -
  obtain ans t where r: "optimize exhaustive_search (Inr full_context) (school_body True) True ''u1'' 5 True no_runs =
      (ans, t)" by fastforce
  have "valid_optimize_request (school_body True)" "or_solver (school_body True) \<in> set SOLVERS"
    "or_objective (school_body True) \<in> set (map fst OBJECTIVES)" "or_persist (school_body True)"
    by code_simp+
  moreover have "runs_wf no_runs" "''u1'' \<notin> rr_id ` set (rt_runs no_runs)"
    by (simp_all add: no_runs_def runs_wf_def)
  moreover have one: "distinct (map bld_id [sample_school])" by simp
  ultimately show ?thesis
    using optimize_answers [OF exhaustive_search_contract full_context_built one _ _ _ r, of rev] r
    by (simp only: mset_rev if_True if_False simp_thms) blast
qed

theorem acknowledge_answers_witness:
  "\<exists>body table. acknowledge \<lparr>ak_all_open = False, ak_selector = all_of ''a'', ak_acknowledged = True\<rparr>
       [sample_alert 1 False, sample_alert 2 True] = (Inr body, table) \<and> ad_changed body = 1 \<and>
     acknowledge \<lparr>ak_all_open = False, ak_selector = all_of ''a'', ak_acknowledged = True\<rparr> table =
       (Inr (body\<lparr>ad_changed := 0\<rparr>), table)"
proof -
  let ?r = "\<lparr>ak_all_open = False, ak_selector = all_of ''a'', ak_acknowledged = True\<rparr>"
  let ?t = "[sample_alert 1 False, sample_alert 2 True]"
  obtain body table where a: "acknowledge ?r ?t = (Inr body, table)" and n: "ad_changed body = 1"
    by (simp add: acknowledge_def any_selector_def all_of_def acknowledge_anomalies_def selected_def
        sample_alert_def Let_def)
  show ?thesis using acknowledge_answers [OF a] a n by auto
qed

text \<open>
  Two runs of one context have one fingerprint whatever was asked for: the same fingerprint
  does not mean the same plan, nor the same budget.
\<close>
theorem fingerprint_ignores_request:
  "\<exists>a b ta tb. run_optimization exhaustive_search sample_context (sample_request\<lparr>rq_budget_egp := Fin 40\<rparr>)
       ''u1'' 5 True no_runs = (Inr (''u1'', a), ta) \<and>
     run_optimization exhaustive_search sample_context (sample_request\<lparr>rq_budget_egp := Fin 20\<rparr>)
       ''u1'' 5 True no_runs = (Inr (''u1'', b), tb) \<and>
     map rr_inputs_hash (rt_runs ta) = map rr_inputs_hash (rt_runs tb) \<and>
     total_cost_egp a \<noteq> total_cost_egp b \<and> alloc_items a \<noteq> alloc_items b"
proof -
  define b where "b = (case solve exhaustive_search sample_candidates sample_buildings (Fin 20) ''cpsat''
      ''lca_carbon'' (Some 5) True of Inr b \<Rightarrow> b)"
  have sb: "solve exhaustive_search sample_candidates sample_buildings (Fin 20) ''cpsat'' ''lca_carbon'' (Some 5)
      True = Inr b" unfolding b_def by code_simp
  have "total_cost_egp b \<noteq> total_cost_egp sample_run" unfolding b_def by code_simp
  moreover from this have "alloc_items sample_run \<noteq> alloc_items b" by (auto simp: total_cost_egp_def)
  moreover have "solve exhaustive_search sample_candidates sample_buildings (Fin 40) ''cpsat'' ''lca_carbon'' (Some 5)
      True = Inr sample_run" by code_simp
  ultimately show ?thesis using sb
    by (simp add: run_optimization_def sample_context_def sample_request_def no_runs_def persist_run_def
        add_run_def add_allocations_def list_ex_iff run_record_def)
qed

text \<open>
  The startup check reads the flag and its value as two arguments. The spelling with an equals
  sign, which uvicorn accepts as well, is not seen.
\<close>
lemma workers_equals_sign:
  "refuse_multiple_workers None [''uvicorn'', ''gemp.api.main:app'', ''--workers'', ''4''] = Refuses_Workers"
  "refuse_multiple_workers None [''uvicorn'', ''gemp.api.main:app'', ''--workers=4''] = Starts"
  by code_simp+

end
