(* ===== verification/Health.thy ===== *)
theory Health
  imports Stored
begin

text \<open>
  \<open>/health\<close> of \<open>src/gemp/api/main.py\<close>: the cached answer, the lock that lets one prober refresh it,
  and the word for the state of ingestion. Probers are threads: reading the cache, trying the
  lock and refreshing under it are separate steps, and the clock is an argument of each.
\<close>

section \<open>The answer\<close>

definition HEALTH_TTL_S :: rat where
  "HEALTH_TTL_S = 2"

text \<open>What the module keeps of the ingester thread: its two counters, or that there is none.\<close>

record ingester_view =
  iv_write_failures :: nat
  iv_rejected :: nat

record health_body =
  hb_database :: string
  hb_readings :: "int option"
  hb_ingest :: string

definition ingest_status :: "ingester_view option \<Rightarrow> nat \<Rightarrow> string \<times> nat" where
  "ingest_status ingester rejected_seen =
     (case ingester of
        None \<Rightarrow> (''disabled'', rejected_seen)
      | Some v \<Rightarrow>
          if iv_write_failures v \<noteq> 0 then (''stalled'', rejected_seen)
          else (if iv_rejected v > rejected_seen then ''rejecting'' else ''ok'', iv_rejected v))"

text \<open>\<open>table\<close> is what the database answers, \<open>None\<close> where a query fails.\<close>

definition probe ::
  "ingester_view option \<Rightarrow> row list option \<Rightarrow> nat \<Rightarrow> (health_body \<times> nat) \<times> nat" where
  "probe ingester table rejected_seen =
     (let (word, seen) = ingest_status ingester rejected_seen
      in case table of
           None \<Rightarrow> ((\<lparr>hb_database = ''error'', hb_readings = None, hb_ingest = word\<rparr>, 503), seen)
         | Some rows \<Rightarrow> ((\<lparr>hb_database = ''ok'', hb_readings = latest_reading_ts None rows,
                           hb_ingest = word\<rparr>, 200), seen))"

section \<open>Probers\<close>

type_synonym cached_answer = "rat \<times> health_body \<times> nat"

datatype prober =
    Looked "cached_answer option"
  | Blocked
  | Querying
  | Answered health_body nat

record health =
  he_cache :: "cached_answer option"
  he_holder :: "nat option"
  he_threads :: "(nat \<times> prober) list"
  he_queries :: nat
  he_rejected_seen :: nat

definition start_health :: health where
  "start_health = \<lparr>he_cache = None, he_holder = None, he_threads = [], he_queries = 0, he_rejected_seen = 0\<rparr>"

definition at_prober :: "nat \<Rightarrow> prober \<Rightarrow> health \<Rightarrow> health" where
  "at_prober t pt h = h\<lparr>he_threads := AList.update t pt (he_threads h)\<rparr>"

text \<open>The first read of the cache: a fresh answer is served at once.\<close>

definition look :: "rat \<Rightarrow> nat \<Rightarrow> health \<Rightarrow> health" where
  "look now t h =
     (case he_cache h of
        Some (made, body, code) \<Rightarrow>
          if now - made < HEALTH_TTL_S then at_prober t (Answered body code) h
          else at_prober t (Looked (he_cache h)) h
      | None \<Rightarrow> at_prober t (Looked None) h)"

definition try_lock :: "nat \<Rightarrow> cached_answer option \<Rightarrow> health \<Rightarrow> health" where
  "try_lock t cached h =
     (case he_holder h of
        None \<Rightarrow> at_prober t Querying (h\<lparr>he_holder := Some t\<rparr>)
      | Some _ \<Rightarrow>
          (case cached of
             Some (made, body, code) \<Rightarrow> at_prober t (Answered body code) h
           | None \<Rightarrow> at_prober t Blocked h))"

definition wake :: "nat \<Rightarrow> health \<Rightarrow> health" where
  "wake t h = at_prober t Querying (h\<lparr>he_holder := Some t\<rparr>)"

definition refresh :: "rat \<Rightarrow> ingester_view option \<Rightarrow> row list option \<Rightarrow> nat \<Rightarrow> health \<Rightarrow> health" where
  "refresh now ingester table t h =
     (let ((body, code), seen) = probe ingester table (he_rejected_seen h)
      in at_prober t (Answered body code)
           (h\<lparr>he_cache := Some (now, body, code), he_holder := None, he_queries := he_queries h + 1,
              he_rejected_seen := seen\<rparr>))"

inductive health_step :: "rat \<Rightarrow> health \<Rightarrow> health \<Rightarrow> bool" where
  look: "t \<notin> fst ` set (he_threads h) \<Longrightarrow> health_step now h (look now t h)"
| try_lock: "map_of (he_threads h) t = Some (Looked cached) \<Longrightarrow> health_step now h (try_lock t cached h)"
| wake: "map_of (he_threads h) t = Some Blocked \<Longrightarrow> he_holder h = None \<Longrightarrow> health_step now h (wake t h)"
| refresh: "map_of (he_threads h) t = Some Querying \<Longrightarrow> health_step now h (refresh now ingester table t h)"

text \<open>A run whose steps all happen between two times.\<close>

inductive health_runs :: "rat \<Rightarrow> rat \<Rightarrow> health \<Rightarrow> health \<Rightarrow> bool" for lo hi :: rat and h0 :: health where
  none: "health_runs lo hi h0 h0"
| more: "health_runs lo hi h0 h \<Longrightarrow> lo \<le> now \<Longrightarrow> now \<le> hi \<Longrightarrow> health_step now h h' \<Longrightarrow>
    health_runs lo hi h0 h'"

section \<open>Lemmas\<close>

lemma at_prober_sel [simp]:
  "he_cache (at_prober t pt h) = he_cache h" "he_holder (at_prober t pt h) = he_holder h"
  "he_queries (at_prober t pt h) = he_queries h" "he_rejected_seen (at_prober t pt h) = he_rejected_seen h"
  "map_of (he_threads (at_prober t pt h)) = (map_of (he_threads h))(t \<mapsto> pt)"
  by (simp_all add: at_prober_def dict_simps)

lemmas health_ops = look_def try_lock_def wake_def refresh_def

text \<open>The threads that query are the holder of the lock, if there is one.\<close>

definition lock_ok :: "health \<Rightarrow> bool" where
  "lock_ok h \<longleftrightarrow> (\<forall>t. map_of (he_threads h) t = Some Querying \<longleftrightarrow> he_holder h = Some t)"

lemma lock_ok_step:
  assumes "health_step now h h'" and "lock_ok h"
  shows "lock_ok h'"
  using assms
proof (cases rule: health_step.cases)
  case (look t)
  then have new: "map_of (he_threads h) t = None" by (simp add: map_of_eq_None_iff)
  then have "he_holder h \<noteq> Some t" using assms(2) unfolding lock_ok_def by force
  then show ?thesis using look(1) assms(2) new
    by (auto simp: lock_ok_def look_def split: option.splits if_splits)
next
  case (try_lock t cached)
  then have "he_holder h \<noteq> Some t" using assms(2) unfolding lock_ok_def by force
  then show ?thesis using try_lock assms(2)
    by (auto simp: lock_ok_def try_lock_def split: option.splits)
next
  case (wake t)
  then show ?thesis using assms(2) by (auto simp: lock_ok_def wake_def)
next
  case (refresh t ingester table)
  then have "he_holder h = Some t" using assms(2) by (simp add: lock_ok_def)
  then show ?thesis using refresh(1) assms(2)
    by (auto simp: lock_ok_def refresh_def case_prod_unfold Let_def)
qed

lemma lock_ok_runs: "health_runs lo hi h h' \<Longrightarrow> lock_ok h \<Longrightarrow> lock_ok h'"
  by (induction rule: health_runs.induct) (auto intro: lock_ok_step)

lemma warm_step:
  assumes "health_step now h h'" and "he_cache h \<noteq> None"
  shows "he_cache h' \<noteq> None \<and>
    (\<forall>t. map_of (he_threads h) t \<notin> {Some Blocked, Some (Looked None)} \<longrightarrow>
       map_of (he_threads h') t \<notin> {Some Blocked, Some (Looked None)})"
  using assms
  by (cases rule: health_step.cases)
    (auto simp: health_ops case_prod_unfold Let_def split: option.splits if_splits)

section \<open>Properties\<close>

text \<open>
  At most one prober queries the database at a time, and it is the one that holds the lock;
  and once an answer is cached, no prober that comes later ever waits for another.
\<close>
theorem health_probers:
  assumes "health_runs lo hi start_health h" and "health_runs lo' hi' h h'"
  shows "(\<forall>t. map_of (he_threads h) t = Some Querying \<longleftrightarrow> he_holder h = Some t) \<and>
    (he_cache h \<noteq> None \<longrightarrow>
      (\<forall>t. map_of (he_threads h) t = None \<longrightarrow> map_of (he_threads h') t \<noteq> Some Blocked))"
proof -
  have "lock_ok h" by (rule lock_ok_runs [OF assms(1)]) (simp add: lock_ok_def start_health_def)
  moreover have "he_cache h' \<noteq> None \<and> (\<forall>t. map_of (he_threads h) t \<notin> {Some Blocked, Some (Looked None)} \<longrightarrow>
       map_of (he_threads h') t \<notin> {Some Blocked, Some (Looked None)})" if "he_cache h \<noteq> None"
    using assms(2) that
  proof (induction rule: health_runs.induct)
    case (more h1 now h2)
    then show ?case using warm_step [OF more.hyps(4)] by meson
  qed simp
  ultimately show ?thesis unfolding lock_ok_def by fastforce
qed

lemma probers_arrive:
  "\<exists>h. health_runs 0 0 start_health h \<and> he_cache h = None \<and> he_holder h = None \<and> he_queries h = 0 \<and>
     map_of (he_threads h) = (\<lambda>i. if i < n then Some (Looked None) else None)"
proof (induction n)
  case 0
  show ?case by (rule exI [of _ start_health]) (auto simp: start_health_def intro: none)
next
  case (Suc n)
  then obtain h where h: "health_runs 0 0 start_health h" "he_cache h = None" "he_holder h = None"
    "he_queries h = 0" "map_of (he_threads h) = (\<lambda>i. if i < n then Some (Looked None) else None)" by blast
  have "n \<notin> fst ` set (he_threads h)" using h(5) by (simp flip: map_of_eq_None_iff)
  then have "health_runs 0 0 start_health (look 0 n h)"
    by (intro more [OF h(1), of 0] look) simp_all
  moreover have "look 0 n h = at_prober n (Looked None) h" using h(2) by (simp add: look_def)
  ultimately show ?case using h by (intro exI [of _ "look 0 n h"]) (auto simp: fun_eq_iff)
qed

text \<open>
  The cache does not bound the queries of a window. Probers that found the cache cold, or
  stale, do not look again once they get the lock: any number of them can query one after the
  other at one and the same moment.
\<close>
theorem health_queries_unbounded:
  "\<exists>h. health_runs 0 0 start_health h \<and> he_queries h = n"
proof -
  have "\<exists>h. health_runs 0 0 start_health h \<and> he_holder h = None \<and> he_queries h = k \<and>
      (\<forall>i. k \<le> i \<longrightarrow> i < n \<longrightarrow> map_of (he_threads h) i = Some (Looked None))" if "k \<le> n" for k
    using that
  proof (induction k)
    case 0
    then show ?case using probers_arrive [of n] by (metis (mono_tags))
  next
    case (Suc k)
    then obtain h where h: "health_runs 0 0 start_health h" "he_holder h = None" "he_queries h = k"
      "\<forall>i. k \<le> i \<longrightarrow> i < n \<longrightarrow> map_of (he_threads h) i = Some (Looked None)" by auto
    let ?h1 = "try_lock k None h"
    let ?h2 = "refresh 0 None None k ?h1"
    have r1: "health_runs 0 0 start_health ?h1"
      using h(4) Suc.prems by (intro more [OF h(1), of 0] try_lock) simp_all
    have q: "map_of (he_threads ?h1) k = Some Querying" using h(2) by (simp add: try_lock_def)
    have "health_runs 0 0 start_health ?h2" using q by (intro more [OF r1, of 0] refresh) simp_all
    then show ?case using h by (intro exI [of _ ?h2]) (auto simp: health_ops case_prod_unfold Let_def)
  qed
  then show ?thesis by blast
qed

definition queried :: health where
  "queried = refresh 0 None (Some []) 1 (try_lock 1 None (look 0 1 start_health))"

theorem health_probers_witness:
  "map_of (he_threads queried) 1 \<noteq> Some Querying \<and>
   map_of (he_threads (look 3 2 queried)) 2 \<noteq> Some Blocked"
proof -
  have r1: "health_runs 0 0 start_health (look 0 1 start_health)"
    by (rule more [OF none _ _ health_step.look]) (simp_all add: start_health_def)
  have r2: "health_runs 0 0 start_health (try_lock 1 None (look 0 1 start_health))"
    by (rule more [OF r1 order_refl order_refl health_step.try_lock]) (simp add: look_def start_health_def)
  have r: "health_runs 0 0 start_health queried" unfolding queried_def
    by (rule more [OF r2 order_refl order_refl health_step.refresh])
      (simp add: look_def try_lock_def start_health_def)
  have q: "he_cache queried \<noteq> None" "map_of (he_threads queried) 2 = None" "he_holder queried = None"
    by (simp_all add: queried_def health_ops start_health_def case_prod_unfold Let_def)
  then have "2 \<notin> fst ` set (he_threads queried)" by (simp add: map_of_eq_None_iff)
  then have "health_runs 3 3 queried (look 3 2 queried)"
    by (rule more [OF none order_refl order_refl health_step.look])
  from health_probers [OF r this] q show ?thesis by simp
qed

end
