(* ===== verification/Dashboard.thy ===== *)
theory Dashboard
  imports Service
begin

text \<open>
  The read model of \<open>src/gemp/api/dashboard_routes.py\<close>: the tiles, the load chart with its two
  sources, the alert trend and the inbox, the stored runs and the forecast chart. A timestamp is
  an instant in microseconds, shown to the client as text; dates are UTC days.
\<close>

section \<open>Time\<close>

definition DAY :: int where
  "DAY = 86400 * 1000000"

definition HOUR :: int where
  "HOUR = 3600 * 1000000"

text \<open>\<open>ts.replace(minute=0, second=0, microsecond=0)\<close>, and the day of an instant.\<close>

definition hour_start :: "int \<Rightarrow> int" where
  "hour_start ts = ts div HOUR * HOUR"

definition day_of :: "int \<Rightarrow> int" where
  "day_of ts = ts div DAY"

section \<open>Thinning a series\<close>

definition MAX_POINTS :: nat where
  "MAX_POINTS = 400"

definition round_hundredths :: "rat \<Rightarrow> rat" where
  "round_hundredths x = of_int (py_round (x * 100)) / 100"

text \<open>\<open>rows[::step]\<close> with a positive step.\<close>

fun every :: "nat \<Rightarrow> 'a list \<Rightarrow> 'a list" where
  "every step [] = []"
| "every step (x # xs) = x # every step (drop (step - 1) xs)"

definition downsample :: "(int \<times> rat option) list \<Rightarrow> (int \<times> rat) list" where
  "downsample rows =
     (if rows = [] then []
      else let step = max 1 (length rows div MAX_POINTS)
           in concat (map (\<lambda>(ts, value). case value of
                            None \<Rightarrow> [] | Some v \<Rightarrow> [(ts, round_hundredths v)]) (every step rows)))"

section \<open>The load of the portfolio\<close>

text \<open>
  The continuous aggregate of \<open>timescale.py\<close> when it is up to date: the mean power of each building
  in each hour.
\<close>

definition mean :: "rat list \<Rightarrow> rat" where
  "mean xs = sum_list xs / of_nat (length xs)"

definition kw_of :: "row \<Rightarrow> rat" where
  "kw_of r = the (row_kw r)"

definition reading_hourly :: "row list \<Rightarrow> ((string \<times> int) \<times> rat) list" where
  "reading_hourly table =
     map (\<lambda>(k, g). (k, mean (map kw_of g)))
       (group_by (\<lambda>r. (the (row_building_id r), hour_start (row_instant r))) table)"

definition aggregate_load :: "int \<Rightarrow> row list \<Rightarrow> (int \<times> rat) list" where
  "aggregate_load cutoff table =
     sort_key fst (map (\<lambda>(hour, g). (hour, sum_list (map snd g)))
       (group_by (\<lambda>p. snd (fst p)) (filter (\<lambda>p. snd (fst p) \<ge> cutoff) (reading_hourly table))))"

definition raw_hourly :: "int \<Rightarrow> row list \<Rightarrow> (int \<times> rat) list" where
  "raw_hourly cutoff table =
     sort_key fst (foldl (\<lambda>buckets r.
         AList.update (hour_start (row_instant r))
           (dict_get buckets (hour_start (row_instant r)) 0 + kw_of r) buckets) []
       (filter (\<lambda>r. row_instant r \<ge> cutoff) table))"

text \<open>\<open>aggregated\<close> says whether the query over the continuous aggregate succeeds.\<close>

definition portfolio_load :: "bool \<Rightarrow> int \<Rightarrow> row list \<Rightarrow> (int \<times> rat) list \<times> int option" where
  "portfolio_load aggregated days table =
     (case latest_reading_ts None table of
        None \<Rightarrow> ([], None)
      | Some newest \<Rightarrow>
          let cutoff = newest - days * DAY;
              rows = (if aggregated then aggregate_load cutoff table else raw_hourly cutoff table)
          in (downsample (map (\<lambda>(ts, kw). (ts, Some kw)) rows), Some cutoff))"

section \<open>Alerts\<close>

definition count_by :: "('a \<Rightarrow> 'k) \<Rightarrow> 'a list \<Rightarrow> ('k \<times> nat) list" where
  "count_by key xs = map (\<lambda>(k, g). (k, length g)) (group_by key xs)"

definition open_by_severity :: "anomaly_row list \<Rightarrow> (string \<times> nat) list" where
  "open_by_severity table = count_by an_severity (filter (\<lambda>a. \<not> an_acknowledged a) table)"

record alert_tiles =
  at_open_anomalies :: nat
  at_open_by_severity :: "(string \<times> nat) list"
  at_data_clock :: "int option"

definition alerts_summary :: "anomaly_row list \<Rightarrow> row list \<Rightarrow> alert_tiles" where
  "alerts_summary alerts table =
     \<lparr>at_open_anomalies = open_anomaly_count None alerts, at_open_by_severity = open_by_severity alerts,
      at_data_clock = latest_reading_ts None table\<rparr>"

text \<open>The counter of a day: a key for each severity, and the keys total and open.\<close>

definition bump :: "string \<Rightarrow> (string \<times> nat) list \<Rightarrow> (string \<times> nat) list" where
  "bump k d = AList.update k (dict_get d k 0 + 1) d"

definition count_alert :: "anomaly_row \<Rightarrow> (string \<times> nat) list \<Rightarrow> (string \<times> nat) list" where
  "count_alert a d =
     (let d1 = bump ''total'' (bump (an_severity a) d)
      in if an_acknowledged a then d1 else bump ''open'' d1)"

definition by_day :: "anomaly_row list \<Rightarrow> (int \<times> (string \<times> nat) list) list" where
  "by_day rows =
     foldl (\<lambda>d a. AList.update (day_of (an_ts a)) (count_alert a (dict_get d (day_of (an_ts a)) [])) d) [] rows"

definition anomalies_daily ::
  "int \<Rightarrow> anomaly_row list \<Rightarrow> row list \<Rightarrow> (int \<times> (string \<times> nat) list) list" where
  "anomalies_daily days alerts table =
     (case latest_reading_ts None table of
        None \<Rightarrow> []
      | Some newest \<Rightarrow>
          let cutoff = newest - days * DAY;
              counted = by_day (filter (\<lambda>a. an_ts a \<ge> cutoff) alerts);
              calendar = map (\<lambda>offset. day_of cutoff + int offset)
                           [0..<nat (day_of newest - day_of cutoff + 1)]
          in map (\<lambda>day. (day, dict_get counted day [])) calendar)"

definition anomaly_feed ::
  "nat \<Rightarrow> bool \<Rightarrow> string option \<Rightarrow> string option \<Rightarrow> building_row list \<Rightarrow> anomaly_row list
     \<Rightarrow> (anomaly_row \<times> string) list" where
  "anomaly_feed limit only_open wanted b buildings alerts =
     (let joined = concat (map (\<lambda>a. map (\<lambda>r. (a, br_code r))
                     (filter (\<lambda>r. br_id r = an_building_id a) buildings)) alerts);
          hits = filter (\<lambda>(a, code). (only_open \<longrightarrow> \<not> an_acknowledged a) \<and>
                   (case wanted of None \<Rightarrow> True | Some v \<Rightarrow> v = [] \<or> an_severity a = v) \<and>
                   (case b of None \<Rightarrow> True | Some i \<Rightarrow> i = [] \<or> an_building_id a = i)) joined
      in take limit (sort_key (\<lambda>(a, code). - \<bar>an_robust_z a\<bar>) hits))"

section \<open>Tiles and runs\<close>

definition recent_runs :: "nat \<Rightarrow> run_tables \<Rightarrow> run_row list" where
  "recent_runs limit t = take limit (sort_key (\<lambda>r. - rr_created_at r) (rt_runs t))"

record tiles =
  ti_buildings :: nat
  ti_readings :: int
  ti_readings_exact :: bool
  ti_alerts :: alert_tiles
  ti_annual_kwh_source :: "(string \<times> nat) list"
  ti_latest_run :: "run_row option"

definition summary ::
  "int option \<Rightarrow> row list \<Rightarrow> building_row list \<Rightarrow> anomaly_row list \<Rightarrow> run_tables \<Rightarrow> tiles" where
  "summary estimate table buildings alerts runs =
     (let (readings, exact) = reading_count estimate table
      in \<lparr>ti_buildings = length buildings, ti_readings = readings, ti_readings_exact = exact,
          ti_alerts = alerts_summary alerts table,
          ti_annual_kwh_source = count_by br_annual_kwh_source buildings,
          ti_latest_run = (case recent_runs 1 runs of [] \<Rightarrow> None | r # _ \<Rightarrow> Some r)\<rparr>)"

section \<open>Forecast against measurement\<close>

record forecast_row =
  fr_building_id :: string
  fr_ts :: int
  fr_yhat :: rat
  fr_model_version :: string
  fr_made_at :: int

record forecast_panel =
  fp_model_version :: "string option"
  fp_actual :: "(int \<times> rat) list"
  fp_forecast :: "(int \<times> rat) list"

definition forecast_vs_actual ::
  "string \<Rightarrow> int \<Rightarrow> row list \<Rightarrow> forecast_row list \<Rightarrow> forecast_panel" where
  "forecast_vs_actual b hours table forecasts =
     (case latest_reading_ts (Some b) table of
        None \<Rightarrow> \<lparr>fp_model_version = None, fp_actual = [], fp_forecast = []\<rparr>
      | Some newest \<Rightarrow>
          let cutoff = newest - hours * HOUR;
              actual = sort_key row_instant (filter (\<lambda>r. row_building_id r = Some b \<and> row_instant r \<ge> cutoff) table);
              mine = filter (\<lambda>f. fr_building_id f = b) forecasts;
              forecast = sort_key fr_ts (filter (\<lambda>f. fr_ts f \<ge> cutoff) mine)
          in \<lparr>fp_model_version = map_option fr_model_version (py_max_by fr_ts mine),
              fp_actual = downsample (map (\<lambda>r. (row_instant r, row_kw r)) actual),
              fp_forecast = downsample (map (\<lambda>f. (fr_ts f, Some (fr_yhat f))) forecast)\<rparr>)"


section \<open>Lemmas\<close>

lemma dict_append_groups:
  assumes "distinct (map fst d)"
  shows "mset (concat (map snd (filter (\<lambda>p. P (fst p)) (dict_append k v d)))) =
    mset (concat (map snd (filter (\<lambda>p. P (fst p)) d))) + (if P k then {#v#} else {#})"
proof -
  have "mset (concat (map snd (filter (\<lambda>p. P (fst p)) (AList.update k (g @ [v]) d)))) =
    mset (concat (map snd (filter (\<lambda>p. P (fst p)) d))) + (if P k then {#v#} else {#})"
    if "g = dict_get d k []" for g
    using that assms by (induction d) (auto simp: dict_get_def)
  then show ?thesis by (simp add: dict_append_def)
qed

lemma group_by_contents:
  "mset (concat (map snd (filter (\<lambda>p. P (fst p)) (group_by key xs)))) = mset (filter (\<lambda>x. P (key x)) xs)"
  by (induction xs rule: rev_induct) (simp_all add: dict_append_groups [OF distinct_group_by])

lemma sum_list_concat_map:
  "sum_list (map f (concat gs)) = sum_list (map (\<lambda>g. sum_list (map f g)) gs)"
  by (induction gs) auto

lemma map_of_sort_key:
  assumes "distinct (map fst d)"
  shows "map_of (sort_key f d) = map_of d"
proof -
  have "distinct (map fst (sort_key f d))"
    using assms by (metis distinct_map distinct_sort mset_sort set_mset_mset set_sort)
  then show ?thesis using assms by (metis map_of_inject_set set_sort)
qed

lemma raw_buckets:
  shows "map_of (foldl (\<lambda>buckets r. AList.update (key r) (dict_get buckets (key r) 0 + f r) buckets) [] xs) k =
     (let g = filter (\<lambda>r. key r = k) xs in if g = [] then None else Some (sum_list (map f g)))"
  and "distinct (map fst (foldl (\<lambda>buckets r. AList.update (key r) (dict_get buckets (key r) (0::rat) + f r) buckets) [] xs))"
proof -
  show "map_of (foldl (\<lambda>buckets r. AList.update (key r) (dict_get buckets (key r) 0 + f r) buckets) [] xs) k =
     (let g = filter (\<lambda>r. key r = k) xs in if g = [] then None else Some (sum_list (map f g)))"
    by (induction xs rule: rev_induct) (auto simp: dict_simps dict_get_def Let_def)
  show "distinct (map fst (foldl (\<lambda>buckets r. AList.update (key r) (dict_get buckets (key r) (0::rat) + f r) buckets) [] xs))"
    by (induction xs rule: rev_induct) simp_all
qed

lemma map_of_raw:
  "map_of (raw_hourly cutoff table) h =
     (let g = filter (\<lambda>r. hour_start (row_instant r) = h) (filter (\<lambda>r. row_instant r \<ge> cutoff) table)
      in if g = [] then None else Some (sum_list (map kw_of g)))"
  unfolding raw_hourly_def map_of_sort_key [OF raw_buckets(2)] raw_buckets(1) ..

lemma hour_start_le: "hour_start ts \<le> ts"
  by (simp add: hour_start_def HOUR_def)

lemma map_of_map_snd: "map_of (map (\<lambda>(k, g). (k, f g)) d) k = map_option f (map_of d k)"
  by (induction d) auto

lemma map_of_aggregate:
  assumes "cutoff \<le> h"
  shows "map_of (aggregate_load cutoff table) h =
    (let g = filter (\<lambda>p. snd (fst p) = h) (reading_hourly table)
     in if g = [] then None else Some (sum_list (map snd g)))"
proof -
  let ?d = "group_by (\<lambda>p. snd (fst p)) (filter (\<lambda>p. snd (fst p) \<ge> cutoff) (reading_hourly table))"
  have "distinct (map fst (map (\<lambda>(hour, g). (hour, sum_list (map snd g))) ?d))"
    by (simp add: case_prod_unfold comp_def distinct_group_by)
  then have "map_of (aggregate_load cutoff table) h = map_option (\<lambda>g. sum_list (map snd g)) (map_of ?d h)"
    unfolding aggregate_load_def by (simp only: map_of_sort_key map_of_map_snd)
  moreover have "filter (\<lambda>p. snd (fst p) = h) (filter (\<lambda>p. snd (fst p) \<ge> cutoff) (reading_hourly table)) =
      filter (\<lambda>p. snd (fst p) = h) (reading_hourly table)"
    unfolding filter_filter using assms by (intro filter_cong) auto
  ultimately show ?thesis by (simp add: map_of_group_by Let_def)
qed


lemma hour_contents:
  "mset (concat (map snd (filter (\<lambda>p. snd (fst p) = h)
     (group_by (\<lambda>r. (the (row_building_id r), hour_start (row_instant r))) table)))) =
   mset (filter (\<lambda>r. hour_start (row_instant r) = h) table)"
  using group_by_contents [of "\<lambda>q. snd q = h"
    "\<lambda>r. (the (row_building_id r), hour_start (row_instant r))" table] by simp

lemma hour_groups:
  assumes "\<forall>r \<in> set table. row_building_id r \<noteq> None" and "0 < k"
    and "\<forall>b. length (filter (\<lambda>r. row_building_id r = Some b \<and> hour_start (row_instant r) = h) table) \<in> {0, k}"
  shows "of_nat k * sum_list (map snd (filter (\<lambda>p. snd (fst p) = h) (reading_hourly table))) =
    sum_list (map kw_of (filter (\<lambda>r. hour_start (row_instant r) = h) table))"
proof -
  let ?key = "\<lambda>r. (the (row_building_id r), hour_start (row_instant r))"
  let ?gs = "filter (\<lambda>p. snd (fst p) = h) (group_by ?key table)"
  have sizes: "length g = k" if "(q, g) \<in> set ?gs" for q g
  proof -
    have g: "g = filter (\<lambda>r. ?key r = q) table" "g \<noteq> []" and q: "snd q = h"
      using that group_by_entry [of q g ?key table] by auto
    have "g = filter (\<lambda>r. row_building_id r = Some (fst q) \<and> hour_start (row_instant r) = h) table"
      unfolding g(1) using assms(1) q by (intro filter_cong) (auto simp: prod_eq_iff)
    then show ?thesis using assms(3) g(2) by (metis insertE length_0_conv singletonD)
  qed
  have "of_nat k * sum_list (map snd (map (\<lambda>(q, g). (q, mean (map kw_of g))) gs)) =
      sum_list (map (\<lambda>g. sum_list (map kw_of g)) (map snd gs))"
    if "\<And>q g. (q, g) \<in> set gs \<Longrightarrow> length g = k" for gs :: "((string \<times> int) \<times> row list) list"
    using that
  proof (induction gs)
    case (Cons p gs)
    obtain q g where p: "p = (q, g)" by (cases p)
    have "of_nat k * mean (map kw_of g) = sum_list (map kw_of g)"
      using Cons.prems [of q g] assms(2) by (simp add: p mean_def)
    moreover have "of_nat k * sum_list (map snd (map (\<lambda>(q, g). (q, mean (map kw_of g))) gs)) =
        sum_list (map (\<lambda>g. sum_list (map kw_of g)) (map snd gs))"
      by (rule Cons.IH) (use Cons.prems in auto)
    ultimately show ?case by (simp add: p distrib_left)
  qed simp
  moreover have "filter (\<lambda>p. snd (fst p) = h) (reading_hourly table) = map (\<lambda>(q, g). (q, mean (map kw_of g))) ?gs"
    by (simp add: reading_hourly_def filter_map comp_def case_prod_unfold)
  ultimately have "of_nat k * sum_list (map snd (filter (\<lambda>p. snd (fst p) = h) (reading_hourly table))) =
      sum_list (map (\<lambda>g. sum_list (map kw_of g)) (map snd ?gs))" using sizes by presburger
  also have "\<dots> = sum_list (map kw_of (concat (map snd ?gs)))" by (simp only: sum_list_concat_map)
  also have "\<dots> = sum_list (map kw_of (filter (\<lambda>r. hour_start (row_instant r) = h) table))"
    unfolding sum_mset_sum_list [symmetric] mset_map hour_contents ..
  finally show ?thesis .
qed

lemma hour_empty:
  "filter (\<lambda>p. snd (fst p) = h) (reading_hourly table) = [] \<longleftrightarrow>
   filter (\<lambda>r. hour_start (row_instant r) = h) table = []"
proof -
  let ?key = "\<lambda>r. (the (row_building_id r), hour_start (row_instant r))"
  have "filter (\<lambda>p. snd (fst p) = h) (reading_hourly table) = [] \<longleftrightarrow>
      filter (\<lambda>p. snd (fst p) = h) (group_by ?key table) = []"
    by (simp add: reading_hourly_def filter_map comp_def case_prod_unfold)
  also have "\<dots> \<longleftrightarrow> concat (map snd (filter (\<lambda>p. snd (fst p) = h) (group_by ?key table))) = []"
  proof -
    have "snd p \<noteq> []" if "p \<in> set (group_by ?key table)" for p
      using group_by_entry(2) [of "fst p" "snd p" ?key table] that by simp
    then show ?thesis by (auto simp: filter_empty_conv)
  qed
  also have "\<dots> \<longleftrightarrow> filter (\<lambda>r. hour_start (row_instant r) = h) table = []"
    unfolding mset_zero_iff [symmetric] hour_contents ..
  finally show ?thesis .
qed

section \<open>Properties\<close>

text \<open>
  The two sources of the load chart do not agree. The aggregate adds up the mean power of each
  building; the fallback adds up the readings: where every building that reports in an hour has k
  readings in it, as with a reading every quarter of an hour, the fallback shows k times the load.
\<close>
theorem fallback_multiplies_load:
  assumes "\<forall>r \<in> set table. row_building_id r \<noteq> None" and "0 < k" and "cutoff \<le> h"
    and "\<forall>b. length (filter (\<lambda>r. row_building_id r = Some b \<and> hour_start (row_instant r) = h) table) \<in> {0, k}"
  shows "map_of (raw_hourly cutoff table) h = map_option ((*) (of_nat k)) (map_of (aggregate_load cutoff table) h)"
proof -
  have "filter (\<lambda>r. hour_start (row_instant r) = h) (filter (\<lambda>r. row_instant r \<ge> cutoff) table) =
      filter (\<lambda>r. hour_start (row_instant r) = h) table"
    unfolding filter_filter
  proof (intro filter_cong refl)
    fix r show "(row_instant r \<ge> cutoff \<and> hour_start (row_instant r) = h) = (hour_start (row_instant r) = h)"
      using hour_start_le [of "row_instant r"] assms(3) by linarith
  qed
  then show ?thesis
    using hour_groups [OF assms(1,2,4)] hour_empty [of h table]
    by (simp add: map_of_raw map_of_aggregate [OF assms(3)] Let_def)
qed

definition quarter_hours :: "row list" where
  "quarter_hours = concat (map (\<lambda>b. map (\<lambda>i.
     \<lparr>row_building_id = Some b, row_ts = Some (Aware (int i * 900 * 1000000) 0), row_kw = Some 10,
      row_source = Some ''meter'', row_seq = Some (int i), row_sig = None\<rparr>) [0..<4]) [''a'', ''b''])"

theorem fallback_multiplies_load_witness:
  "map_of (aggregate_load 0 quarter_hours) 0 = Some 20 \<and> map_of (raw_hourly 0 quarter_hours) 0 = Some 80"
proof -
  have ids: "\<forall>r \<in> set quarter_hours. row_building_id r \<noteq> None" by (auto simp: quarter_hours_def)
  have hours: "length (filter (\<lambda>r. row_building_id r = Some b \<and> hour_start (row_instant r) = 0) quarter_hours)
      \<in> {0, 4}" for b
    by (auto simp: quarter_hours_def upt_conv_Cons hour_start_def HOUR_def)
  have "map_of (aggregate_load 0 quarter_hours) 0 = Some 20" by code_simp
  then show ?thesis
    using fallback_multiplies_load [OF ids, of 4 0 0] hours by simp
qed



lemma length_every: "0 < step \<Longrightarrow> length (every step xs) * step \<le> length xs + step - 1"
proof (induction step xs rule: every.induct)
  case (2 step x xs)
  then have IH: "length (every step (drop (step - 1) xs)) * step \<le> length (drop (step - 1) xs) + step - 1"
    by simp
  show ?case
  proof (cases "step - 1 \<le> length xs")
    case True
    then show ?thesis using IH 2(2) by simp
  next
    case False
    then show ?thesis by simp
  qed
qed simp

lemma subseq_every: "subseq (every step xs) xs"
proof (induction step xs rule: every.induct)
  case (2 step x xs)
  have "subseq (drop (step - 1) xs) xs" by (rule suffix_imp_subseq) (rule suffix_drop)
  then show ?case using 2 by (auto intro: subseq_order.order_trans)
qed simp

text \<open>
  The thinned series keeps stored points in their order, its first point among them, and at
  most 799 of them; 799 are reached, so the constant of 400 is not the bound.
\<close>
theorem downsample_points:
  "subseq (map fst (downsample rows)) (map fst rows) \<and>
   (\<forall>p \<in> set (downsample rows). \<exists>v. (fst p, Some v) \<in> set rows \<and> snd p = round_hundredths v) \<and>
   length (downsample rows) \<le> 2 * MAX_POINTS - 1 \<and>
   (\<exists>long. length (downsample long) = 2 * MAX_POINTS - 1)"
proof -
  let ?step = "max 1 (length rows div MAX_POINTS)"
  let ?show = "\<lambda>(ts, value). case value of None \<Rightarrow> [] | Some v \<Rightarrow> [(ts, round_hundredths v)]"
  have d: "downsample rows = concat (map ?show (every ?step rows))"
    by (simp add: downsample_def Let_def)
  have "subseq (map fst (concat (map ?show xs))) (map fst xs)" for xs
    by (induction xs) (auto split: option.splits)
  then have "subseq (map fst (downsample rows)) (map fst rows)"
    unfolding d using subseq_map [OF subseq_every] by (rule subseq_order.order_trans)
  moreover have "\<exists>v. (fst p, Some v) \<in> set rows \<and> snd p = round_hundredths v"
    if p: "p \<in> set (downsample rows)" for p
  proof -
    have "set (every ?step rows) \<subseteq> set rows" 
      using list_emb_set [OF subseq_every [of ?step rows]] by auto
    moreover obtain v where "(fst p, Some v) \<in> set (every ?step rows)" "snd p = round_hundredths v"
      using p unfolding d by (auto split: option.splits)
    ultimately show ?thesis by blast
  qed
  moreover have "length (downsample rows) \<le> 2 * MAX_POINTS - 1"
  proof -
    have "length (concat (map ?show xs)) \<le> length xs" for xs
      by (induction xs) (auto split: option.splits)
    then have "length (downsample rows) \<le> length (every ?step rows)" unfolding d .
    moreover have "length (every ?step rows) \<le> 799"
    proof (rule ccontr)
      let ?n = "length rows" let ?l = "length (every ?step rows)"
      assume "\<not> ?l \<le> 799"
      then have "800 * ?step \<le> ?l * ?step" by (intro mult_le_mono1) simp
      moreover have "?l * ?step \<le> ?n + ?step - 1" by (rule length_every) simp
      moreover have "?n = 400 * (?n div 400) + ?n mod 400" by simp
      moreover have "?n mod 400 < 400" by simp
      moreover have "?n div 400 \<le> ?step" "1 \<le> ?step" by (simp_all add: MAX_POINTS_def)
      ultimately show False by linarith
    qed
    ultimately show ?thesis by (simp add: MAX_POINTS_def)
  qed
  moreover have "\<exists>long. length (downsample long) = 2 * MAX_POINTS - 1"
  proof
    have one: "every 1 xs = xs" for xs :: "(int \<times> rat option) list" by (induction xs) simp_all
    have "length (concat (map ?show (replicate n (0, Some 0)))) = n" for n by (induction n) simp_all
    then show "length (downsample (replicate 799 (0, Some 0))) = 2 * MAX_POINTS - 1"
      by (simp only: downsample_def Let_def MAX_POINTS_def length_replicate) (simp add: one [unfolded One_nat_def])
  qed
  ultimately show ?thesis by blast
qed


lemma by_day_entry:
  "dict_get (by_day rows) d [] = foldl (\<lambda>c a. count_alert a c) [] (filter (\<lambda>a. day_of (an_ts a) = d) rows)"
  by (induction rows rule: rev_induct) (auto simp: by_day_def dict_get_def dict_simps)

lemma bump_get: "dict_get (bump k d) k' 0 = (if k' = k then dict_get d k 0 + 1 else dict_get d k' 0)"
  by (auto simp: bump_def dict_get_def dict_simps)

lemma day_counts:
  assumes "\<forall>a \<in> set xs. an_severity a \<notin> {''total'', ''open''}"
  shows "dict_get (foldl (\<lambda>c a. count_alert a c) [] xs) ''total'' 0 = length xs"
    and "dict_get (foldl (\<lambda>c a. count_alert a c) [] xs) ''open'' 0 = length (filter (\<lambda>a. \<not> an_acknowledged a) xs)"
    and "v \<notin> {''total'', ''open''} \<Longrightarrow>
      dict_get (foldl (\<lambda>c a. count_alert a c) [] xs) v 0 = length (filter (\<lambda>a. an_severity a = v) xs)"
proof -
  show "dict_get (foldl (\<lambda>c a. count_alert a c) [] xs) ''total'' 0 = length xs"
    using assms by (induction xs rule: rev_induct) (auto simp: count_alert_def Let_def bump_get, simp add: dict_get_def)
  show "dict_get (foldl (\<lambda>c a. count_alert a c) [] xs) ''open'' 0 = length (filter (\<lambda>a. \<not> an_acknowledged a) xs)"
    using assms by (induction xs rule: rev_induct) (auto simp: count_alert_def Let_def bump_get, simp add: dict_get_def)
  assume v: "v \<notin> {''total'', ''open''}"
  show "dict_get (foldl (\<lambda>c a. count_alert a c) [] xs) v 0 = length (filter (\<lambda>a. an_severity a = v) xs)"
    using assms v by (induction xs rule: rev_induct) (auto simp: count_alert_def Let_def bump_get, simp add: dict_get_def)
qed

lemma in_days: "0 \<le> n \<Longrightarrow> d0 \<le> d \<Longrightarrow> d \<le> d0 + n \<Longrightarrow> d \<in> set (map (\<lambda>i. d0 + int i) [0..<nat (n + 1)])"
  unfolding set_map by (rule image_eqI [where x = "nat (d - d0)"]) auto

lemma sum_over_days:
  assumes "distinct ds" and "\<And>a. a \<in> set xs \<Longrightarrow> f a \<in> set ds"
  shows "sum_list (map (\<lambda>d. length (filter (\<lambda>a. f a = d) xs)) ds) = length xs"
  using assms
proof (induction xs)
  case (Cons a xs)
  have "sum_list (map (\<lambda>d. if f a = d then 1 else 0 :: nat) ds) = (if f a \<in> set ds then 1 else 0)" if "distinct ds" for ds
    using that by (induction ds) auto
  then have "sum_list (map (\<lambda>d. if f a = d then 1 else 0 :: nat) ds) = 1" using Cons.prems by simp
  moreover have "sum_list (map (\<lambda>d. length (filter (\<lambda>a. f a = d) (a # xs))) ds) =
      sum_list (map (\<lambda>d. if f a = d then 1 else 0 :: nat) ds) +
      sum_list (map (\<lambda>d. length (filter (\<lambda>a. f a = d) xs)) ds)"
    by (simp flip: sum_list_addf) (rule arg_cong [where f = sum_list], auto)
  ultimately show ?case using Cons by simp
qed (simp add: sum_list_map_const)

text \<open>
  The trend has one entry for every day of the window, quiet days included, in order and without
  a gap; the entry of a day counts its alerts by severity, all of them and the open ones; and the
  totals of the entries add up to the alerts of the window. No alert is newer than the newest reading.
\<close>
theorem trend_covers_window:
  assumes "latest_reading_ts None table = Some newest" and "0 \<le> days"
    and "\<forall>a \<in> set alerts. an_ts a \<le> newest \<and> an_severity a \<notin> {''total'', ''open''}"
  shows "map fst (anomalies_daily days alerts table) =
       map (\<lambda>i. day_of (newest - days * DAY) + int i) [0..<nat days + 1] \<and>
     (\<forall>(d, counts) \<in> set (anomalies_daily days alerts table).
        let seen = filter (\<lambda>a. an_ts a \<ge> newest - days * DAY \<and> day_of (an_ts a) = d) alerts
        in dict_get counts ''total'' 0 = length seen \<and>
           dict_get counts ''open'' 0 = length (filter (\<lambda>a. \<not> an_acknowledged a) seen) \<and>
           (\<forall>v. v \<notin> {''total'', ''open''} \<longrightarrow>
              dict_get counts v 0 = length (filter (\<lambda>a. an_severity a = v) seen))) \<and>
     sum_list (map (\<lambda>(d, counts). dict_get counts ''total'' 0) (anomalies_daily days alerts table)) =
       length (filter (\<lambda>a. an_ts a \<ge> newest - days * DAY) alerts)"
proof -
  let ?cutoff = "newest - days * DAY"
  let ?rows = "filter (\<lambda>a. an_ts a \<ge> ?cutoff) alerts"
  have day: "day_of newest = day_of ?cutoff + days"
    by (simp add: day_of_def DAY_def)
  let ?ds = "map (\<lambda>i. day_of ?cutoff + int i) [0..<nat days + 1]"
  have daily: "anomalies_daily days alerts table = map (\<lambda>d. (d, dict_get (by_day ?rows) d [])) ?ds"
    using assms(2) by (simp add: anomalies_daily_def assms(1) Let_def day nat_add_distrib)
  have counts: "\<forall>a \<in> set (filter (\<lambda>a. day_of (an_ts a) = d) ?rows). an_severity a \<notin> {''total'', ''open''}" for d
    using assms(3) by auto
  have seen: "filter (\<lambda>a. day_of (an_ts a) = d) ?rows =
      filter (\<lambda>a. an_ts a \<ge> ?cutoff \<and> day_of (an_ts a) = d) alerts" for d
    by (simp only: filter_filter conj_commute)
  have "day_of (an_ts a) \<in> set ?ds" if "a \<in> set ?rows" for a
  proof -
    have "?cutoff \<le> an_ts a" "an_ts a \<le> newest" using that assms(3) by auto
    then have "day_of ?cutoff \<le> day_of (an_ts a)" "day_of (an_ts a) \<le> day_of newest"
      by (simp_all add: day_of_def DAY_def zdiv_mono1)
    then show ?thesis using in_days [OF assms(2), of "day_of ?cutoff" "day_of (an_ts a)"] assms(2)
      by (simp add: day nat_add_distrib)
  qed
  then have "sum_list (map (\<lambda>d. length (filter (\<lambda>a. day_of (an_ts a) = d) ?rows)) ?ds) = length ?rows"
    by (intro sum_over_days) (auto simp: distinct_map inj_on_def)
  then have sums: "sum_list (map (\<lambda>(d, counts). dict_get counts ''total'' 0) (anomalies_daily days alerts table)) =
      length ?rows"
    unfolding daily map_map comp_def prod.case by_day_entry day_counts(1) [OF counts] .
  have days_in: "map fst (anomalies_daily days alerts table) = ?ds"
    unfolding daily map_map comp_def fst_conv by simp
  have "let seen = filter (\<lambda>a. an_ts a \<ge> ?cutoff \<and> day_of (an_ts a) = d) alerts
        in dict_get (dict_get (by_day ?rows) d []) ''total'' 0 = length seen \<and>
           dict_get (dict_get (by_day ?rows) d []) ''open'' 0 = length (filter (\<lambda>a. \<not> an_acknowledged a) seen) \<and>
           (\<forall>v. v \<notin> {''total'', ''open''} \<longrightarrow>
              dict_get (dict_get (by_day ?rows) d []) v 0 = length (filter (\<lambda>a. an_severity a = v) seen))" for d
    unfolding Let_def seen [symmetric] by_day_entry
    using day_counts [OF counts] by blast
  then have "\<forall>(d, counts) \<in> set (anomalies_daily days alerts table).
        let seen = filter (\<lambda>a. an_ts a \<ge> newest - days * DAY \<and> day_of (an_ts a) = d) alerts
        in dict_get counts ''total'' 0 = length seen \<and>
           dict_get counts ''open'' 0 = length (filter (\<lambda>a. \<not> an_acknowledged a) seen) \<and>
           (\<forall>v. v \<notin> {''total'', ''open''} \<longrightarrow>
              dict_get counts v 0 = length (filter (\<lambda>a. an_severity a = v) seen))"
    unfolding daily set_map by auto
  then show ?thesis using days_in sums by blast
qed

definition one_reading :: "row list" where
  "one_reading = [\<lparr>row_building_id = Some ''a'', row_ts = Some (Aware (3 * DAY) 0), row_kw = Some 10,
      row_source = Some ''meter'', row_seq = Some 0, row_sig = None\<rparr>]"

theorem trend_covers_window_witness:
  "map fst (anomalies_daily 2 [sample_alert 1 False, (sample_alert 2 True)\<lparr>an_ts := 2 * DAY\<rparr>] one_reading) =
     [1, 2, 3]"
proof -
  have newest: "latest_reading_ts None one_reading = Some (3 * DAY)"
    by (simp add: one_reading_def latest_reading_ts_def about_building_def)
  have "map (\<lambda>i. day_of (3 * DAY - 2 * DAY) + int i) [0..<nat 2 + 1] = [1, 2, 3]"
    by (simp add: day_of_def DAY_def upt_conv_Cons)
  then show ?thesis
    using trend_covers_window [OF newest, of 2 "[sample_alert 1 False, (sample_alert 2 True)\<lparr>an_ts := 2 * DAY\<rparr>]"]
    by (simp add: sample_alert_def DAY_def)
qed


text \<open>The tiles agree: the alerts by severity add up to the open alerts.\<close>

lemma open_alerts_by_severity:
  "sum_list (map snd (open_by_severity alerts)) = open_anomaly_count None alerts"
proof -
  have "sum_list (map snd (count_by key xs)) = length xs" for key :: "anomaly_row \<Rightarrow> string" and xs
  proof -
    have "length (concat (map snd (group_by key xs))) = length xs"
      using group_by_contents [of "\<lambda>_. True" key xs] by (simp flip: size_mset)
    then show ?thesis by (simp add: count_by_def length_concat comp_def case_prod_unfold)
  qed
  then show ?thesis by (simp add: open_by_severity_def open_anomaly_count_def)
qed

end
