(* ===== verification/Slots.thy ===== *)
theory Slots
  imports Prelude
begin

text \<open>
  \<open>solve_slot\<close> of \<open>src/gemp/api/main.py\<close>: the semaphore that bounds how many requests solve at
  once and the counter that bounds how many of them belong to one account. Requests run in a
  thread pool, so the atomic sections of several requests interleave: a request is a thread with
  a program point, and a step runs one atomic section of one thread.
\<close>

section \<open>The pool\<close>

definition max_concurrent_solves :: "nat option \<Rightarrow> nat" where
  "max_concurrent_solves cpu_count =
     (let cpus = (case cpu_count of None \<Rightarrow> 4 | Some n \<Rightarrow> if n = 0 then 4 else n)
      in max 1 (min 4 (cpus div 2)))"

definition max_solves_per_principal :: "nat \<Rightarrow> nat" where
  "max_solves_per_principal max_concurrent = max 1 (max_concurrent div 2)"

text \<open>
  The program points of a request: it has raised its account's counter; it found no slot and is
  about to take the counter back; it solves; it has given the slot back and is about to take
  the counter back.
\<close>

datatype point = Counted | Backing_Out | Solving | Slot_Returned

record pool =
  pl_max :: nat
  pl_free :: nat
  pl_inflight :: "(string \<times> nat) list"
  pl_threads :: "(nat \<times> string \<times> point) list"

definition start_pool :: "nat \<Rightarrow> pool" where
  "start_pool m = \<lparr>pl_max = m, pl_free = m, pl_inflight = [], pl_threads = []\<rparr>"

definition lower_count :: "string \<Rightarrow> pool \<Rightarrow> pool" where
  "lower_count who pl =
     (let left = int (dict_get (pl_inflight pl) who 1) - 1
      in if left \<le> 0 then pl\<lparr>pl_inflight := AList.delete who (pl_inflight pl)\<rparr>
         else pl\<lparr>pl_inflight := AList.update who (nat left) (pl_inflight pl)\<rparr>)"

text \<open>The first section: refused at the account's ceiling, counted otherwise.\<close>

definition enter_slot :: "nat \<Rightarrow> string \<Rightarrow> pool \<Rightarrow> pool option" where
  "enter_slot t who pl =
     (let mine = dict_get (pl_inflight pl) who 0
      in if mine \<ge> max_solves_per_principal (pl_max pl) then None
         else Some (pl\<lparr>pl_inflight := AList.update who (mine + 1) (pl_inflight pl),
                       pl_threads := (t, who, Counted) # pl_threads pl\<rparr>))"

definition set_point :: "nat \<Rightarrow> string \<Rightarrow> point \<Rightarrow> pool \<Rightarrow> pool" where
  "set_point t who pt pl =
     pl\<lparr>pl_threads := map (\<lambda>(t', who', pt'). if t' = t then (t, who, pt) else (t', who', pt'))
                        (pl_threads pl)\<rparr>"

definition leave_pool :: "nat \<Rightarrow> pool \<Rightarrow> pool" where
  "leave_pool t pl = pl\<lparr>pl_threads := filter (\<lambda>(t', _). t' \<noteq> t) (pl_threads pl)\<rparr>"

text \<open>\<open>acquire(blocking=False)\<close>, and \<open>release()\<close> of a bounded semaphore, which raises above its bound.\<close>

definition take_slot :: "nat \<Rightarrow> string \<Rightarrow> pool \<Rightarrow> pool" where
  "take_slot t who pl =
     (if pl_free pl = 0 then set_point t who Backing_Out pl
      else set_point t who Solving (pl\<lparr>pl_free := pl_free pl - 1\<rparr>))"

definition return_slot :: "nat \<Rightarrow> string \<Rightarrow> pool \<Rightarrow> pool result" where
  "return_slot t who pl =
     (if pl_free pl \<ge> pl_max pl then Inl (ValueError ''semaphore released too many times'')
      else Inr (set_point t who Slot_Returned (pl\<lparr>pl_free := pl_free pl + 1\<rparr>)))"

definition uncount :: "nat \<Rightarrow> string \<Rightarrow> pool \<Rightarrow> pool" where
  "uncount t who pl = leave_pool t (lower_count who pl)"

section \<open>Interleavings\<close>

inductive pool_step :: "pool \<Rightarrow> pool \<Rightarrow> bool" where
  enter: "t \<notin> fst ` set (pl_threads pl) \<Longrightarrow> enter_slot t who pl = Some pl' \<Longrightarrow> pool_step pl pl'"
| take: "(t, who, Counted) \<in> set (pl_threads pl) \<Longrightarrow> pool_step pl (take_slot t who pl)"
| back_out: "(t, who, Backing_Out) \<in> set (pl_threads pl) \<Longrightarrow> pool_step pl (uncount t who pl)"
| return: "(t, who, Solving) \<in> set (pl_threads pl) \<Longrightarrow> return_slot t who pl = Inr pl' \<Longrightarrow>
    pool_step pl pl'"
| finish: "(t, who, Slot_Returned) \<in> set (pl_threads pl) \<Longrightarrow> pool_step pl (uncount t who pl)"

inductive pool_reachable :: "nat \<Rightarrow> pool \<Rightarrow> bool" for m :: nat where
  start: "pool_reachable m (start_pool m)"
| step: "pool_reachable m pl \<Longrightarrow> pool_step pl pl' \<Longrightarrow> pool_reachable m pl'"

definition solving :: "pool \<Rightarrow> nat" where
  "solving pl = length (filter (\<lambda>(t, who, pt). pt = Solving) (pl_threads pl))"

definition threads_of :: "string \<Rightarrow> pool \<Rightarrow> nat" where
  "threads_of u pl = length (filter (\<lambda>(t, who, pt). who = u) (pl_threads pl))"

definition solving_of :: "string \<Rightarrow> pool \<Rightarrow> nat" where
  "solving_of u pl = length (filter (\<lambda>(t, who, pt). who = u \<and> pt = Solving) (pl_threads pl))"

section \<open>The invariant\<close>

text \<open>
  Slots are neither lost nor made: the free ones and the ones in use add up. The counter of an
  account is the number of its threads, and an account without threads has no entry.
\<close>

definition entry_for :: "nat \<Rightarrow> nat option" where
  "entry_for n = (if n = 0 then None else Some n)"

definition pool_inv :: "nat \<Rightarrow> pool \<Rightarrow> bool" where
  "pool_inv m pl \<longleftrightarrow>
     pl_max pl = m \<and> pl_free pl + solving pl = m \<and> distinct (map fst (pl_threads pl)) \<and>
     (\<forall>u. map_of (pl_inflight pl) u = entry_for (threads_of u pl)) \<and>
     (\<forall>u. threads_of u pl \<le> max_solves_per_principal m)"

text \<open>Changing the point of one thread moves it between the counts; removing it lowers them.\<close>

definition count_if :: "('a \<Rightarrow> bool) \<Rightarrow> 'a list \<Rightarrow> nat" where
  "count_if P xs = length (filter P xs)"

lemma count_if_replace:
  assumes "distinct (map fst xs)" and "(k, v) \<in> set xs"
  shows "count_if P (map (\<lambda>x. if fst x = k then (k, w) else x) xs) + of_bool (P (k, v)) =
         count_if P xs + of_bool (P (k, w))"
  using assms
proof (induction xs)
  case Nil
  then show ?case by simp
next
  case (Cons x xs)
  show ?case
  proof (cases "fst x = k")
    case True
    then have "k \<notin> fst ` set xs" using Cons.prems(1) by auto
    then have "map (\<lambda>x. if fst x = k then (k, w) else x) xs = xs" by (intro map_idI) auto
    moreover have "(k, v) \<notin> set xs" using \<open>k \<notin> fst ` set xs\<close> by force
    ultimately show ?thesis using True Cons.prems(2) by (auto simp: count_if_def)
  next
    case False
    then have "(k, v) \<in> set xs" using Cons.prems(2) by auto
    then show ?thesis using False Cons by (auto simp: count_if_def)
  qed
qed

lemma count_if_remove:
  assumes "distinct (map fst xs)" and "(k, v) \<in> set xs"
  shows "count_if P (filter (\<lambda>x. fst x \<noteq> k) xs) + of_bool (P (k, v)) = count_if P xs"
  using assms
proof (induction xs)
  case Nil
  then show ?case by simp
next
  case (Cons x xs)
  show ?case
  proof (cases "fst x = k")
    case True
    then have "k \<notin> fst ` set xs" using Cons.prems(1) by auto
    then have "filter (\<lambda>x. fst x \<noteq> k) xs = xs" and "(k, v) \<notin> set xs"
      by (auto simp: filter_id_conv intro: rev_image_eqI)
    then show ?thesis using True Cons.prems(2) by (auto simp: count_if_def)
  next
    case False
    then have "(k, v) \<in> set xs" using Cons.prems(2) by auto
    then show ?thesis using False Cons by (auto simp: count_if_def)
  qed
qed

lemma counts_as_count_if:
  "solving pl = count_if (\<lambda>x. snd (snd x) = Solving) (pl_threads pl)"
  "threads_of u pl = count_if (\<lambda>x. fst (snd x) = u) (pl_threads pl)"
  by (simp_all add: solving_def threads_of_def count_if_def case_prod_unfold)

lemma set_point_threads:
  "pl_threads (set_point t who pt pl) =
     map (\<lambda>x. if fst x = t then (t, who, pt) else x) (pl_threads pl)"
  by (simp add: set_point_def case_prod_unfold cong: if_cong)

lemma leave_pool_threads: "pl_threads (leave_pool t pl) = filter (\<lambda>x. fst x \<noteq> t) (pl_threads pl)"
  by (simp add: leave_pool_def case_prod_unfold)

lemma pool_fields [simp]:
  "pl_max (set_point t who pt pl) = pl_max pl" "pl_free (set_point t who pt pl) = pl_free pl"
  "pl_inflight (set_point t who pt pl) = pl_inflight pl"
  "pl_max (leave_pool t pl) = pl_max pl" "pl_free (leave_pool t pl) = pl_free pl"
  "pl_inflight (leave_pool t pl) = pl_inflight pl"
  "pl_max (lower_count who pl) = pl_max pl" "pl_free (lower_count who pl) = pl_free pl"
  "pl_threads (lower_count who pl) = pl_threads pl"
  by (simp_all add: set_point_def leave_pool_def lower_count_def Let_def)

lemma counts_other_fields [simp]:
  "threads_of u (pl\<lparr>pl_free := f\<rparr>) = threads_of u pl" "solving (pl\<lparr>pl_free := f\<rparr>) = solving pl"
  "threads_of u (lower_count who pl) = threads_of u pl" "solving (lower_count who pl) = solving pl"
  by (simp_all add: threads_of_def solving_def)

lemma set_point_counts:
  assumes "distinct (map fst (pl_threads pl))" and "(t, who, pt0) \<in> set (pl_threads pl)"
  shows "threads_of u (set_point t who pt pl) = threads_of u pl"
    and "solving (set_point t who pt pl) + of_bool (pt0 = Solving) = solving pl + of_bool (pt = Solving)"
    and "map fst (pl_threads (set_point t who pt pl)) = map fst (pl_threads pl)"
  using count_if_replace [OF assms, of "\<lambda>x. fst (snd x) = u" "(who, pt)"]
    count_if_replace [OF assms, of "\<lambda>x. snd (snd x) = Solving" "(who, pt)"]
  by (simp_all add: counts_as_count_if set_point_threads)

lemma leave_pool_counts:
  assumes "distinct (map fst (pl_threads pl))" and "(t, who, pt0) \<in> set (pl_threads pl)"
  shows "threads_of u (leave_pool t pl) + of_bool (who = u) = threads_of u pl"
    and "solving (leave_pool t pl) + of_bool (pt0 = Solving) = solving pl"
    and "distinct (map fst (pl_threads (leave_pool t pl)))"
  using count_if_remove [OF assms, of "\<lambda>x. fst (snd x) = u"]
    count_if_remove [OF assms, of "\<lambda>x. snd (snd x) = Solving"] assms(1)
  by (simp_all add: counts_as_count_if leave_pool_threads distinct_map_filter)

lemma thread_counted:
  assumes "(t, who, pt) \<in> set (pl_threads pl)"
  shows "0 < threads_of who pl" and "pt = Solving \<Longrightarrow> 0 < solving pl"
  using assms by (auto simp: threads_of_def solving_def filter_empty_conv)

lemma pool_inv_start: "pool_inv m (start_pool m)"
  by (simp add: pool_inv_def start_pool_def solving_def threads_of_def entry_for_def)

lemma pool_inv_enter:
  assumes "pool_inv m pl" and "t \<notin> fst ` set (pl_threads pl)" and "enter_slot t who pl = Some pl'"
  shows "pool_inv m pl'"
proof -
  have mine: "dict_get (pl_inflight pl) u 0 = threads_of u pl" for u
    using assms(1) by (simp add: pool_inv_def dict_get_def entry_for_def)
  have lim: "threads_of who pl < max_solves_per_principal m"
    and pl': "pl' = pl\<lparr>pl_inflight := AList.update who (threads_of who pl + 1) (pl_inflight pl),
                     pl_threads := (t, who, Counted) # pl_threads pl\<rparr>"
    using assms(1,3) by (auto simp: enter_slot_def Let_def mine pool_inv_def split: if_splits)
  have "threads_of u pl' = threads_of u pl + of_bool (u = who)" for u
    by (auto simp: pl' threads_of_def)
  moreover have "solving pl' = solving pl" by (simp add: pl' solving_def)
  ultimately show ?thesis
    using assms(1,2) lim by (auto simp: pool_inv_def pl' dict_simps entry_for_def)
qed

lemma pool_inv_take:
  assumes "pool_inv m pl" and "(t, who, Counted) \<in> set (pl_threads pl)"
  shows "pool_inv m (take_slot t who pl)"
proof -
  have d: "distinct (map fst (pl_threads pl))" using assms(1) by (simp add: pool_inv_def)
  let ?pl = "pl\<lparr>pl_free := pl_free pl - 1\<rparr>"
  have d': "distinct (map fst (pl_threads ?pl))" and m': "(t, who, Counted) \<in> set (pl_threads ?pl)"
    using d assms(2) by simp_all
  show ?thesis
    using assms(1) set_point_counts [OF d assms(2), where pt = Backing_Out]
      set_point_counts [OF d' m', where pt = Solving]
    by (auto simp: pool_inv_def take_slot_def)
qed

lemma pool_inv_return:
  assumes "pool_inv m pl" and "(t, who, Solving) \<in> set (pl_threads pl)" and "return_slot t who pl = Inr pl'"
  shows "pool_inv m pl'"
proof -
  let ?pl = "pl\<lparr>pl_free := pl_free pl + 1\<rparr>"
  have d': "distinct (map fst (pl_threads ?pl))" and m': "(t, who, Solving) \<in> set (pl_threads ?pl)"
    using assms(1,2) by (simp_all add: pool_inv_def)
  show ?thesis
    using assms(1,3) set_point_counts [OF d' m', where pt = Slot_Returned]
    by (auto simp: pool_inv_def return_slot_def split: if_splits)
qed

lemma pool_inv_uncount:
  assumes "pool_inv m pl" and "(t, who, pt) \<in> set (pl_threads pl)" and "pt \<noteq> Solving"
  shows "pool_inv m (uncount t who pl)"
proof -
  let ?pl = "lower_count who pl"
  have d: "distinct (map fst (pl_threads ?pl))" and mem: "(t, who, pt) \<in> set (pl_threads ?pl)"
    using assms(1,2) by (simp_all add: pool_inv_def)
  note counts = leave_pool_counts [OF d mem, simplified]
  have pos: "0 < threads_of who pl" by (rule thread_counted(1) [OF assms(2)])
  have match: "map_of (pl_inflight pl) u = entry_for (threads_of u pl)" for u
    using assms(1) by (simp add: pool_inv_def)
  have "dict_get (pl_inflight pl) who 1 = threads_of who pl"
    using pos by (simp add: dict_get_def match entry_for_def)
  then have entry: "map_of (pl_inflight ?pl) u =
      (if u = who then entry_for (threads_of who pl - 1) else map_of (pl_inflight pl) u)" for u
    using pos by (auto simp: lower_count_def Let_def dict_simps entry_for_def)
  have left: "threads_of u (uncount t who pl) = threads_of u pl - of_bool (who = u)" for u
    using counts(1) [of u] by (simp add: uncount_def)
  have "map_of (pl_inflight (uncount t who pl)) u = entry_for (threads_of u (uncount t who pl))" for u
  proof -
    have "pl_inflight (uncount t who pl) = pl_inflight ?pl" by (simp add: uncount_def)
    then show ?thesis by (auto simp: entry match left)
  qed
  moreover have "solving (uncount t who pl) = solving pl"
    using counts(2) assms(3) by (simp add: uncount_def)
  moreover have "threads_of u (uncount t who pl) \<le> max_solves_per_principal m" for u
    using assms(1) left [of u] le_trans [OF diff_le_self] by (simp add: pool_inv_def)
  ultimately show ?thesis
    using assms(1) counts(3) by (simp add: pool_inv_def uncount_def)
qed

lemma pool_inv_reachable: "pool_reachable m pl \<Longrightarrow> pool_inv m pl"
proof (induction rule: pool_reachable.induct)
  case start
  then show ?case by (rule pool_inv_start)
next
  case (step pl pl')
  from step(2,3) show ?case
    by (cases rule: pool_step.cases)
       (auto intro: pool_inv_enter pool_inv_take pool_inv_return pool_inv_uncount)
qed

section \<open>Progress\<close>

text \<open>
  A step of the requests already in the pool: no new thread enters. How many sections a thread
  still has to run. Every thread that is in the pool can always run
  its next one, so the pool drains without anybody else's help.
\<close>

fun sections_left :: "point \<Rightarrow> nat" where
  "sections_left Counted = 3"
| "sections_left Solving = 2"
| "sections_left Backing_Out = 1"
| "sections_left Slot_Returned = 1"

definition work_left :: "pool \<Rightarrow> nat" where
  "work_left pl = sum_list (map (\<lambda>x. sections_left (snd (snd x))) (pl_threads pl))"

inductive drain_step :: "pool \<Rightarrow> pool \<Rightarrow> bool" where
  "pool_step pl pl' \<Longrightarrow> fst ` set (pl_threads pl') \<subseteq> fst ` set (pl_threads pl) \<Longrightarrow> drain_step pl pl'"

lemma work_replace:
  assumes "distinct (map fst xs)" and "(k, v) \<in> set xs"
  shows "sum_list (map f (map (\<lambda>x. if fst x = k then (k, w) else x) xs)) + f (k, v) =
         sum_list (map f xs) + (f (k, w) :: nat)"
  using assms
proof (induction xs)
  case Nil
  then show ?case by simp
next
  case (Cons x xs)
  show ?case
  proof (cases "fst x = k")
    case True
    then have notin: "k \<notin> fst ` set xs" using Cons.prems(1) by auto
    then have "map (\<lambda>x. if fst x = k then (k, w) else x) xs = xs" by (intro map_idI) auto
    moreover have "(k, v) \<notin> set xs" using notin by force
    ultimately show ?thesis using True Cons.prems(2) by auto
  next
    case False
    then have "(k, v) \<in> set xs" using Cons.prems(2) by auto
    then show ?thesis using False Cons by auto
  qed
qed

lemma work_remove:
  assumes "(k, v) \<in> set xs" and "0 < (f (k, v) :: nat)"
  shows "sum_list (map f (filter (\<lambda>x. fst x \<noteq> k) xs)) < sum_list (map f xs)"
proof -
  have le: "sum_list (map f (filter (\<lambda>x. fst x \<noteq> k) ys)) \<le> sum_list (map f ys)" for ys
    by (induction ys) auto
  show "sum_list (map f (filter (\<lambda>x. fst x \<noteq> k) xs)) < sum_list (map f xs)"
    using assms
  proof (induction xs)
    case (Cons x xs)
    then show ?case using le [of xs] by (cases "x = (k, v)") (auto simp: less_Suc_eq_le add_strict_increasing)
  qed simp
qed

lemma work_set_point:
  assumes "pool_inv m pl" and "(t, who, pt0) \<in> set (pl_threads pl)" and "sections_left pt < sections_left pt0"
  shows "work_left (set_point t who pt (pl\<lparr>pl_free := f\<rparr>)) < work_left pl"
    and "fst ` set (pl_threads (set_point t who pt (pl\<lparr>pl_free := f\<rparr>))) \<subseteq> fst ` set (pl_threads pl)"
proof -
  have d: "distinct (map fst (pl_threads pl))" using assms(1) by (simp add: pool_inv_def)
  show "work_left (set_point t who pt (pl\<lparr>pl_free := f\<rparr>)) < work_left pl"
    using work_replace [OF d assms(2), of "\<lambda>x. sections_left (snd (snd x))" "(who, pt)"] assms(3)
    by (simp add: work_left_def set_point_threads)
  show "fst ` set (pl_threads (set_point t who pt (pl\<lparr>pl_free := f\<rparr>))) \<subseteq> fst ` set (pl_threads pl)"
    by (auto simp: set_point_threads intro: rev_image_eqI)
qed

lemma work_uncount:
  assumes "(t, who, pt) \<in> set (pl_threads pl)"
  shows "work_left (uncount t who pl) < work_left pl"
    and "fst ` set (pl_threads (uncount t who pl)) \<subseteq> fst ` set (pl_threads pl)"
  using work_remove [OF assms, of "\<lambda>x. sections_left (snd (snd x))"]
  by (cases pt; auto simp: work_left_def uncount_def leave_pool_threads)+

lemma free_self [simp]: "pl\<lparr>pl_free := pl_free pl\<rparr> = pl"
  by simp

lemma drain_progress:
  assumes "pool_inv m pl" and "pl_threads pl \<noteq> []"
  obtains pl' where "drain_step pl pl'" and "work_left pl' < work_left pl"
proof -
  obtain t who pt where x: "(t, who, pt) \<in> set (pl_threads pl)"
    using assms(2) by (metis list.set_intros(1) neq_Nil_conv prod_cases3)
  show ?thesis
  proof (cases pt)
    case Counted
    then have "pool_step pl (take_slot t who pl)" using x by (auto intro: pool_step.take)
    moreover have "work_left (take_slot t who pl) < work_left pl \<and>
        fst ` set (pl_threads (take_slot t who pl)) \<subseteq> fst ` set (pl_threads pl)"
      using work_set_point [OF assms(1) x, of Backing_Out "pl_free pl"]
        work_set_point [OF assms(1) x, of Solving "pl_free pl - 1"] Counted
      by (simp add: take_slot_def)
    ultimately show ?thesis using that by (blast intro: drain_step.intros)
  next
    case Solving
    then have "0 < solving pl" using thread_counted(2) [OF x] by simp
    then have free: "pl_free pl < pl_max pl" using assms(1) by (simp add: pool_inv_def)
    let ?pl' = "set_point t who Slot_Returned (pl\<lparr>pl_free := pl_free pl + 1\<rparr>)"
    have "pool_step pl ?pl'"
      using x Solving free by (auto simp: return_slot_def intro: pool_step.return)
    then show ?thesis
      using work_set_point [OF assms(1) x, of Slot_Returned "pl_free pl + 1"] Solving that
      by (auto intro: drain_step.intros)
  next
    case Backing_Out
    then have "pool_step pl (uncount t who pl)" using x by (auto intro: pool_step.back_out)
    then show ?thesis using work_uncount [OF x] that by (blast intro: drain_step.intros)
  next
    case Slot_Returned
    then have "pool_step pl (uncount t who pl)" using x by (auto intro: pool_step.finish)
    then show ?thesis using work_uncount [OF x] that by (blast intro: drain_step.intros)
  qed
qed

lemma empty_pool: "pool_inv m pl \<Longrightarrow> pl_threads pl = [] \<Longrightarrow> pl = start_pool m"
proof -
  assume inv: "pool_inv m pl" and "pl_threads pl = []"
  then have "map_of (pl_inflight pl) u = None" for u
    by (simp add: pool_inv_def threads_of_def entry_for_def)
  then have "pl_inflight pl = []" by (cases "pl_inflight pl") (auto split: if_splits, metis option.distinct(1))
  then show ?thesis using inv \<open>pl_threads pl = []\<close>
    by (cases pl) (simp add: pool_inv_def start_pool_def solving_def)
qed

lemma pool_inv_step: "pool_inv m pl \<Longrightarrow> pool_step pl pl' \<Longrightarrow> pool_inv m pl'"
  by (erule pool_step.cases)
     (auto intro: pool_inv_enter pool_inv_take pool_inv_return pool_inv_uncount)

lemma drains: "pool_inv m pl \<Longrightarrow> drain_step\<^sup>*\<^sup>* pl (start_pool m)"
proof (induction "work_left pl" arbitrary: pl rule: less_induct)
  case less
  show ?case
  proof (cases "pl_threads pl = []")
    case True
    then show ?thesis using empty_pool [OF less.prems] by simp
  next
    case False
    then obtain pl' where pl': "drain_step pl pl'" "work_left pl' < work_left pl"
      using drain_progress [OF less.prems] by blast
    then have "pool_inv m pl'" using pool_inv_step [OF less.prems] by (auto elim: drain_step.cases)
    then have "drain_step\<^sup>*\<^sup>* pl' (start_pool m)" using less.hyps pl'(2) by blast
    with pl'(1) show ?thesis by (rule converse_rtranclp_into_rtranclp)
  qed
qed

section \<open>Properties\<close>

lemma filter_length_mono:
  "(\<And>x. P x \<Longrightarrow> Q x) \<Longrightarrow> length (filter P xs) \<le> length (filter Q xs)"
  by (induction xs) auto

lemma solving_of_le: "solving_of u pl \<le> threads_of u pl"
  unfolding solving_of_def threads_of_def by (rule filter_length_mono) auto

text \<open>
  Whatever the interleaving, at most the configured number of requests solve at once and at
  most half of it (but one) for one account; a slot can always be given back without the
  semaphore objecting; and when no request is in the pool, every slot is free and no
  account has a counter left.
\<close>
theorem solve_slots_bounded:
  assumes "pool_reachable m pl"
  shows "solving pl \<le> m \<and> solving_of u pl \<le> max_solves_per_principal m \<and>
         ((t, who, Solving) \<in> set (pl_threads pl) \<longrightarrow> (\<exists>pl'. return_slot t who pl = Inr pl')) \<and>
         (pl_threads pl = [] \<longrightarrow> pl = start_pool m)"
proof -
  have inv: "pool_inv m pl" by (rule pool_inv_reachable [OF assms])
  have "\<exists>pl'. return_slot t who pl = Inr pl'" if mem: "(t, who, Solving) \<in> set (pl_threads pl)"
    using thread_counted(2) [OF mem] inv by (simp add: return_slot_def pool_inv_def)
  moreover have "solving_of u pl \<le> max_solves_per_principal m"
    using inv solving_of_le [of u pl] by (auto simp: pool_inv_def intro: le_trans)
  ultimately show ?thesis using inv empty_pool [OF inv] by (auto simp: pool_inv_def)
qed

text \<open>Two requests of two accounts in a pool of two, and a third that finds no slot.\<close>

definition sample_pool :: pool where
  "sample_pool =
     (let p1 = take_slot 1 ''amal'' (the (enter_slot 1 ''amal'' (start_pool 2)));
          p2 = take_slot 2 ''basem'' (the (enter_slot 2 ''basem'' p1))
      in take_slot 3 ''dina'' (the (enter_slot 3 ''dina'' p2)))"

lemma run_enter:
  "pool_reachable m pl \<Longrightarrow> t \<notin> fst ` set (pl_threads pl) \<Longrightarrow> enter_slot t who pl \<noteq> None \<Longrightarrow>
     pool_reachable m (the (enter_slot t who pl))"
  by (erule pool_reachable.step) (auto intro: pool_step.enter [of t _ who])

lemma run_take:
  "pool_reachable m pl \<Longrightarrow> (t, who, Counted) \<in> set (pl_threads pl) \<Longrightarrow>
     pool_reachable m (take_slot t who pl)"
  by (erule pool_reachable.step) (rule pool_step.take)

lemma sample_pool_reachable: "pool_reachable 2 sample_pool"
  unfolding sample_pool_def Let_def
  by (rule run_take [OF run_enter [OF run_take [OF run_enter [OF run_take [OF run_enter
      [OF pool_reachable.start]]]]]]) code_simp+

theorem solve_slots_bounded_witness:
  "solving sample_pool \<le> 2 \<and> solving_of ''amal'' sample_pool \<le> max_solves_per_principal 2 \<and>
   (\<exists>pl'. return_slot 1 ''amal'' sample_pool = Inr pl')"
proof -
  have "(1, ''amal'', Solving) \<in> set (pl_threads sample_pool)" by code_simp
  then show ?thesis
    using solve_slots_bounded [OF sample_pool_reachable, of "''amal''" 1 "''amal''"] by simp
qed

text \<open>
  From every state the requests in the pool can run to their ends, in which every slot is
  free again, without a step of anybody else.
\<close>
theorem solve_slots_drain:
  assumes "pool_reachable m pl"
  shows "drain_step\<^sup>*\<^sup>* pl (start_pool m)"
  by (rule drains [OF pool_inv_reachable [OF assms]])

theorem solve_slots_drain_witness: "drain_step\<^sup>*\<^sup>* sample_pool (start_pool 2)"
  by (rule solve_slots_drain [OF sample_pool_reachable])

text \<open>
  One account can keep every slot busy exactly where there is one slot, which is every
  host with fewer than four processors.
\<close>
theorem one_account_fills_the_pool:
  "(\<exists>pl. pool_reachable (max_concurrent_solves cpus) pl \<and>
         solving_of u pl = max_concurrent_solves cpus) \<longleftrightarrow> max_concurrent_solves cpus = 1"
proof
  assume "max_concurrent_solves cpus = 1"
  moreover have "\<exists>pl. pool_reachable 1 pl \<and> solving_of u pl = 1"
  proof (intro exI conjI)
    let ?e = "the (enter_slot 0 u (start_pool 1))"
    have e: "enter_slot 0 u (start_pool 1) = Some \<lparr>pl_max = 1, pl_free = 1, pl_inflight = [(u, 1)],
        pl_threads = [(0, u, Counted)]\<rparr>"
      by (simp add: enter_slot_def start_pool_def max_solves_per_principal_def dict_get_def)
    show "pool_reachable 1 (take_slot 0 u ?e)"
      by (rule run_take [OF run_enter [OF pool_reachable.start]])
         (simp add: start_pool_def, simp only: e option.distinct not_False_eq_True, simp only: e option.sel pool.select_convs list.set_intros)
    show "solving_of u (take_slot 0 u ?e) = 1"
      unfolding e option.sel by (simp add: take_slot_def set_point_def solving_of_def)
  qed
  ultimately show "\<exists>pl. pool_reachable (max_concurrent_solves cpus) pl \<and>
      solving_of u pl = max_concurrent_solves cpus" by simp
next
  assume "\<exists>pl. pool_reachable (max_concurrent_solves cpus) pl \<and>
      solving_of u pl = max_concurrent_solves cpus"
  then obtain pl where r: "pool_reachable (max_concurrent_solves cpus) pl"
    and s: "solving_of u pl = max_concurrent_solves cpus" by blast
  have "solving_of u pl \<le> max_solves_per_principal (max_concurrent_solves cpus)"
    using pool_inv_reachable [OF r] solving_of_le [of u pl] by (auto simp: pool_inv_def intro: le_trans)
  moreover have "1 \<le> max_concurrent_solves cpus" by (simp add: max_concurrent_solves_def)
  ultimately show "max_concurrent_solves cpus = 1"
    using s by (auto simp: max_solves_per_principal_def max_def split: if_splits)
qed

end
