(* ===== verification/Jobs.thy ===== *)
theory Jobs
  imports Text
begin

text \<open>
  \<open>src/gemp/api/jobs.py\<close> and its routes in \<open>api/main.py\<close>: the two maintenance jobs, started from
  the interface one at a time. The module's lock makes every access to \<open>_state\<close> atomic, so the
  table is a state and starting and ending a job are steps on it; the subprocess is a parameter of
  the step that ends the job, and so is whether the thread that runs it could be created.
\<close>

section \<open>The table of jobs\<close>

definition JOB_COMMANDS :: "string \<Rightarrow> (string \<times> string list) list" where
  "JOB_COMMANDS python =
     [(''forecast-refit'', [python, ''-m'', ''gemp.ml.jobs'']),
      (''evidence'', [python, ''-m'', ''gemp.evaluate'', ''--with-db'', ''--no-figures''])]"

definition JOB_KINDS :: "string list" where
  "JOB_KINDS = map fst (JOB_COMMANDS [])"

definition JOB_LABELS :: "(string \<times> string) list" where
  "JOB_LABELS = [(''forecast-refit'', ''Forecast refit''), (''evidence'', ''Claims harness'')]"

definition TIMEOUT_SECONDS :: int where
  "TIMEOUT_SECONDS = 45 * 60"

record job_entry =
  je_status :: string
  je_started_at :: "int option"
  je_finished_at :: "int option"
  je_started_by :: "string option"
  je_summary :: string
  je_error :: string

record jobs =
  jb_state :: "(string \<times> job_entry) list"
  jb_threads :: "string list"

definition idle_entry :: job_entry where
  "idle_entry = \<lparr>je_status = ''idle'', je_started_at = None, je_finished_at = None,
                 je_started_by = None, je_summary = [], je_error = []\<rparr>"

definition initial_jobs :: jobs where
  "initial_jobs = \<lparr>jb_state = map (\<lambda>kind. (kind, idle_entry)) JOB_KINDS, jb_threads = []\<rparr>"

definition job_view :: "string \<Rightarrow> job_entry \<Rightarrow> string \<times> string option \<times> job_entry" where
  "job_view kind entry = (kind, map_of JOB_LABELS kind, entry)"

definition job_status :: "string \<Rightarrow> jobs \<Rightarrow> (string \<times> string option \<times> job_entry) option" where
  "job_status kind jb = map_option (job_view kind) (map_of (jb_state jb) kind)"

definition all_status :: "jobs \<Rightarrow> (string \<times> string option \<times> job_entry) list" where
  "all_status jb = map (\<lambda>(kind, entry). job_view kind entry) (jb_state jb)"

definition is_running :: "job_entry \<Rightarrow> bool" where
  "is_running entry = (je_status entry = ''running'')"

definition running_kind :: "jobs \<Rightarrow> string option" where
  "running_kind jb = map_option fst (find (\<lambda>(kind, entry). is_running entry) (jb_state jb))"

section \<open>Starting and ending\<close>

text \<open>
  What \<open>start\<close> does: refuse, or mark the job running and create its thread. The mark is made
  before the thread is created, and an exception from the creation leaves it.
\<close>

datatype start_outcome =
    Slot_Taken "string \<times> string option \<times> job_entry"
  | Started "string \<times> string option \<times> job_entry"
  | Thread_Not_Created

definition start_job ::
  "int \<Rightarrow> bool \<Rightarrow> string \<Rightarrow> string \<Rightarrow> jobs \<Rightarrow> start_outcome \<times> jobs" where
  "start_job now thread_created kind username jb =
     (case find (\<lambda>(other, entry). is_running entry) (jb_state jb) of
        Some (other, entry) \<Rightarrow> (Slot_Taken (job_view other entry), jb)
      | None \<Rightarrow>
          let entry = \<lparr>je_status = ''running'', je_started_at = Some now, je_finished_at = None,
                       je_started_by = Some username, je_summary = [], je_error = []\<rparr>;
              marked = jb\<lparr>jb_state := AList.update kind entry (jb_state jb)\<rparr>
          in if thread_created
             then (Started (job_view kind entry), marked\<lparr>jb_threads := kind # jb_threads marked\<rparr>)
             else (Thread_Not_Created, marked))"

text \<open>\<open>str.splitlines\<close>, and the last twelve lines of what the subprocess wrote.\<close>

definition line_break :: "char \<Rightarrow> bool" where
  "line_break c = ((of_char c :: nat) \<in> {10, 11, 12, 13, 28, 29, 30, 0x85})"

fun splitlines_from :: "string \<Rightarrow> string \<Rightarrow> string list" where
  "splitlines_from line [] = (if line = [] then [] else [rev line])"
| "splitlines_from line (c # cs) =
     (if (of_char c :: nat) = 13 \<and> cs \<noteq> [] \<and> (of_char (hd cs) :: nat) = 10
        then rev line # splitlines_from [] (tl cs)
      else if line_break c then rev line # splitlines_from [] cs
      else splitlines_from (c # line) cs)"

definition splitlines :: "string \<Rightarrow> string list" where
  "splitlines s = splitlines_from [] s"

fun join_lines :: "string list \<Rightarrow> string" where
  "join_lines [] = []"
| "join_lines [w] = w"
| "join_lines (w # v # ws) = w @ CHR 0x0A # join_lines (v # ws)"

definition last_lines :: "string \<Rightarrow> string list" where
  "last_lines s = (let ls = splitlines (strip s) in drop (length ls - 12) ls)"

datatype ending = Exited int string string | Timed_Out | Raised string

definition end_entry :: "int \<Rightarrow> ending \<Rightarrow> job_entry \<Rightarrow> job_entry" where
  "end_entry now ending entry =
     (case ending of
        Exited code out err \<Rightarrow>
          entry\<lparr>je_status := (if code = 0 then ''done'' else ''failed''), je_finished_at := Some now,
                je_summary := join_lines (last_lines (if out \<noteq> [] then out else err)),
                je_error := (if code = 0 then [] else ''exit code '' @ show_int code)\<rparr>
      | Timed_Out \<Rightarrow>
          entry\<lparr>je_status := ''failed'', je_finished_at := Some now,
                je_error := ''gave up after '' @ show_int (TIMEOUT_SECONDS div 60) @ '' minutes''\<rparr>
      | Raised what \<Rightarrow>
          entry\<lparr>je_status := ''failed'', je_finished_at := Some now, je_error := what\<rparr>)"

definition end_job :: "int \<Rightarrow> string \<Rightarrow> ending \<Rightarrow> jobs \<Rightarrow> jobs" where
  "end_job now kind ending jb =
     \<lparr>jb_state = map (\<lambda>(k, entry). (k, if k = kind then end_entry now ending entry else entry)) (jb_state jb),
      jb_threads = remove1 kind (jb_threads jb)\<rparr>"

section \<open>The routes\<close>

datatype job_answer =
    Job_Accepted "string \<times> string option \<times> job_entry"
  | Job_Conflict "string option"
  | Job_Not_Found
  | Job_Error

definition job_start_route ::
  "int \<Rightarrow> bool \<Rightarrow> string \<Rightarrow> string option \<Rightarrow> jobs \<Rightarrow> job_answer \<times> jobs" where
  "job_start_route now thread_created kind caller jb =
     (if kind \<notin> set JOB_KINDS then (Job_Not_Found, jb)
      else
        let username = (case caller of None \<Rightarrow> ''unknown'' | Some u \<Rightarrow> u)
        in case start_job now thread_created kind username jb of
             (Slot_Taken (other, label, entry), jb') \<Rightarrow> (Job_Conflict label, jb')
           | (Started view, jb') \<Rightarrow> (Job_Accepted view, jb')
           | (Thread_Not_Created, jb') \<Rightarrow> (Job_Error, jb'))"

definition job_status_route ::
  "string \<Rightarrow> jobs \<Rightarrow> (string \<times> string option \<times> job_entry) option" where
  "job_status_route kind jb = (if kind \<notin> set JOB_KINDS then None else job_status kind jb)"

text \<open>The steps: a request to start, whatever becomes of its thread, and the end of a running one.\<close>

inductive job_step :: "jobs \<Rightarrow> jobs \<Rightarrow> bool" where
  request: "snd (job_start_route now created kind caller jb) = jb' \<Longrightarrow> job_step jb jb'"
| ending: "kind \<in> set (jb_threads jb) \<Longrightarrow> job_step jb (end_job now kind e jb)"

inductive jobs_reachable :: "jobs \<Rightarrow> bool" where
  start: "jobs_reachable initial_jobs"
| step: "jobs_reachable jb \<Longrightarrow> job_step jb jb' \<Longrightarrow> jobs_reachable jb'"

section \<open>The invariant\<close>

definition running :: "jobs \<Rightarrow> string list" where
  "running jb = map fst (filter (\<lambda>(kind, entry). is_running entry) (jb_state jb))"

definition jobs_inv :: "jobs \<Rightarrow> bool" where
  "jobs_inv jb \<longleftrightarrow> map fst (jb_state jb) = JOB_KINDS \<and> length (running jb) \<le> 1 \<and>
     (jb_threads jb = [] \<or> jb_threads jb = running jb)"

lemma kinds: "JOB_KINDS = [''forecast-refit'', ''evidence'']"
  by (simp add: JOB_KINDS_def JOB_COMMANDS_def)

lemma job_table:
  assumes "map fst (jb_state jb) = JOB_KINDS"
  obtains e f where "jb_state jb = [(''forecast-refit'', e), (''evidence'', f)]"
  using assms by (auto simp: kinds map_eq_Cons_conv)

lemma not_running_end [simp]: "\<not> is_running (end_entry now e entry)"
  by (auto simp: end_entry_def is_running_def split: ending.splits)

lemma job_start_route_cases:
  assumes "jobs_inv jb" and "job_start_route now created kind caller jb = (ans, jb')"
  shows "jobs_inv jb' \<and>
    (if kind \<notin> set JOB_KINDS then ans = Job_Not_Found \<and> jb' = jb
     else if running jb \<noteq> [] then (\<exists>label. ans = Job_Conflict label) \<and> jb' = jb
     else running jb' = [kind] \<and>
       (if created then (\<exists>view. ans = Job_Accepted view) \<and> jb_threads jb' = [kind]
        else ans = Job_Error \<and> jb_threads jb' = []))"
proof -
  have t: "map fst (jb_state jb) = JOB_KINDS" using assms(1) by (simp add: jobs_inv_def)
  then obtain e f where st: "jb_state jb = [(''forecast-refit'', e), (''evidence'', f)]"
    by (rule job_table)
  show ?thesis
    using assms st
    by (cases "is_running e"; cases "is_running f"; cases created)
       (auto simp: job_start_route_def start_job_def jobs_inv_def running_def kinds job_view_def
        is_running_def Let_def split: if_splits option.splits)
qed

lemma end_job_inv:
  assumes "jobs_inv jb" and "kind \<in> set (jb_threads jb)"
  shows "jobs_inv (end_job now kind e jb)" and "running (end_job now kind e jb) = []"
    and "jb_threads (end_job now kind e jb) = []"
proof -
  have t: "map fst (jb_state jb) = JOB_KINDS" using assms(1) by (simp add: jobs_inv_def)
  then obtain u v where st: "jb_state jb = [(''forecast-refit'', u), (''evidence'', v)]"
    by (rule job_table)
  have thr: "jb_threads jb = running jb" and len: "length (running jb) \<le> 1"
    using assms by (auto simp: jobs_inv_def)
  show "running (end_job now kind e jb) = []" and "jb_threads (end_job now kind e jb) = []"
    using thr len assms(2) st
    by (cases "is_running u"; cases "is_running v"; auto simp: end_job_def running_def)+
  then show "jobs_inv (end_job now kind e jb)"
    using t by (simp add: jobs_inv_def end_job_def case_prod_unfold o_def)
qed

lemma jobs_inv_reachable: "jobs_reachable jb \<Longrightarrow> jobs_inv jb"
proof (induction rule: jobs_reachable.induct)
  case start
  then show ?case by (simp add: jobs_inv_def initial_jobs_def running_def is_running_def idle_entry_def kinds)
next
  case (step jb jb')
  from step(2) show ?case
  proof (cases rule: job_step.cases)
    case (request now created kind caller)
    then show ?thesis using job_start_route_cases [OF step(3)] by (metis prod.collapse)
  next
    case (ending kind now e)
    then show ?thesis using end_job_inv(1) [OF step(3)] by simp
  qed
qed

section \<open>Properties\<close>

text \<open>
  At most one job is marked running and at most one job thread exists, whatever requests
  come and however jobs end; a request for a known job is accepted exactly when nothing is marked
  running and its thread can be created, and a refused one changes nothing.
\<close>
theorem one_job_at_a_time:
  assumes "jobs_reachable jb" and "kind \<in> set JOB_KINDS"
  shows "length (running jb) \<le> 1 \<and> length (jb_threads jb) \<le> 1 \<and>
         ((\<exists>view. fst (job_start_route now created kind caller jb) = Job_Accepted view) \<longleftrightarrow>
            running jb = [] \<and> created) \<and>
         (running jb \<noteq> [] \<longrightarrow> snd (job_start_route now created kind caller jb) = jb)"
proof -
  have inv: "jobs_inv jb" by (rule jobs_inv_reachable [OF assms(1)])
  obtain ans jb' where r: "job_start_route now created kind caller jb = (ans, jb')" by fastforce
  show ?thesis
    using job_start_route_cases [OF inv r] inv assms(2) r
    by (auto simp: jobs_inv_def split: if_splits)
qed

definition one_running :: jobs where
  "one_running = snd (job_start_route 5 True ''evidence'' (Some ''amal'') initial_jobs)"

lemma one_running_reachable: "jobs_reachable one_running"
  unfolding one_running_def
  by (rule jobs_reachable.step [OF jobs_reachable.start]) (rule job_step.request, rule refl)

theorem one_job_at_a_time_witness:
  "length (running one_running) \<le> 1 \<and>
   snd (job_start_route 6 True ''forecast-refit'' None one_running) = one_running"
proof -
  have "running one_running \<noteq> []" by code_simp
  then show ?thesis
    using one_job_at_a_time [OF one_running_reachable, of "''forecast-refit''" 6 True None]
    by (simp add: kinds)
qed

text \<open>
  A job whose thread could not be created stays marked as running, and then no request is
  ever accepted again: the table no longer changes until the process restarts.
\<close>
theorem failed_thread_blocks_jobs:
  assumes "jobs_reachable jb" and "running jb = []" and "kind \<in> set JOB_KINDS"
    and "job_step\<^sup>*\<^sup>* (snd (job_start_route now False kind caller jb)) jb'"
  shows "jb' = snd (job_start_route now False kind caller jb) \<and> running jb' = [kind]"
proof -
  let ?jb = "snd (job_start_route now False kind caller jb)"
  have inv: "jobs_inv jb" by (rule jobs_inv_reachable [OF assms(1)])
  obtain ans jb0 where r: "job_start_route now False kind caller jb = (ans, jb0)" by fastforce
  then have stuck: "running ?jb = [kind]" "jb_threads ?jb = []" "jobs_inv ?jb"
    using job_start_route_cases [OF inv r] assms(2,3) by auto
  from assms(4) show ?thesis
  proof (induction rule: rtranclp_induct)
    case base
    then show ?case using stuck by simp
  next
    case (step y z)
    then have y: "y = ?jb" by simp
    from step(2) show ?case
    proof (cases rule: job_step.cases)
      case (request now' created' kind' caller')
      obtain ans' where r': "job_start_route now' created' kind' caller' ?jb = (ans', z)"
        using request y by (metis prod.collapse)
      have "z = ?jb" using job_start_route_cases [OF stuck(3) r'] stuck(1) by (auto split: if_splits)
      then show ?thesis using stuck by simp
    next
      case (ending k now' e)
      then show ?thesis using stuck(2) y by simp
    qed
  qed
qed

theorem failed_thread_blocks_jobs_witness:
  "running (snd (job_start_route 5 False ''evidence'' None initial_jobs)) = [''evidence'']"
  using failed_thread_blocks_jobs [OF jobs_reachable.start, of "''evidence''" 5 None]
  by (simp add: kinds running_def initial_jobs_def is_running_def idle_entry_def)

end
