(* ===== verification/Spec2Isabelle.thy ===== *)
theory Spec2Isabelle
  imports Portfolio Loop Access Api Health Dashboard Slots Jobs
begin

text \<open>
  GEMP: a verification library for the budget-constrained retrofit platform under \<open>src/gemp\<close>.

  The program. GEMP decides which energy measures to fund at which public buildings. Four
  parts carry its logic. The \<^emph>\<open>domain layer\<close> turns a portfolio, a catalogue of measures and
  a file of physical parameters into costed candidates. The \<^emph>\<open>optimizer\<close> picks candidates
  under a budget, one per building, with an optional cap per district. The \<^emph>\<open>ingester\<close> takes
  meter readings off a message queue, signs them into one hash chain per building, stores them,
  anchors the heads of the chains outside the database, and flags anomalies as they stream by.
  The \<^emph>\<open>web service\<close> authenticates people, throttles guessing, and checks every request.

  How the parts interact. \<open>expand_portfolio\<close> feeds \<open>solve\<close> (theory Portfolio composes the two).
  The ingester calls the detector inside its transaction and undoes it when the transaction
  fails; its queue feeds the webhook; the integrity report of the service reads what the
  ingester stored and anchored. The middleware resolves a session before a route runs, and the
  routes call the account service, which shares the throttle.

  Conventions (theory Prelude). A Python float is an exact rational; rounding is not modelled
  except where the code itself rounds. A string is a list of characters up to code point 255. A
  dict is an association list in insertion order. An exception is a value of a sum type, so
  every raise and early return is a branch. Clocks, random values, the network and the fate of a
  transaction are arguments. What the repository does not contain is a parameter, with its
  documented behaviour as a named predicate: \<open>cpsat_contract\<close> (CP-SAT), \<open>mac_contract\<close>
  (HMAC-SHA256), \<open>scrypt_contract\<close>, and without assumptions \<open>loads\<close> (JSON), \<open>urlparse\<close>,
  \<open>v6\<close> (IPv6 addresses) and the parsers of the record \<open>stdlib\<close>. Each predicate is shown
  satisfiable by a concrete function that the witnesses use.

  \<^bold>\<open>Domain layer\<close> (\<open>domain/\<close>).
  \<^item> Models: \<open>models.py\<close>, the records with the checks of their constructors.
  \<^item> Catalog: \<open>catalog.py\<close>, the parameters, the bucket expressions of the condition
    multipliers, the \<open>applies_if\<close> language, the loaders' checks, the cross-validation.
  \<^item> Shipped: the repository's own \<open>data/params.yaml\<close> and \<open>data/catalog.csv\<close> as values.
  \<^item> Savings: \<open>savings.py\<close>, and a reference definition of what a bundle saves, which the loops
    compute; bounds and independence of the order follow from it.
  \<^item> Lifecycle: \<open>lifecycle.py\<close>, discounting, costs, embodied carbon, the two benefits.
  \<^item> Candidates: \<open>candidates.py\<close>, the expansion: exactly the worthwhile bundles, distinct keys,
    and a data contract under which nothing raises, which the shipped files meet.

  \<^bold>\<open>Optimizer\<close> (\<open>optimize/\<close>).
  \<^item> Objective, Prune, Baselines, Ilp, Runner: one theory per file. Pruning preserves the
    optimum; the upgrade loop stops at a local optimum; an optimal answer of CP-SAT is optimal
    among the original candidates; \<open>solve\<close> is total on valid calls and its plan is feasible.
  \<^item> Portfolio: expansion and solving together yield a plan from any portfolio that meets the
    data contract.

  \<^bold>\<open>Ingester\<close> (\<open>ingest/\<close>, with \<open>services.py\<close> for the report).
  \<^item> Text: numbers, hexadecimal bytes, white space, splitting; used throughout.
  \<^item> Canonical, Integrity: \<open>integrity.py\<close>, the signed encoding (injective) and the chain walk
    (complete on honest chains, tamper-evident, and it locates the damage).
  \<^item> LiveAnomaly: \<open>live_anomaly.py\<close>, the streaming detector, bounded, with rollback.
  \<^item> Webhook: \<open>webhook.py\<close>, the notifier: every notification is accounted for.
  \<^item> Consumer, Ingest: \<open>consumer.py\<close>, the operations and the step relation \<open>ingest_step\<close> with its
    invariant: stored chains verify in every reachable state.
  \<^item> Loop: \<open>Ingester.run\<close>, which refines the step relation.
  \<^item> Anchor, Report: \<open>anchor.py\<close> and the integrity report of \<open>services.py\<close>.

  \<^bold>\<open>Web service\<close> (\<open>auth/\<close>, \<open>api/\<close>, \<open>mail.py\<close>).
  \<^item> Passwords: \<open>roles.py\<close>, \<open>passwords.py\<close>. Throttle, Accounts: \<open>service.py\<close>. The throttle's
    trimmed windows refine a log that never forgets.
  \<^item> Gate: \<open>deps.py\<close> and the middleware of \<open>api/main.py\<close>: deny by default.
  \<^item> JudgePass: \<open>judge_pass.py\<close>, \<open>mail.py\<close>. AuthRoutes: \<open>api/auth_routes.py\<close>.
  \<^item> Access: the step relation \<open>access_step\<close> over all of it, and the invariants of the states
    it reaches.

  Bounds and fuel. Recursions are structural or end with a list they consume. The upgrade loop
  of Baselines runs on fuel, the code's own \<open>_MAX_UPGRADE_MOVES\<close>; that enough moves reach a
  local optimum is a theorem, and the code's number is the model's. The run loop takes the list
  of iterations the outside offers.
\<close>

end
